(* ===== verification/Prelude.thy ===== *)
theory Prelude
  imports Main "HOL-Library.Word" "HOL-Library.AList"
begin

text \<open>
  What every component of the development shares: the machine types of the Rust code,
  big-endian fields (\<open>to_be_bytes\<close> / \<open>from_be_bytes\<close>), the saturating and absolute
  differences on unsigned words, the outcome of Rust code that may panic (indexing and
  slicing out of range), and maps from keys to time stamps (\<open>HashMap<K, u64>\<close>), which are
  association lists with distinct keys so that \<open>len\<close>, \<open>retain\<close> and \<open>insert\<close> compute.
\<close>

named_theorems panic_simps \<open>evaluation of checked indexing and slicing\<close>
named_theorems time_simps \<open>time differences read as natural numbers\<close>

type_synonym byte = "8 word"
type_synonym bytes = "8 word list"
type_synonym u16 = "16 word"
type_synonym u32 = "32 word"
type_synonym u64 = "64 word"

section \<open>Big-endian fields\<close>

primrec nat_to_be :: "nat \<Rightarrow> nat \<Rightarrow> bytes" where
  "nat_to_be 0 x = []"
| "nat_to_be (Suc n) x = nat_to_be n (x div 256) @ [word_of_nat (x mod 256)]"

definition nat_of_be :: "bytes \<Rightarrow> nat" where
  "nat_of_be bs = foldl (\<lambda>acc b. acc * 256 + unat b) 0 bs"

lemma length_nat_to_be [simp]: "length (nat_to_be n x) = n"
  by (induction n arbitrary: x) auto

lemma nat_of_be_Nil [simp]: "nat_of_be [] = 0"
  by (simp add: nat_of_be_def)

lemma nat_of_be_snoc [simp]: "nat_of_be (bs @ [b]) = nat_of_be bs * 256 + unat b"
  by (simp add: nat_of_be_def)

lemma unat_byte_of_nat: "unat (word_of_nat (x mod 256) :: byte) = x mod 256"
  by (simp add: unat_of_nat)

lemma unat_byte_less [simp]: "unat (b :: byte) < 256"
  using unsigned_less[of b, where ?'a = nat] by simp

lemma nat_of_be_to_be: "nat_of_be (nat_to_be n x) = x mod 256 ^ n"
proof (induction n arbitrary: x)
  case 0
  then show ?case by simp
next
  case (Suc n)
  have "x mod (256 * 256 ^ n) = 256 * (x div 256 mod 256 ^ n) + x mod 256"
    by (rule mod_mult2_eq)
  then show ?case by (simp add: Suc unat_byte_of_nat mult.commute del: unat_of_nat)
qed

lemma nat_of_be_less: "nat_of_be bs < 256 ^ length bs"
proof (induction bs rule: rev_induct)
  case Nil
  then show ?case by simp
next
  case (snoc b bs)
  have "nat_of_be bs + 1 \<le> 256 ^ length bs" using snoc by simp
  then have "(nat_of_be bs + 1) * 256 \<le> 256 ^ length bs * 256" by (rule mult_le_mono1)
  moreover have "nat_of_be bs * 256 + unat b < (nat_of_be bs + 1) * 256" by simp
  ultimately have "nat_of_be bs * 256 + unat b < 256 ^ length bs * 256" by (rule order_less_le_trans [rotated])
  then show ?case by (simp add: mult.commute)
qed

lemma nat_to_be_of_be: "length bs = n \<Longrightarrow> nat_to_be n (nat_of_be bs) = bs"
proof (induction bs arbitrary: n rule: rev_induct)
  case Nil
  then show ?case by simp
next
  case (snoc b bs)
  from snoc.prems obtain m where n: "n = Suc m" "length bs = m" by auto
  have "(nat_of_be bs * 256 + unat b) div 256 = nat_of_be bs"
    and "(nat_of_be bs * 256 + unat b) mod 256 = unat b"
    using unat_byte_less[of b] by auto
  with n snoc.IH[OF n(2)] show ?case by simp
qed

definition be16 :: "u16 \<Rightarrow> bytes" where
  "be16 w = nat_to_be 2 (unat w)"

definition of_be16 :: "bytes \<Rightarrow> u16" where
  "of_be16 bs = word_of_nat (nat_of_be bs)"

definition be64 :: "u64 \<Rightarrow> bytes" where
  "be64 w = nat_to_be 8 (unat w)"

definition of_be64 :: "bytes \<Rightarrow> u64" where
  "of_be64 bs = word_of_nat (nat_of_be bs)"

text \<open>
  The contract of a fixed-width field: what the knock payload, the frame prefixes and the
  packet parser rely on when they lay fields side by side.
\<close>

locale be_field =
  fixes enc :: "'a \<Rightarrow> bytes" and dec :: "bytes \<Rightarrow> 'a" and width :: nat
  assumes enc_width: "length (enc a) = width"
    and dec_enc: "dec (enc a) = a"
    and enc_dec: "length bs = width \<Longrightarrow> enc (dec bs) = bs"
begin

lemma enc_inject: "enc a = enc b \<longleftrightarrow> a = b"
  by (metis dec_enc)

lemma dec_inject: "length xs = width \<Longrightarrow> length ys = width \<Longrightarrow> dec xs = dec ys \<longleftrightarrow> xs = ys"
  by (metis enc_dec)

lemma dec_at: "length pre = off \<Longrightarrow> dec (take width (drop off (pre @ enc a @ post))) = a"
  by (simp add: dec_enc enc_width)

lemma dec_prefix: "dec (take width (enc a @ post)) = a"
  by (simp add: dec_enc enc_width)

lemma split_field:
  "width \<le> length bs \<Longrightarrow> bs = enc (dec (take width bs)) @ drop width bs"
  by (simp add: enc_dec)

lemma prefix_inject: "enc a @ xs = enc b @ ys \<longleftrightarrow> a = b \<and> xs = ys"
  by (metis append_eq_append_conv enc_inject enc_width)

end

lemma of_be16_be16 [simp]: "of_be16 (be16 w) = w"
proof -
  have "unat w < 65536" using unsigned_less[of w, where ?'a = nat] by simp
  then show ?thesis by (simp add: of_be16_def be16_def nat_of_be_to_be)
qed

lemma of_be64_be64 [simp]: "of_be64 (be64 w) = w"
proof -
  have "unat w < 18446744073709551616" using unsigned_less[of w, where ?'a = nat] by simp
  then show ?thesis by (simp add: of_be64_def be64_def nat_of_be_to_be)
qed

lemma unat_of_be16: "length bs = 2 \<Longrightarrow> unat (of_be16 bs) = nat_of_be bs"
  using nat_of_be_less[of bs] by (simp add: of_be16_def unat_of_nat)

lemma unat_of_be64: "length bs = 8 \<Longrightarrow> unat (of_be64 bs) = nat_of_be bs"
  using nat_of_be_less[of bs] by (simp add: of_be64_def unat_of_nat)

interpretation u16_field: be_field be16 of_be16 2
proof unfold_locales
  show "be16 (of_be16 bs) = bs" if "length bs = 2" for bs
    using that by (simp add: be16_def unat_of_be16 nat_to_be_of_be)
qed (simp_all add: be16_def [symmetric], simp add: be16_def)

interpretation u64_field: be_field be64 of_be64 8
proof unfold_locales
  show "be64 (of_be64 bs) = bs" if "length bs = 8" for bs
    using that by (simp add: be64_def unat_of_be64 nat_to_be_of_be)
qed (simp_all add: be64_def [symmetric], simp add: be64_def)

lemmas length_be [simp] = u16_field.enc_width u64_field.enc_width

lemma be16_of_nat: "n < 65536 \<Longrightarrow> nat_of_be (be16 (word_of_nat n)) = n"
  by (simp add: be16_def nat_of_be_to_be unat_of_nat)

section \<open>Unsigned differences\<close>

definition saturating_sub :: "'a::len word \<Rightarrow> 'a word \<Rightarrow> 'a word" where
  "saturating_sub a b = (if b \<le> a then a - b else 0)"

definition abs_diff :: "'a::len word \<Rightarrow> 'a word \<Rightarrow> 'a word" where
  "abs_diff a b = (if a < b then b - a else a - b)"

lemma unat_saturating_sub [time_simps]: "unat (saturating_sub a b) = unat a - unat b"
  by (auto simp: saturating_sub_def unat_sub word_le_nat_alt)

lemma unat_abs_diff [time_simps]:
  "unat (abs_diff a b) = (unat a - unat b) + (unat b - unat a)"
  by (auto simp: abs_diff_def unat_sub word_le_nat_alt word_less_nat_alt)

lemmas [time_simps] = word_le_nat_alt word_less_nat_alt

section \<open>Code that may panic\<close>

datatype 'a rust = Panic | Returns 'a

fun rbind :: "'a rust \<Rightarrow> ('a \<Rightarrow> 'b rust) \<Rightarrow> 'b rust" where
  "rbind Panic f = Panic"
| "rbind (Returns x) f = f x"

text \<open>\<open>xs[i]\<close>, \<open>&xs[a..b]\<close> and \<open>&xs[a..]\<close>.\<close>

definition index :: "'a list \<Rightarrow> nat \<Rightarrow> 'a rust" where
  "index xs i = (if i < length xs then Returns (xs ! i) else Panic)"

definition slice :: "'a list \<Rightarrow> nat \<Rightarrow> nat \<Rightarrow> 'a list rust" where
  "slice xs a b = (if a \<le> b \<and> b \<le> length xs then Returns (take (b - a) (drop a xs)) else Panic)"

definition slice_from :: "'a list \<Rightarrow> nat \<Rightarrow> 'a list rust" where
  "slice_from xs a = (if a \<le> length xs then Returns (drop a xs) else Panic)"

lemma index_Returns [panic_simps]: "i < length xs \<Longrightarrow> index xs i = Returns (xs ! i)"
  by (simp add: index_def)

lemma slice_Returns [panic_simps]:
  "a \<le> b \<Longrightarrow> b \<le> length xs \<Longrightarrow> slice xs a b = Returns (take (b - a) (drop a xs))"
  by (simp add: slice_def)

lemma slice_from_Returns [panic_simps]: "a \<le> length xs \<Longrightarrow> slice_from xs a = Returns (drop a xs)"
  by (simp add: slice_from_def)

lemma rbind_Returns_iff:
  "rbind m f = Returns y \<longleftrightarrow> (\<exists>x. m = Returns x \<and> f x = Returns y)"
  by (cases m) auto

section \<open>Maps from keys to time stamps\<close>

definition retain :: "(u64 \<Rightarrow> bool) \<Rightarrow> ('k \<times> u64) list \<Rightarrow> ('k \<times> u64) list" where
  "retain P m = filter (\<lambda>(k, t). P t) m"

lemma retain_Nil [simp]: "retain P [] = []"
  by (simp add: retain_def)

lemma set_retain: "set (retain P m) = {(k, t). (k, t) \<in> set m \<and> P t}"
  by (auto simp: retain_def)

lemma length_retain_le: "length (retain P m) \<le> length m"
  by (simp add: retain_def)

lemma distinct_retain: "distinct (map fst m) \<Longrightarrow> distinct (map fst (retain P m))"
  unfolding retain_def by (rule distinct_map_filter)

lemma map_of_retain:
  assumes "distinct (map fst m)"
  shows "map_of (retain P m) k = Some t \<longleftrightarrow> map_of m k = Some t \<and> P t"
  using assms distinct_retain[OF assms, of P]
  by (auto simp: set_retain map_of_eq_Some_iff)

lemma map_of_retain_None:
  assumes "distinct (map fst m)"
  shows "map_of (retain P m) k = None \<longleftrightarrow> (\<forall>t. map_of m k = Some t \<longrightarrow> \<not> P t)"
proof (cases "map_of (retain P m) k")
  case None
  then show ?thesis using map_of_retain[OF assms, of P k] by auto
next
  case (Some t)
  then show ?thesis using map_of_retain[OF assms, of P k t] by auto
qed

lemma length_update_fresh: "map_of m k = None \<Longrightarrow> length (AList.update k t m) = Suc (length m)"
  by (induction m) (auto split: if_splits)

lemma length_update_le: "length (AList.update k t m) \<le> Suc (length m)"
  by (induction m) auto

lemma update_fresh_append: "map_of m k = None \<Longrightarrow> AList.update k t m = m @ [(k, t)]"
  by (induction m) (auto split: if_splits)

end
