(* ===== verification/Stream_IO.thy ===== *)
theory Stream_IO
  imports Prelude "HOL-Library.Sublist"
begin

text \<open>
  The error type of the core crate (\<open>error.rs\<close>) and the byte streams its asynchronous
  functions run over. A connection end is a record: the bytes that will arrive and how the
  stream goes on after them (end of file, an I/O error, or nothing ever again), the bytes
  sent so far, and the point at which sending or flushing fails. An asynchronous function is
  a state transformer that completes, fails with an error, or never completes (\<open>Stalled\<close>),
  which is what \<open>tokio::time::timeout\<close> observes.
  The locales state what a message format on such a stream promises; the formats of
  \<open>protocol.rs\<close> and the handshake framing of \<open>noise.rs\<close> interpret them.
\<close>

named_theorems io_simps \<open>evaluation of stream operations\<close>

datatype io_error = UnexpectedEof | WriteZero | InvalidData string | OsError nat

datatype error =
    Io io_error
  | Handshake
  | Unauthorized
  | Protocol string
  | EgressDenied string

datatype input_end = EndEof | EndError io_error | EndOpen

record conn =
  incoming :: bytes
  incoming_end :: input_end
  sent :: bytes
  send_limit :: "(nat \<times> io_error) option"
  flush_fails :: "io_error option"

datatype 'a outcome = Done 'a | Failed error | Stalled

type_synonym 'a io = "conn \<Rightarrow> 'a outcome \<times> conn"

definition io_return :: "'a \<Rightarrow> 'a io" where
  "io_return x c = (Done x, c)"

definition io_fail :: "error \<Rightarrow> 'a io" where
  "io_fail e c = (Failed e, c)"

definition io_bind :: "'a io \<Rightarrow> ('a \<Rightarrow> 'b io) \<Rightarrow> 'b io" where
  "io_bind m f c =
     (case m c of
        (Done x, c') \<Rightarrow> f x c'
      | (Failed e, c') \<Rightarrow> (Failed e, c')
      | (Stalled, c') \<Rightarrow> (Stalled, c'))"

text \<open>\<open>AsyncReadExt::read_exact\<close>, \<open>AsyncWriteExt::write_all\<close>, \<open>AsyncWriteExt::flush\<close>.\<close>

definition read_exact :: "nat \<Rightarrow> bytes io" where
  "read_exact n c =
     (if n \<le> length (incoming c)
      then (Done (take n (incoming c)), c\<lparr>incoming := drop n (incoming c)\<rparr>)
      else ((case incoming_end c of
               EndEof \<Rightarrow> Failed (Io UnexpectedEof)
             | EndError e \<Rightarrow> Failed (Io e)
             | EndOpen \<Rightarrow> Stalled), c\<lparr>incoming := []\<rparr>))"

definition write_all :: "bytes \<Rightarrow> unit io" where
  "write_all bs c =
     (case send_limit c of
        None \<Rightarrow> (Done (), c\<lparr>sent := sent c @ bs\<rparr>)
      | Some (k, e) \<Rightarrow>
          (if length (sent c) + length bs \<le> k
           then (Done (), c\<lparr>sent := sent c @ bs\<rparr>)
           else (Failed (Io e), c\<lparr>sent := sent c @ take (k - length (sent c)) bs\<rparr>)))"

definition flush :: "unit io" where
  "flush c = (case flush_fails c of None \<Rightarrow> (Done (), c) | Some e \<Rightarrow> (Failed (Io e), c))"

definition sends_ok :: "conn \<Rightarrow> bool" where
  "sends_ok c \<longleftrightarrow> send_limit c = None \<and> flush_fails c = None"

lemma io_return_apply [io_simps]: "io_return x c = (Done x, c)"
  by (simp add: io_return_def)

lemma io_fail_apply [io_simps]: "io_fail e c = (Failed e, c)"
  by (simp add: io_fail_def)

lemma io_bind_Done [io_simps]: "m c = (Done x, c') \<Longrightarrow> io_bind m f c = f x c'"
  by (simp add: io_bind_def)

lemma io_bind_Failed [io_simps]: "m c = (Failed e, c') \<Longrightarrow> io_bind m f c = (Failed e, c')"
  by (simp add: io_bind_def)

lemma io_bind_Stalled [io_simps]: "m c = (Stalled, c') \<Longrightarrow> io_bind m f c = (Stalled, c')"
  by (simp add: io_bind_def)

lemma io_bind_Done_iff:
  "io_bind m f c = (Done y, c'') \<longleftrightarrow> (\<exists>x c'. m c = (Done x, c') \<and> f x c' = (Done y, c''))"
  by (auto simp: io_bind_def split: prod.splits outcome.splits)

lemma read_exact_enough [io_simps]:
  "n \<le> length (incoming c) \<Longrightarrow>
     read_exact n c = (Done (take n (incoming c)), c\<lparr>incoming := drop n (incoming c)\<rparr>)"
  by (simp add: read_exact_def)

lemma read_exact_eof [io_simps]:
  "length (incoming c) < n \<Longrightarrow> incoming_end c = EndEof \<Longrightarrow>
     read_exact n c = (Failed (Io UnexpectedEof), c\<lparr>incoming := []\<rparr>)"
  by (simp add: read_exact_def)

lemma read_exact_Done_iff:
  "read_exact n c = (Done bs, c') \<longleftrightarrow>
     n \<le> length (incoming c) \<and> bs = take n (incoming c) \<and> c' = c\<lparr>incoming := drop n (incoming c)\<rparr>"
  by (auto simp: read_exact_def split: input_end.splits)

lemma write_all_ok [io_simps]: "sends_ok c \<Longrightarrow> write_all bs c = (Done (), c\<lparr>sent := sent c @ bs\<rparr>)"
  by (simp add: write_all_def sends_ok_def)

lemma flush_ok [io_simps]: "sends_ok c \<Longrightarrow> flush c = (Done (), c)"
  by (simp add: flush_def sends_ok_def)

lemma sends_ok_update [simp]:
  "sends_ok (c\<lparr>sent := x\<rparr>) = sends_ok c" "sends_ok (c\<lparr>incoming := y\<rparr>) = sends_ok c"
  by (simp_all add: sends_ok_def)

text \<open>What a completed computation can have done to the bytes: it only consumes and appends.\<close>

lemma write_all_sent: "sent (snd (write_all bs c)) = sent c @ take (length (sent (snd (write_all bs c))) - length (sent c)) bs"
  by (auto simp: write_all_def split: option.splits)

lemma write_all_incoming [simp]: "incoming (snd (write_all bs c)) = incoming c"
  by (auto simp: write_all_def split: option.splits)

lemma flush_state [simp]: "snd (flush c) = c"
  by (auto simp: flush_def split: option.splits)

lemma read_exact_sent [simp]: "sent (snd (read_exact n c)) = sent c"
  by (auto simp: read_exact_def)

section \<open>Message formats\<close>

primrec read_many :: "'m io \<Rightarrow> nat \<Rightarrow> 'm list io" where
  "read_many get 0 = io_return []"
| "read_many get (Suc n) =
     io_bind get (\<lambda>m. io_bind (read_many get n) (\<lambda>ms. io_return (m # ms)))"

primrec write_many :: "('m \<Rightarrow> unit io) \<Rightarrow> 'm list \<Rightarrow> unit io" where
  "write_many wr [] = io_return ()"
| "write_many wr (m # ms) = io_bind (wr m) (\<lambda>_. write_many wr ms)"

locale wire_format =
  fixes ok :: "'m \<Rightarrow> bool" and put :: "'m \<Rightarrow> bytes" and get :: "'m io"
  assumes get_put:
      "ok m \<Longrightarrow> incoming c = put m @ rest \<Longrightarrow> get c = (Done m, c\<lparr>incoming := rest\<rparr>)"
    and get_sound:
      "get c = (Done m, c') \<Longrightarrow> ok m \<and> incoming c = put m @ incoming c'"
    and get_short:
      "ok m \<Longrightarrow> strict_prefix (incoming c) (put m) \<Longrightarrow> incoming_end c = EndEof \<Longrightarrow>
         fst (get c) = Failed (Io UnexpectedEof)"
begin

lemma put_inject:
  assumes "ok m" "ok m'" "put m @ xs = put m' @ ys"
  shows "m = m' \<and> xs = ys"
proof -
  define c where "c = \<lparr>incoming = put m @ xs, incoming_end = EndEof, sent = [],
    send_limit = None, flush_fails = None\<rparr>"
  have "get c = (Done m, c\<lparr>incoming := xs\<rparr>)"
    using assms(1) by (rule get_put) (simp add: c_def)
  moreover have "get c = (Done m', c\<lparr>incoming := ys\<rparr>)"
    using assms(2) by (rule get_put) (simp add: c_def assms(3))
  ultimately have "m = m'" and "c\<lparr>incoming := xs\<rparr> = c\<lparr>incoming := ys\<rparr>" by simp_all
  moreover from this(2) have "incoming (c\<lparr>incoming := xs\<rparr>) = incoming (c\<lparr>incoming := ys\<rparr>)"
    by (rule arg_cong)
  ultimately show ?thesis by simp
qed

lemma read_many_put:
  "list_all ok ms \<Longrightarrow> incoming c = concat (map put ms) @ rest \<Longrightarrow>
     read_many get (length ms) c = (Done ms, c\<lparr>incoming := rest\<rparr>)"
proof (induction ms arbitrary: c)
  case Nil
  then show ?case by (simp add: io_simps)
next
  case (Cons m ms)
  let ?c = "c\<lparr>incoming := concat (map put ms) @ rest\<rparr>"
  have "get c = (Done m, ?c)" using Cons.prems by (intro get_put) auto
  moreover have "read_many get (length ms) ?c = (Done ms, ?c\<lparr>incoming := rest\<rparr>)"
    using Cons.prems by (intro Cons.IH) auto
  ultimately show ?case by (simp add: io_bind_def io_return_def)
qed

lemma read_many_sound:
  "read_many get n c = (Done ms, c') \<Longrightarrow>
     length ms = n \<and> list_all ok ms \<and> incoming c = concat (map put ms) @ incoming c'"
proof (induction n arbitrary: c ms)
  case 0
  then show ?case by (simp add: io_simps)
next
  case (Suc n)
  then obtain m c1 ms' where g: "get c = (Done m, c1)"
    and r: "read_many get n c1 = (Done ms', c')" and "ms = m # ms'"
    by (auto simp: io_bind_Done_iff io_return_def)
  with get_sound[OF g] Suc.IH[OF r] show ?case by simp
qed

end

locale wire_channel = wire_format ok put get
  for ok :: "'m \<Rightarrow> bool" and put :: "'m \<Rightarrow> bytes" and get :: "'m io" +
  fixes wr :: "'m \<Rightarrow> unit io"
  assumes wr_ok:
      "ok m \<Longrightarrow> sends_ok c \<Longrightarrow> wr m c = (Done (), c\<lparr>sent := sent c @ put m\<rparr>)"
begin

lemma write_many_ok:
  "list_all ok ms \<Longrightarrow> sends_ok c \<Longrightarrow>
     write_many wr ms c = (Done (), c\<lparr>sent := sent c @ concat (map put ms)\<rparr>)"
proof (induction ms arbitrary: c)
  case Nil
  then show ?case by (simp add: io_simps)
next
  case (Cons m ms)
  then show ?case by (simp add: io_bind_Done[OF wr_ok])
qed

text \<open>Whatever the writer queued, the reader gets back, in order, and leaves the rest.\<close>

lemma channel_roundtrip:
  assumes "list_all ok ms" "sends_ok c" "write_many wr ms c = (r, c')"
    and "incoming d = drop (length (sent c)) (sent c') @ rest"
  shows "r = Done () \<and> read_many get (length ms) d = (Done ms, d\<lparr>incoming := rest\<rparr>)"
proof -
  have "write_many wr ms c = (Done (), c\<lparr>sent := sent c @ concat (map put ms)\<rparr>)"
    using assms(1,2) by (rule write_many_ok)
  with assms(3) have "r = Done ()" and "c' = c\<lparr>sent := sent c @ concat (map put ms)\<rparr>" by simp_all
  with assms(1,4) show ?thesis by (simp add: read_many_put)
qed

end

end
