(* ===== verification/Rust_Strings.thy ===== *)
theory Rust_Strings
  imports Prelude "HOL-Library.Sublist"
begin

text \<open>
  The parts of Rust's string library the program uses. A \<open>str\<close> is its UTF-8 bytes, a
  \<open>string\<close>; \<open>trim\<close> strips every character of Unicode's \<open>White_Space\<close> in its UTF-8
  encoding, which is exact because UTF-8 is self-synchronising. Decimal printing is
  \<open>to_string\<close> of the unsigned types, \<open>parse_uint\<close> their \<open>FromStr\<close> (an optional plus
  sign, digits, no overflow).
\<close>

definition newline :: string where
  "newline = [CHR 0x0A]"

text \<open>The dash of the messages, three bytes of UTF-8.\<close>

definition em_dash :: string where
  "em_dash = [CHR 0xE2, CHR 0x80, CHR 0x94]"

named_theorems dec_simps \<open>printing and reading of decimal numbers\<close>

section \<open>Digits\<close>

definition digit_char :: "nat \<Rightarrow> char" where
  "digit_char d = char_of (if d < 10 then 48 + d else 87 + d)"

definition to_digit :: "nat \<Rightarrow> char \<Rightarrow> nat option" where
  "to_digit radix c =
     (let n = (of_char c :: nat);
          d = (if 48 \<le> n \<and> n \<le> 57 then n - 48
               else if 97 \<le> n \<and> n \<le> 122 then n - 87
               else if 65 \<le> n \<and> n \<le> 90 then n - 55
               else 36)
      in if d < radix then Some d else None)"

definition is_digit :: "nat \<Rightarrow> char \<Rightarrow> bool" where
  "is_digit radix c \<longleftrightarrow> to_digit radix c \<noteq> None"

definition digits_value :: "nat \<Rightarrow> string \<Rightarrow> nat" where
  "digits_value radix ds = foldl (\<lambda>v c. v * radix + the (to_digit radix c)) 0 ds"

fun nat_to_radix :: "nat \<Rightarrow> nat \<Rightarrow> string" where
  "nat_to_radix radix n =
     (if n < radix \<or> radix < 2 then [digit_char n]
      else nat_to_radix radix (n div radix) @ [digit_char (n mod radix)])"

declare nat_to_radix.simps [simp del]

abbreviation nat_to_dec :: "nat \<Rightarrow> string" where
  "nat_to_dec \<equiv> nat_to_radix 10"

abbreviation nat_to_hex :: "nat \<Rightarrow> string" where
  "nat_to_hex \<equiv> nat_to_radix 16"

lemma of_char_digit_char [dec_simps]:
  "d < 16 \<Longrightarrow> of_char (digit_char d) = (if d < 10 then 48 + d else 87 + d)"
  by (simp add: digit_char_def)

lemma to_digit_digit_char [dec_simps]: "d < radix \<Longrightarrow> radix \<le> 16 \<Longrightarrow> to_digit radix (digit_char d) = Some d"
  by (simp add: to_digit_def of_char_digit_char Let_def)

lemma is_digit_digit_char [dec_simps]: "d < radix \<Longrightarrow> radix \<le> 16 \<Longrightarrow> is_digit radix (digit_char d)"
  by (simp add: is_digit_def to_digit_digit_char)

lemma digits_value_snoc [dec_simps]:
  "digits_value radix (ds @ [c]) = digits_value radix ds * radix + the (to_digit radix c)"
  by (simp add: digits_value_def)

lemma digits_value_single [dec_simps]: "digits_value radix [c] = the (to_digit radix c)"
  by (simp add: digits_value_def)

lemma nat_to_radix_nonempty [simp]: "nat_to_radix radix n \<noteq> []"
  by (subst nat_to_radix.simps) simp

lemma nat_to_radix_digits:
  "2 \<le> radix \<Longrightarrow> radix \<le> 16 \<Longrightarrow> \<forall>c \<in> set (nat_to_radix radix n). is_digit radix c"
proof (induction radix n rule: nat_to_radix.induct)
  case (1 radix n)
  then show ?case
    by (subst nat_to_radix.simps) (auto simp: is_digit_digit_char)
qed

lemma digits_value_radix [dec_simps]:
  "2 \<le> radix \<Longrightarrow> radix \<le> 16 \<Longrightarrow> digits_value radix (nat_to_radix radix n) = n"
proof (induction radix n rule: nat_to_radix.induct)
  case (1 radix n)
  show ?case
  proof (cases "n < radix")
    case True
    with 1 show ?thesis
      by (subst nat_to_radix.simps) (simp add: digits_value_single to_digit_digit_char)
  next
    case False
    with 1 show ?thesis
      by (subst nat_to_radix.simps) (simp add: digits_value_snoc to_digit_digit_char)
  qed
qed

text \<open>A printed number has no superfluous leading zero and is short.\<close>

lemma digit_char_0: "digit_char 0 = CHR ''0''"
  by code_simp

lemma decimal_digits:
  "digit_char 0 = CHR ''0''" "digit_char 1 = CHR ''1''" "digit_char 2 = CHR ''2''" "digit_char 3 = CHR ''3''"
  "digit_char 4 = CHR ''4''" "digit_char 5 = CHR ''5''" "digit_char 6 = CHR ''6''" "digit_char 7 = CHR ''7''"
  "digit_char 8 = CHR ''8''" "digit_char 9 = CHR ''9''" "digit_char (Suc 0) = CHR ''1''"
  by code_simp+

lemma nat_to_dec_small: "n < 10 \<Longrightarrow> nat_to_dec n = [digit_char n]"
  by (subst nat_to_radix.simps) simp

lemma nat_to_dec_step: "10 \<le> n \<Longrightarrow> nat_to_dec n = nat_to_dec (n div 10) @ [digit_char (n mod 10)]"
  by (subst nat_to_radix.simps) simp

lemma hd_nat_to_dec: "hd (nat_to_dec n) = CHR ''0'' \<longleftrightarrow> n = 0"
proof (induction n rule: less_induct)
  case (less n)
  have small: "digit_char d = CHR ''0'' \<longleftrightarrow> d = 0" if "d < 10" for d
  proof
    assume "digit_char d = CHR ''0''"
    then have "of_char (digit_char d) = (48 :: nat)" by simp
    with that show "d = 0" by (simp add: of_char_digit_char)
  qed (simp add: digit_char_0)
  show ?case
  proof (cases "n < 10")
    case True
    then show ?thesis by (subst nat_to_radix.simps) (simp add: small)
  next
    case False
    then have "n div 10 < n" "n div 10 \<noteq> 0" by auto
    with less.IH[of "n div 10"] False show ?thesis by (subst nat_to_radix.simps) simp
  qed
qed

lemma length_nat_to_radix:
  "2 \<le> radix \<Longrightarrow> n < radix ^ k \<Longrightarrow> 0 < k \<Longrightarrow> length (nat_to_radix radix n) \<le> k"
proof (induction k arbitrary: n)
  case 0
  then show ?case by simp
next
  case (Suc k)
  show ?case
  proof (cases "n < radix")
    case True
    then show ?thesis by (subst nat_to_radix.simps) simp
  next
    case False
    with Suc.prems have "0 < k" by (cases k) auto
    moreover have "n div radix < radix ^ k"
      using Suc.prems by (simp add: less_mult_imp_div_less mult.commute)
    ultimately have "length (nat_to_radix radix (n div radix)) \<le> k"
      using Suc.IH Suc.prems(1) by blast
    with False Suc.prems show ?thesis by (subst nat_to_radix.simps) simp
  qed
qed

lemma length_nat_to_dec_byte: "length (nat_to_dec (unat (b :: byte))) \<le> 3"
proof (rule length_nat_to_radix)
  show "unat b < 10 ^ 3" by (rule order_less_le_trans[OF unat_byte_less]) simp
qed simp_all

section \<open>Reading numbers\<close>

definition parse_uint :: "nat \<Rightarrow> string \<Rightarrow> nat option" where
  "parse_uint bound s =
     (let ds = (case s of [] \<Rightarrow> [] | c # cs \<Rightarrow> if c = CHR ''+'' then cs else s)
      in if ds \<noteq> [] \<and> list_all (is_digit 10) ds \<and> digits_value 10 ds < bound
         then Some (digits_value 10 ds) else None)"

definition parse_u16 :: "string \<Rightarrow> u16 option" where
  "parse_u16 s = map_option word_of_nat (parse_uint (2 ^ 16) s)"

definition parse_u32 :: "string \<Rightarrow> u32 option" where
  "parse_u32 s = map_option word_of_nat (parse_uint (2 ^ 32) s)"

lemma not_digit_plus [simp]: "\<not> is_digit 10 CHR ''+''"
  by (simp add: is_digit_def to_digit_def)

lemma parse_uint_dec: "n < bound \<Longrightarrow> parse_uint bound (nat_to_dec n) = Some n"
proof -
  assume n: "n < bound"
  obtain c cs where s: "nat_to_dec n = c # cs"
    using nat_to_radix_nonempty[of 10 n] by (cases "nat_to_dec n") auto
  have ds: "\<forall>c \<in> set (nat_to_dec n). is_digit 10 c" by (rule nat_to_radix_digits) simp_all
  then have "c \<noteq> CHR ''+''" using s by auto
  with n s ds digits_value_radix[of 10 n] show ?thesis
    by (auto simp: parse_uint_def Let_def list_all_iff)
qed

lemma parse_u32_dec: "parse_u32 (nat_to_dec (unat w)) = Some w"
  using parse_uint_dec[of "unat w" "2 ^ 32"] unsigned_less[of w, where ?'a = nat]
  by (simp add: parse_u32_def)

lemma parse_u16_dec: "parse_u16 (nat_to_dec (unat w)) = Some w"
  using parse_uint_dec[of "unat w" "2 ^ 16"] unsigned_less[of w, where ?'a = nat]
  by (simp add: parse_u16_def)

section \<open>Splitting, trimming, prefixes\<close>

fun split_on :: "char \<Rightarrow> string \<Rightarrow> string list" where
  "split_on sep [] = [[]]"
| "split_on sep (c # cs) =
     (if c = sep then [] # split_on sep cs
      else (case split_on sep cs of [] \<Rightarrow> [[c]] | p # ps \<Rightarrow> (c # p) # ps))"

lemma split_on_nonempty [simp]: "split_on sep s \<noteq> []"
  by (induction s) (auto split: list.splits)

lemma split_on_append_sep:
  "sep \<notin> set p \<Longrightarrow> split_on sep (p @ sep # s) = p # split_on sep s"
  by (induction p) auto

lemma split_on_no_sep: "sep \<notin> set p \<Longrightarrow> split_on sep p = [p]"
  by (induction p) auto

fun join_with :: "string \<Rightarrow> string list \<Rightarrow> string" where
  "join_with sep [] = []"
| "join_with sep [p] = p"
| "join_with sep (p # q # ps) = p @ sep @ join_with sep (q # ps)"

lemma join_split: "join_with [sep] (split_on sep s) = s"
proof (induction s)
  case Nil
  then show ?case by simp
next
  case (Cons c cs)
  then show ?case by (cases "split_on sep cs"; cases "tl (split_on sep cs)") auto
qed

definition strip_prefix :: "string \<Rightarrow> string \<Rightarrow> string option" where
  "strip_prefix p s = (if take (length p) s = p then Some (drop (length p) s) else None)"

lemma strip_prefix_Some: "strip_prefix p s = Some r \<longleftrightarrow> s = p @ r"
  by (auto simp: strip_prefix_def) (metis append_take_drop_id)

text \<open>The UTF-8 encodings of the characters with the property \<open>White_Space\<close>.\<close>

definition white_space :: "string list" where
  "white_space = map (map char_of)
     ([[9], [10], [11], [12], [13], [32], [0xC2, 0x85], [0xC2, 0xA0], [0xE1, 0x9A, 0x80],
       [0xE2, 0x80, 0xA8], [0xE2, 0x80, 0xA9], [0xE2, 0x80, 0xAF], [0xE2, 0x81, 0x9F],
       [0xE3, 0x80, 0x80]] @ map (\<lambda>k. [0xE2, 0x80, 0x80 + k]) [0..<11 :: nat])"

definition starting_space :: "string list \<Rightarrow> string \<Rightarrow> string option" where
  "starting_space ws s = find (\<lambda>w. take (length w) s = w) ws"

lemma starting_space_nonempty:
  "starting_space ws s = Some w \<Longrightarrow> [] \<notin> set ws \<Longrightarrow> w \<noteq> [] \<and> length w \<le> length s"
  by (auto simp: starting_space_def find_Some_iff)
     (metis length_take min.cobounded2 min_def nat_le_linear nth_mem)+

function trim_left :: "string list \<Rightarrow> string \<Rightarrow> string" where
  "trim_left ws s =
     (case starting_space ws s of
        None \<Rightarrow> s
      | Some w \<Rightarrow> if w = [] \<or> s = [] then s else trim_left ws (drop (length w) s))"
  by pat_completeness auto
termination
  by (relation "measure (\<lambda>(ws, s). length s)") auto

declare trim_left.simps [simp del]

definition trim_start :: "string \<Rightarrow> string" where
  "trim_start s = trim_left white_space s"

definition trim_end :: "string \<Rightarrow> string" where
  "trim_end s = rev (trim_left (map rev white_space) (rev s))"

definition trim :: "string \<Rightarrow> string" where
  "trim s = trim_end (trim_start s)"

lemma trim_left_id: "starting_space ws s = None \<Longrightarrow> trim_left ws s = s"
  by (subst trim_left.simps) simp

lemma white_space_not_digit:
  "w \<in> set white_space \<Longrightarrow> w \<noteq> [] \<and> \<not> is_digit 10 (hd w) \<and> \<not> is_digit 10 (hd (rev w))"
  by (auto simp: white_space_def is_digit_def to_digit_def)

lemma starting_space_None:
  assumes "list_all P s" and "\<And>w. w \<in> set ws \<Longrightarrow> w \<noteq> [] \<and> \<not> P (hd w)"
  shows "starting_space ws s = None"
proof -
  have "take (length w) s \<noteq> w" if "w \<in> set ws" for w
    using assms(1) assms(2)[OF that] by (cases w; cases s) auto
  then show ?thesis by (auto simp: starting_space_def find_None_iff)
qed

text \<open>Text without a space at either end, here of a class of characters, is its own trim.\<close>

lemma trim_id:
  assumes "list_all P s"
    and "\<And>w. w \<in> set white_space \<Longrightarrow> w \<noteq> [] \<and> \<not> P (hd w) \<and> \<not> P (hd (rev w))"
  shows "trim s = s"
proof -
  have "trim_left white_space s = s"
    by (intro trim_left_id starting_space_None[OF assms(1)]) (use assms(2) in blast)
  moreover have "list_all P (rev s)" using assms(1) by (simp add: list_all_iff)
  then have "trim_left (map rev white_space) (rev s) = rev s"
    by (intro trim_left_id starting_space_None[of P]) (use assms(2) in auto)
  ultimately show ?thesis by (simp add: trim_def trim_start_def trim_end_def)
qed

lemma trim_dec: "trim (nat_to_dec n) = nat_to_dec n"
  by (rule trim_id[of "is_digit 10"]) (use nat_to_radix_digits[of 10 n] white_space_not_digit in \<open>auto simp: list_all_iff\<close>)

lemma starting_space_hd:
  assumes "s \<noteq> []" "P (hd s)" and "\<And>w. w \<in> set ws \<Longrightarrow> w \<noteq> [] \<and> \<not> P (hd w)"
  shows "starting_space ws s = None"
proof -
  have "take (length w) s \<noteq> w" if "w \<in> set ws" for w
    using assms(1,2) assms(3)[OF that] by (cases w; cases s) auto
  then show ?thesis by (auto simp: starting_space_def find_None_iff)
qed

lemma white_space_chars:
  "white_space =
     [[CHR 0x09], [CHR 0x0A], [CHR 0x0B], [CHR 0x0C], [CHR 0x0D], [CHR 0x20], [CHR 0xC2, CHR 0x85],
      [CHR 0xC2, CHR 0xA0], [CHR 0xE1, CHR 0x9A, CHR 0x80], [CHR 0xE2, CHR 0x80, CHR 0xA8],
      [CHR 0xE2, CHR 0x80, CHR 0xA9], [CHR 0xE2, CHR 0x80, CHR 0xAF], [CHR 0xE2, CHR 0x81, CHR 0x9F],
      [CHR 0xE3, CHR 0x80, CHR 0x80], [CHR 0xE2, CHR 0x80, CHR 0x80], [CHR 0xE2, CHR 0x80, CHR 0x81],
      [CHR 0xE2, CHR 0x80, CHR 0x82], [CHR 0xE2, CHR 0x80, CHR 0x83], [CHR 0xE2, CHR 0x80, CHR 0x84],
      [CHR 0xE2, CHR 0x80, CHR 0x85], [CHR 0xE2, CHR 0x80, CHR 0x86], [CHR 0xE2, CHR 0x80, CHR 0x87],
      [CHR 0xE2, CHR 0x80, CHR 0x88], [CHR 0xE2, CHR 0x80, CHR 0x89], [CHR 0xE2, CHR 0x80, CHR 0x8A]]"
  by code_simp

lemma starting_newline: "starting_space (map rev white_space) (CHR 0x0A # s) = Some newline"
  by (simp add: starting_space_def white_space_chars newline_def)

lemma trim_left_Nil [simp]: "trim_left ws [] = []"
  by (subst trim_left.simps) (simp split: option.splits)

lemma trim_blank [simp]: "trim [] = []" "trim newline = []"
proof -
  show "trim [] = []" by (simp add: trim_def trim_start_def trim_end_def)
  have "starting_space white_space newline = Some newline"
    by (simp add: starting_space_def white_space_chars newline_def)
  then have "trim_left white_space newline = []"
    by (subst trim_left.simps) simp
  then show "trim newline = []" by (simp add: trim_def trim_start_def trim_end_def)
qed

lemma trim_newline:
  assumes "list_all P s" "s \<noteq> []"
    and "\<And>w. w \<in> set white_space \<Longrightarrow> w \<noteq> [] \<and> \<not> P (hd w) \<and> \<not> P (hd (rev w))"
  shows "trim (s @ newline) = s"
proof -
  have "starting_space white_space (s @ newline) = None"
    by (rule starting_space_hd[of _ P]) (use assms in \<open>cases s; auto\<close>)+
  then have start: "trim_start (s @ newline) = s @ newline" by (simp add: trim_start_def trim_left_id)
  have "starting_space (map rev white_space) (rev s) = None"
    by (rule starting_space_hd[of _ P]) (use assms in \<open>auto simp: list_all_iff hd_rev\<close>)
  then have "trim_left (map rev white_space) (rev s) = rev s" by (rule trim_left_id)
  moreover have "rev (s @ newline) = CHR 0x0A # rev s" by (simp add: newline_def)
  ultimately have "trim_left (map rev white_space) (rev (s @ newline)) = rev s"
    by (subst trim_left.simps) (simp add: starting_newline newline_def)
  then show ?thesis by (simp add: trim_def start trim_end_def)
qed

end
