(* ===== verification/Key_Material.thy ===== *)
theory Key_Material
  imports Stream_IO Rust_Strings
begin

text \<open>
  Keys and the shared secret (\<open>psk.rs\<close>, \<open>keys.rs\<close>). The cryptographic crates and the
  base64 engine are not part of the repository: they are the fields of the record
  \<open>crypto\<close>, a parameter of every definition that uses them. What the code relies on is
  stated by the predicates \<open>aead_lawful\<close>, \<open>aead_authentic\<close>, \<open>b64_lawful\<close> and
  \<open>argon2_lawful\<close>, each the documented behaviour of the crate; \<open>toy_crypto\<close> is a
  concrete record that satisfies them all, on which the witnesses compute.
\<close>

record crypto =
  hkdf :: "bytes \<Rightarrow> bytes \<Rightarrow> bytes \<times> bytes"
  aead_seal :: "bytes \<Rightarrow> bytes \<Rightarrow> bytes \<Rightarrow> bytes \<Rightarrow> bytes"
  aead_open :: "bytes \<Rightarrow> bytes \<Rightarrow> bytes \<Rightarrow> bytes \<Rightarrow> bytes option"
  x25519_pubkey :: "bytes \<Rightarrow> bytes"
  argon2 :: "bytes \<Rightarrow> bytes \<Rightarrow> nat \<Rightarrow> bytes option"
  b64_encode :: "bytes \<Rightarrow> string"
  b64_decode :: "string \<Rightarrow> bytes option"

text \<open>An AEAD opens what it sealed and adds a 16-byte tag.\<close>

definition aead_lawful :: "crypto \<Rightarrow> bool" where
  "aead_lawful C \<longleftrightarrow>
     (\<forall>k n a m. aead_open C k n a (aead_seal C k n a m) = Some m) \<and>
     (\<forall>k n a m. length (aead_seal C k n a m) = length m + 16) \<and>
     (\<forall>k n a c m. aead_open C k n a c = Some m \<longrightarrow> length c = length m + 16)"

text \<open>Opening recomputes the tag of a deterministic sealing, so it accepts sealed texts only.\<close>

definition aead_authentic :: "crypto \<Rightarrow> bool" where
  "aead_authentic C \<longleftrightarrow>
     (\<forall>k n a c m. aead_open C k n a c = Some m \<longrightarrow> c = aead_seal C k n a m)"

definition b64_char :: "char \<Rightarrow> bool" where
  "b64_char c \<longleftrightarrow>
     (let n = (of_char c :: nat) in
        65 \<le> n \<and> n \<le> 90 \<or> 97 \<le> n \<and> n \<le> 122 \<or> 48 \<le> n \<and> n \<le> 57 \<or>
        n = 43 \<or> n = 47 \<or> n = 61)"

definition b64_lawful :: "crypto \<Rightarrow> bool" where
  "b64_lawful C \<longleftrightarrow>
     (\<forall>b. b64_decode C (b64_encode C b) = Some b \<and> list_all b64_char (b64_encode C b))"

definition argon2_lawful :: "crypto \<Rightarrow> bool" where
  "argon2_lawful C \<longleftrightarrow> (\<forall>p s n k. argon2 C p s n = Some k \<longrightarrow> length k = n)"

lemma aead_open_seal: "aead_lawful C \<Longrightarrow> aead_open C k n a (aead_seal C k n a m) = Some m"
  and aead_seal_length: "aead_lawful C \<Longrightarrow> length (aead_seal C k n a m) = length m + 16"
  and aead_open_length: "aead_lawful C \<Longrightarrow> aead_open C k n a c = Some m \<Longrightarrow> length c = length m + 16"
  by (auto simp: aead_lawful_def)

section \<open>The shared key\<close>

definition PSK_LEN :: nat where
  "PSK_LEN = 32"

definition MIN_SALT_LEN :: nat where
  "MIN_SALT_LEN = 8"

datatype psk = Psk (psk_bytes: bytes)

definition psk_from_base64 :: "crypto \<Rightarrow> string \<Rightarrow> error + psk" where
  "psk_from_base64 C s =
     (case b64_decode C (trim s) of
        None \<Rightarrow> Inl (Protocol ''invalid base64 psk'')
      | Some raw \<Rightarrow>
          if length raw \<noteq> PSK_LEN then Inl (Protocol ''psk must be 32 bytes'')
          else Inr (Psk raw))"

definition psk_from_passphrase :: "crypto \<Rightarrow> bytes \<Rightarrow> bytes \<Rightarrow> error + psk" where
  "psk_from_passphrase C passphrase salt =
     (if length salt < MIN_SALT_LEN then Inl (Protocol ''salt must be at least 8 bytes'')
      else (case argon2 C passphrase salt PSK_LEN of
              None \<Rightarrow> Inl (Protocol ''argon2 derivation failed'')
            | Some out \<Rightarrow> Inr (Psk out)))"

section \<open>Identity keys\<close>

definition KEY_LEN :: nat where
  "KEY_LEN = 32"

datatype secret_key = SecretKey (secret_bytes: bytes)

datatype public_key = PublicKey (public_bytes: bytes)

definition decode_key :: "crypto \<Rightarrow> string \<Rightarrow> error + bytes" where
  "decode_key C s =
     (case b64_decode C (trim s) of
        None \<Rightarrow> Inl (Protocol ''invalid base64 key'')
      | Some raw \<Rightarrow>
          if length raw \<noteq> KEY_LEN then Inl (Protocol ''key must be 32 bytes'')
          else Inr raw)"

definition secret_to_base64 :: "crypto \<Rightarrow> secret_key \<Rightarrow> string" where
  "secret_to_base64 C k = b64_encode C (secret_bytes k)"

definition secret_from_base64 :: "crypto \<Rightarrow> string \<Rightarrow> error + secret_key" where
  "secret_from_base64 C s = map_sum id SecretKey (decode_key C s)"

definition secret_public_key :: "crypto \<Rightarrow> secret_key \<Rightarrow> public_key" where
  "secret_public_key C k = PublicKey (x25519_pubkey C (secret_bytes k))"

definition public_to_base64 :: "crypto \<Rightarrow> public_key \<Rightarrow> string" where
  "public_to_base64 C k = b64_encode C (public_bytes k)"

definition public_from_base64 :: "crypto \<Rightarrow> string \<Rightarrow> error + public_key" where
  "public_from_base64 C s = map_sum id PublicKey (decode_key C s)"

record keypair =
  kp_secret :: secret_key
  kp_public :: public_key

text \<open>\<open>Keypair::generate\<close> on the 32 random bytes that \<open>X25519::genkey\<close> draws.\<close>

definition keypair_generate :: "crypto \<Rightarrow> bytes \<Rightarrow> keypair" where
  "keypair_generate C random =
     \<lparr>kp_secret = SecretKey random, kp_public = PublicKey (x25519_pubkey C random)\<rparr>"

section \<open>Dropping\<close>

text \<open>
  \<open>Drop\<close> overwrites the bytes of a secret in place. The \<open>zeroize\<close> crate is the argument
  \<open>wipe\<close>; \<open>wipe_lawful\<close> is what it documents, zeros over the whole slice.
\<close>

definition wipe_lawful :: "(bytes \<Rightarrow> bytes) \<Rightarrow> bool" where
  "wipe_lawful wipe \<longleftrightarrow> (\<forall>bs. wipe bs = replicate (length bs) 0)"

definition psk_drop :: "(bytes \<Rightarrow> bytes) \<Rightarrow> psk \<Rightarrow> psk" where
  "psk_drop wipe k = Psk (wipe (psk_bytes k))"

definition secret_drop :: "(bytes \<Rightarrow> bytes) \<Rightarrow> secret_key \<Rightarrow> secret_key" where
  "secret_drop wipe k = SecretKey (wipe (secret_bytes k))"

section \<open>Encoded keys are read back\<close>

lemma white_space_no_b64:
  "w \<in> set white_space \<Longrightarrow> w \<noteq> [] \<and> \<not> b64_char (hd w) \<and> \<not> b64_char (hd (rev w))"
  by (auto simp: white_space_def b64_char_def)

lemma trim_b64: "list_all b64_char s \<Longrightarrow> trim s = s"
  by (rule trim_id) (use white_space_no_b64 in auto)

lemma decode_key_encoded:
  "b64_lawful C \<Longrightarrow>
     decode_key C (b64_encode C k) =
       (if length k = KEY_LEN then Inr k else Inl (Protocol ''key must be 32 bytes''))"
  by (simp add: decode_key_def b64_lawful_def trim_b64)

lemma trim_b64_newline: "list_all b64_char s \<Longrightarrow> s \<noteq> [] \<Longrightarrow> trim (s @ newline) = s"
  by (rule trim_newline[of b64_char]) (use white_space_no_b64 in auto)

lemma secret_reads_back:
  assumes "b64_lawful C" "length k = KEY_LEN"
  shows "secret_from_base64 C (trim (secret_to_base64 C (SecretKey k) @ newline)) = Inr (SecretKey k)"
proof -
  have enc: "list_all b64_char (b64_encode C k)" "b64_decode C (b64_encode C k) = Some k"
    using assms(1) by (auto simp: b64_lawful_def)
  show ?thesis
  proof (cases "b64_encode C k")
    case Nil
    then have "b64_decode C [] = Some k" using enc(2) by simp
    then have "decode_key C [] = Inr k" using assms(2) by (simp add: decode_key_def)
    moreover have "trim (secret_to_base64 C (SecretKey k) @ newline) = []"
      using Nil by (simp add: secret_to_base64_def)
    ultimately show ?thesis by (simp add: secret_from_base64_def)
  next
    case (Cons c cs)
    then have "trim (b64_encode C k @ newline) = b64_encode C k" using trim_b64_newline[OF enc(1)] by simp
    then show ?thesis
      using enc(2) assms decode_key_encoded[OF assms(1), of k]
      by (simp add: secret_from_base64_def secret_to_base64_def)
  qed
qed

lemma public_reads_back:
  "b64_lawful C \<Longrightarrow> length k = KEY_LEN \<Longrightarrow> public_from_base64 C (public_to_base64 C (PublicKey k)) = Inr (PublicKey k)"
  by (simp add: public_from_base64_def public_to_base64_def decode_key_encoded)

lemma decode_key_length: "decode_key C s = Inr k \<Longrightarrow> length k = 32"
  by (auto simp: decode_key_def KEY_LEN_def split: option.splits if_splits)

lemma psk_from_base64_length: "psk_from_base64 C s = Inr p \<Longrightarrow> length (psk_bytes p) = 32"
  by (auto simp: psk_from_base64_def PSK_LEN_def split: option.splits if_splits)

lemma psk_from_passphrase_length:
  "argon2_lawful C \<Longrightarrow> psk_from_passphrase C pw salt = Inr p \<Longrightarrow> length (psk_bytes p) = 32"
  by (auto simp: psk_from_passphrase_def argon2_lawful_def PSK_LEN_def split: option.splits if_splits)

text \<open>What a dropped key leaves behind does not depend on which key it was.\<close>

lemma psk_drop_forgets:
  assumes "wipe_lawful wipe" "psk_from_base64 C s = Inr p" "psk_from_base64 C s' = Inr p'"
  shows "psk_drop wipe p = psk_drop wipe p'"
  using assms by (simp add: psk_drop_def wipe_lawful_def psk_from_base64_length)

lemma secret_drop_forgets:
  assumes "wipe_lawful wipe" "secret_from_base64 C s = Inr k" "secret_from_base64 C s' = Inr k'"
  shows "secret_drop wipe k = secret_drop wipe k'"
proof -
  have "length (secret_bytes k) = 32" "length (secret_bytes k') = 32"
    using assms(2,3) by (auto simp: secret_from_base64_def map_sum_def split: sum.splits dest: decode_key_length)
  with assms(1) show ?thesis by (simp add: secret_drop_def wipe_lawful_def)
qed

section \<open>A concrete record\<close>

definition tag16 :: "bytes \<Rightarrow> bytes" where
  "tag16 xs = take 16 (xs @ replicate 16 0)"

definition hex_pair :: "byte \<Rightarrow> string" where
  "hex_pair b = [digit_char (unat b div 16), digit_char (unat b mod 16)]"

fun unhex :: "string \<Rightarrow> bytes option" where
  "unhex [] = Some []"
| "unhex [c] = None"
| "unhex (c # d # s) =
     (case (to_digit 16 c, to_digit 16 d, unhex s) of
        (Some h, Some l, Some bs) \<Rightarrow> Some (word_of_nat (16 * h + l) # bs)
      | _ \<Rightarrow> None)"

definition toy_crypto :: crypto where
  "toy_crypto =
     \<lparr>hkdf = (\<lambda>label key. (key, label)),
      aead_seal = (\<lambda>k n a m. m @ tag16 (drop 4 a @ k)),
      aead_open = (\<lambda>k n a c.
        if 16 \<le> length c \<and> drop (length c - 16) c = tag16 (drop 4 a @ k)
        then Some (take (length c - 16) c) else None),
      x25519_pubkey = (\<lambda>k. map (\<lambda>b. b + 1) k),
      argon2 = (\<lambda>p s n. Some (take n (p @ s) @ replicate (n - length (p @ s)) 0)),
      b64_encode = (\<lambda>b. concat (map hex_pair b)),
      b64_decode = unhex\<rparr>"

lemma length_tag16 [simp]: "length (tag16 xs) = 16"
  by (simp add: tag16_def)

lemma zeros_wipe_lawful: "wipe_lawful (map (\<lambda>b. 0))"
  by (simp add: wipe_lawful_def map_replicate_const)

lemma toy_aead_lawful: "aead_lawful toy_crypto"
  by (auto simp: aead_lawful_def toy_crypto_def split: if_splits)

lemma toy_aead_authentic: "aead_authentic toy_crypto"
  by (auto simp: aead_authentic_def toy_crypto_def split: if_splits) (metis append_take_drop_id)

lemma unhex_hex_pairs: "unhex (concat (map hex_pair b)) = Some b"
proof (induction b)
  case (Cons x xs)
  have "unat x div 16 < 16" "unat x mod 16 < 16"
    using unat_byte_less[of x] by linarith+
  then show ?case using Cons by (simp add: hex_pair_def to_digit_digit_char)
qed simp

lemma digit_char_b64: "d < 16 \<Longrightarrow> b64_char (digit_char d)"
  by (auto simp: b64_char_def of_char_digit_char Let_def)

lemma toy_b64_lawful: "b64_lawful toy_crypto"
proof -
  have "unat x div 16 < 16" for x :: byte
    by (rule less_mult_imp_div_less) (use unat_byte_less[of x] in \<open>simp del: unat_byte_less\<close>)
  then show ?thesis
    by (auto simp: b64_lawful_def toy_crypto_def unhex_hex_pairs hex_pair_def digit_char_b64 list_all_iff)
qed

lemma toy_argon2_lawful: "argon2_lawful toy_crypto"
  by (auto simp: argon2_lawful_def toy_crypto_def)

end
