(* ===== verification/Cli_Common.thy ===== *)
theory Cli_Common
  imports Key_Material
begin

text \<open>
  The helpers both command-line programs share, \<open>hyperion-vpn-cli-common/src/lib.rs\<close>, in
  their Linux variants: paths, secrets on disk, passphrases, the pid file and the daemon's
  life cycle. The machine they act on is a record: environment variables, files with their
  modes, processes with their names, what the user types, the lines printed and a log of what
  was done to processes. An \<open>anyhow\<close> error is its outermost message (\<open>io\<close> for a bare I/O error).
\<close>

type_synonym 'a any = "string + 'a"

definition with_context :: "string \<Rightarrow> 'e + 'a \<Rightarrow> 'a any" where
  "with_context msg r = (case r of Inl e \<Rightarrow> Inl msg | Inr x \<Rightarrow> Inr x)"

definition option_context :: "string \<Rightarrow> 'a option \<Rightarrow> 'a any" where
  "option_context msg r = (case r of None \<Rightarrow> Inl msg | Some x \<Rightarrow> Inr x)"

fun any_bind :: "'a any \<Rightarrow> ('a \<Rightarrow> 'b any) \<Rightarrow> 'b any" where
  "any_bind (Inl e) f = Inl e"
| "any_bind (Inr x) f = f x"

lemma any_bind_Inr_iff: "any_bind m f = Inr y \<longleftrightarrow> (\<exists>x. m = Inr x \<and> f x = Inr y)"
  by (cases m) auto

lemma with_context_Inr_iff [simp]: "with_context msg r = Inr x \<longleftrightarrow> r = Inr x"
  by (cases r) (auto simp: with_context_def)

lemma option_context_Inr_iff [simp]: "option_context msg r = Inr x \<longleftrightarrow> r = Some x"
  by (cases r) (auto simp: option_context_def)

section \<open>The machine\<close>

text \<open>
  A process maps to the contents of its \<open>comm\<close> file, \<open>None\<close> when it cannot be read. Modes are
  written as three octal digits. \<open>openable\<close>, \<open>storable\<close> and \<open>chmodable\<close> say which paths can be
  opened for writing, written to, and given a mode; \<open>killer\<close> is the exit of the \<open>kill\<close>
  command, \<open>None\<close> when it cannot be run. Of directories there is only \<open>creatable\<close>, whether one is
  there or can be created; one that cannot makes the files in it unopenable.
\<close>

type_synonym mode = "nat \<times> nat \<times> nat"

datatype proc_action =
    Signalled u32
  | Started "string list" "(string \<times> string) option" u32

record host =
  env_vars :: "string \<rightharpoonup> string"
  files :: "string \<rightharpoonup> string"
  modes :: "string \<rightharpoonup> mode"
  default_mode :: mode
  openable :: "string \<Rightarrow> bool"
  storable :: "string \<Rightarrow> bool"
  chmodable :: "string \<Rightarrow> bool"
  creatable :: "string \<Rightarrow> bool"
  exe_path :: "string option"
  procs :: "u32 \<rightharpoonup> string option"
  killer :: "u32 \<Rightarrow> bool option"
  prompt_reply :: "string option"
  actions :: "proc_action list"
  stdout :: "string list"

definition println :: "host \<Rightarrow> string \<Rightarrow> host" where
  "println h line = h\<lparr>stdout := stdout h @ [line]\<rparr>"

definition read_to_string :: "host \<Rightarrow> string \<Rightarrow> string option" where
  "read_to_string h path = files h path"

text \<open>
  Opening with \<open>create\<close> and \<open>truncate\<close>, and \<open>fs::write\<close>: a write that fails leaves the
  truncated file.
\<close>

definition open_truncate :: "host \<Rightarrow> string \<Rightarrow> mode \<Rightarrow> host option" where
  "open_truncate h path create_mode =
     (if openable h path
      then Some (h\<lparr>files := (files h)(path \<mapsto> ''''),
                   modes := (modes h)(path \<mapsto>
                     (if files h path = None then create_mode
                      else case modes h path of Some m \<Rightarrow> m | None \<Rightarrow> default_mode h))\<rparr>)
      else None)"

definition write_all :: "host \<Rightarrow> string \<Rightarrow> string \<Rightarrow> host option" where
  "write_all h path contents =
     (if storable h path
      then Some (h\<lparr>files := (files h)(path \<mapsto> the (files h path) @ contents)\<rparr>)
      else None)"

definition write_str :: "host \<Rightarrow> string \<Rightarrow> string \<Rightarrow> unit option \<times> host" where
  "write_str h path contents =
     (case open_truncate h path (default_mode h) of
        None \<Rightarrow> (None, h)
      | Some h1 \<Rightarrow>
          (case write_all h1 path contents of
             None \<Rightarrow> (None, h1)
           | Some h2 \<Rightarrow> (Some (), h2)))"

definition remove_file :: "host \<Rightarrow> string \<Rightarrow> host" where
  "remove_file h path = h\<lparr>files := (files h)(path := None)\<rparr>"

text \<open>\<open>PathBuf::join\<close> on Unix.\<close>

definition path_join :: "string \<Rightarrow> string \<Rightarrow> string" where
  "path_join p q =
     (if q \<noteq> [] \<and> hd q = CHR ''/'' then q
      else if p = [] \<or> last p = CHR ''/'' then p @ q
      else p @ ''/'' @ q)"

section \<open>Paths and ports\<close>

definition config_dir :: "host \<Rightarrow> string" where
  "config_dir h =
     (case env_vars h ''HYPERION_HOME'' of
        Some dir \<Rightarrow> dir
      | None \<Rightarrow>
          (case env_vars h ''XDG_CONFIG_HOME'' of
             Some xdg \<Rightarrow> path_join xdg ''hyperion''
           | None \<Rightarrow>
               (case env_vars h ''HOME'' of
                  Some home \<Rightarrow> path_join (path_join home ''.config'') ''hyperion''
                | None \<Rightarrow> ''hyperion'')))"

text \<open>Creating the directory and its parents succeeds or not; \<open>up\<close> ignores the result.\<close>

definition ensure_config_dir :: "host \<Rightarrow> string option" where
  "ensure_config_dir h = (let dir = config_dir h in if creatable h dir then Some dir else None)"

definition home_dir :: "host \<Rightarrow> string option" where
  "home_dir h = env_vars h ''HOME''"

definition expand_home :: "host \<Rightarrow> string \<Rightarrow> string" where
  "expand_home h path =
     (case (case strip_prefix ''~/'' path of
              Some rest \<Rightarrow> Some rest
            | None \<Rightarrow> strip_prefix [CHR ''~'', CHR 0x5C] path) of
        Some rest \<Rightarrow> (case home_dir h of Some home \<Rightarrow> path_join home rest | None \<Rightarrow> path)
      | None \<Rightarrow> path)"

definition port_of :: "string \<Rightarrow> string" where
  "port_of listen =
     (let p = last (split_on (CHR '':'') listen) in
      if parse_u16 p \<noteq> None then p else ''8443'')"

section \<open>Secrets\<close>

text \<open>
  \<open>write_secret\<close> with the states the file system goes through, oldest first: opened, contents
  written, newline written, mode set. The mode of the open only counts for a file that did not
  exist.
\<close>

definition write_secret_states :: "host \<Rightarrow> string \<Rightarrow> string \<Rightarrow> unit any \<times> host list" where
  "write_secret_states h path contents =
     (case open_truncate h path (6, 0, 0) of
        None \<Rightarrow> (Inl (''writing '' @ path), [h])
      | Some h1 \<Rightarrow>
     (case write_all h1 path contents of
        None \<Rightarrow> (Inl ''io'', [h, h1])
      | Some h2 \<Rightarrow>
     (case write_all h2 path newline of
        None \<Rightarrow> (Inl ''io'', [h, h1, h2])
      | Some h3 \<Rightarrow>
          if chmodable h3 path
          then (Inr (), [h, h1, h2, h3, h3\<lparr>modes := (modes h3)(path \<mapsto> (6, 0, 0))\<rparr>])
          else (Inl ''io'', [h, h1, h2, h3]))))"

definition write_secret :: "host \<Rightarrow> string \<Rightarrow> string \<Rightarrow> unit any \<times> host" where
  "write_secret h path contents = (case write_secret_states h path contents of (r, hs) \<Rightarrow> (r, last hs))"

definition prompt_passphrase :: "host \<Rightarrow> string any" where
  "prompt_passphrase h = option_context ''reading passphrase'' (prompt_reply h)"

definition read_passphrase :: "host \<Rightarrow> string option \<Rightarrow> string any" where
  "read_passphrase h passphrase_env =
     (case passphrase_env of
        Some var \<Rightarrow>
          (case env_vars h var of
             Some val \<Rightarrow> Inr val
           | None \<Rightarrow> prompt_passphrase h)
      | None \<Rightarrow> prompt_passphrase h)"

section \<open>The daemon\<close>

definition read_pid :: "host \<Rightarrow> string \<Rightarrow> u32 option" where
  "read_pid h pid_path =
     (case read_to_string h pid_path of
        None \<Rightarrow> None
      | Some s \<Rightarrow> parse_u32 (trim s))"

definition write_pid :: "host \<Rightarrow> string \<Rightarrow> u32 \<Rightarrow> unit any \<times> host" where
  "write_pid h pid_path pid =
     (case write_str h pid_path (nat_to_dec (unat pid)) of
        (None, h') \<Rightarrow> (Inl (''writing pid file '' @ pid_path), h')
      | (Some _, h') \<Rightarrow> (Inr (), h'))"

definition is_alive :: "host \<Rightarrow> u32 \<Rightarrow> bool" where
  "is_alive h pid \<longleftrightarrow> procs h pid \<noteq> None"

fun contains :: "string \<Rightarrow> string \<Rightarrow> bool" where
  "contains [] needle = (needle = [])"
| "contains (c # cs) needle = (take (length needle) (c # cs) = needle \<or> contains cs needle)"

definition process_name_matches :: "host \<Rightarrow> u32 \<Rightarrow> string \<Rightarrow> bool" where
  "process_name_matches h pid needle =
     (case procs h pid of
        Some (Some comm) \<Rightarrow> contains comm needle
      | _ \<Rightarrow> True)"

definition running_pid :: "host \<Rightarrow> string \<Rightarrow> string \<Rightarrow> u32 option" where
  "running_pid h pid_path needle =
     (case read_pid h pid_path of
        None \<Rightarrow> None
      | Some pid \<Rightarrow> if is_alive h pid \<and> process_name_matches h pid needle then Some pid else None)"

text \<open>
  What the operating system makes of a spawn: no child, or a child with a pid and a name that
  still has an entry in \<open>/proc\<close> 800 ms later or not.
\<close>

type_synonym spawn_outcome = "(u32 \<times> string option \<times> bool) option"

definition open_log :: "host \<Rightarrow> string \<Rightarrow> host option" where
  "open_log h log_path =
     (if openable h log_path
      then Some (h\<lparr>files := (files h)(log_path \<mapsto> (case files h log_path of Some s \<Rightarrow> s | None \<Rightarrow> ''''))\<rparr>)
      else None)"

definition spawn_daemon ::
    "host \<Rightarrow> spawn_outcome \<Rightarrow> string list \<Rightarrow> string \<Rightarrow> string \<Rightarrow> (string \<times> string) option \<Rightarrow>
     u32 any \<times> host" where
  "spawn_daemon h child args pid_path log_path env =
     (case open_log h log_path of
        None \<Rightarrow> (Inl (''opening log '' @ log_path), h)
      | Some h1 \<Rightarrow>
     (case exe_path h1 of
        None \<Rightarrow> (Inl ''locating current executable'', h1)
      | Some exe \<Rightarrow>
     (case child of
        None \<Rightarrow> (Inl ''spawning background daemon'', h1)
      | Some (pid, name, survives) \<Rightarrow>
          let h2 = h1\<lparr>procs := (procs h1)(pid \<mapsto> name),
                      actions := actions h1 @ [Started (exe # args) env pid]\<rparr> in
          (case write_pid h2 pid_path pid of
             (Inl e, h3) \<Rightarrow> (Inl e, h3)
           | (Inr _, h3) \<Rightarrow>
               let h4 = (if survives then h3 else h3\<lparr>procs := (procs h3)(pid := None)\<rparr>) in
               if \<not> is_alive h4 pid
               then (Inl (''daemon exited immediately '' @ em_dash @ '' check the log:'' @ newline @
                          ''  '' @ log_path),
                     remove_file h4 pid_path)
               else (Inr pid, h4)))))"

definition kill :: "host \<Rightarrow> u32 \<Rightarrow> unit any \<times> host" where
  "kill h pid =
     (case killer h pid of
        None \<Rightarrow> (Inl ''running kill'', h)
      | Some success \<Rightarrow>
          if success then (Inr (), h\<lparr>actions := actions h @ [Signalled pid]\<rparr>)
          else (Inl (''kill failed for pid '' @ nat_to_dec (unat pid)), h))"

definition stop_daemon :: "host \<Rightarrow> string \<Rightarrow> string \<Rightarrow> string \<Rightarrow> unit any \<times> host" where
  "stop_daemon h pid_path needle label =
     (case read_pid h pid_path of
        None \<Rightarrow> (Inr (), println h (label @ '' is not running (no pid file)''))
      | Some pid \<Rightarrow>
          if is_alive h pid \<and> process_name_matches h pid needle
          then (case kill h pid of
                  (Inl e, h1) \<Rightarrow> (Inl e, h1)
                | (Inr _, h1) \<Rightarrow>
                    (Inr (), remove_file
                       (println h1 (label @ '' down (stopped pid '' @ nat_to_dec (unat pid) @ '')'')) pid_path))
          else (Inr (), remove_file
                  (println h (label @ '' was not running (cleaned up stale pid '' @
                     nat_to_dec (unat pid) @ '')'')) pid_path))"

section \<open>Lemmas\<close>

lemma write_str_Some:
  "write_str h path contents = (Some (), h') \<Longrightarrow>
     files h' = (files h)(path \<mapsto> contents) \<and> procs h' = procs h \<and> actions h' = actions h \<and>
     env_vars h' = env_vars h \<and> killer h' = killer h"
  by (auto simp: write_str_def open_truncate_def write_all_def split: if_splits option.splits)

lemma write_str_frame:
  "write_str h path contents = (r, h') \<Longrightarrow>
     (\<forall>q. q \<noteq> path \<longrightarrow> files h' q = files h q) \<and> procs h' = procs h \<and> actions h' = actions h \<and>
     env_vars h' = env_vars h \<and> killer h' = killer h"
  by (auto simp: write_str_def open_truncate_def write_all_def split: if_splits option.splits)

lemma write_pid_Inr:
  "write_pid h pid_path pid = (Inr (), h') \<Longrightarrow>
     read_pid h' pid_path = Some pid \<and> procs h' = procs h \<and> actions h' = actions h \<and> killer h' = killer h"
  using write_str_Some[of h pid_path "nat_to_dec (unat pid)" h']
  by (auto simp: write_pid_def read_pid_def read_to_string_def trim_dec parse_u32_dec
      split: option.splits prod.splits)

lemma read_pid_remove [simp]: "read_pid (remove_file h p) p = None"
  by (simp add: read_pid_def read_to_string_def remove_file_def)

lemma remove_file_simps [simp]:
  "procs (remove_file h p) = procs h" "actions (remove_file h p) = actions h"
  "killer (remove_file h p) = killer h" "files (remove_file h p) = (files h)(p := None)"
  by (simp_all add: remove_file_def)

lemma println_simps [simp]:
  "procs (println h s) = procs h" "actions (println h s) = actions h" "files (println h s) = files h"
  "killer (println h s) = killer h"
  by (simp_all add: println_def)

lemma read_pid_println [simp]: "read_pid (println h s) p = read_pid h p"
  by (simp add: read_pid_def read_to_string_def)

lemma kill_Inr: "kill h pid = (Inr u, h') \<longleftrightarrow>
     killer h pid = Some True \<and> h' = h\<lparr>actions := actions h @ [Signalled pid]\<rparr>"
  by (auto simp: kill_def split: option.splits if_splits)

lemma kill_Inl: "kill h pid = (Inl e, h') \<Longrightarrow> h' = h"
  by (auto simp: kill_def split: option.splits if_splits)

lemma stop_daemon_cases:
  assumes "stop_daemon h pid_path needle label = (r, h')"
  shows "actions h' = actions h \<or>
         (\<exists>pid. running_pid h pid_path needle = Some pid \<and> actions h' = actions h @ [Signalled pid])"
    and "r = Inr () \<Longrightarrow> read_pid h' pid_path = None"
    and "q \<noteq> pid_path \<Longrightarrow> files h' q = files h q"
  using assms
  by (auto simp: stop_daemon_def running_pid_def kill_Inr dest!: kill_Inl
      split: option.splits if_splits prod.splits sum.splits)

lemma spawn_daemon_Inr:
  assumes "spawn_daemon h child args pid_path log_path env = (Inr pid, h')"
  obtains exe name where "child = Some (pid, name, True)" "exe_path h = Some exe"
    "read_pid h' pid_path = Some pid" "procs h' = (procs h)(pid \<mapsto> name)"
    "actions h' = actions h @ [Started (exe # args) env pid]" "killer h' = killer h"
  using assms write_pid_Inr
  by (auto simp: spawn_daemon_def open_log_def Let_def is_alive_def
      split: option.splits if_splits prod.splits sum.splits)

text \<open>What no command changes: the environment, and which files can be opened and written.\<close>

definition same_machine :: "host \<Rightarrow> host \<Rightarrow> bool" where
  "same_machine h h' \<longleftrightarrow>
     env_vars h' = env_vars h \<and> openable h' = openable h \<and> storable h' = storable h \<and>
     chmodable h' = chmodable h \<and> creatable h' = creatable h \<and> prompt_reply h' = prompt_reply h"

lemma same_machine_refl [simp]: "same_machine h h"
  by (simp add: same_machine_def)

lemma same_machine_trans: "same_machine h h' \<Longrightarrow> same_machine h' h'' \<Longrightarrow> same_machine h h''"
  by (simp add: same_machine_def)

lemma same_machine_steps:
  "same_machine h g \<Longrightarrow> same_machine h (println g l)"
  "same_machine h g \<Longrightarrow> same_machine h (remove_file g p)"
  "same_machine h g \<Longrightarrow> same_machine h (g\<lparr>procs := ps, actions := as\<rparr>)"
  "same_machine h g \<Longrightarrow> same_machine h (g\<lparr>procs := ps\<rparr>)"
  "same_machine h g \<Longrightarrow> same_machine h (g\<lparr>actions := as\<rparr>)"
  by (simp_all add: same_machine_def println_def remove_file_def)

lemma same_machine_open_log: "open_log h p = Some h' \<Longrightarrow> same_machine h h'"
  by (auto simp: open_log_def same_machine_def split: if_splits)

lemma same_machine_write_pid: "write_pid g p pid = (r, h') \<Longrightarrow> same_machine h g \<Longrightarrow> same_machine h h'"
  by (auto simp: write_pid_def write_str_def open_truncate_def write_all_def same_machine_def
      split: if_splits option.splits prod.splits)

lemma spawn_daemon_machine: "spawn_daemon h child args p l env = (r, h') \<Longrightarrow> same_machine h h'"
  unfolding spawn_daemon_def
  by (auto simp: Let_def intro!: same_machine_steps dest!: same_machine_open_log
      elim!: same_machine_write_pid split: option.splits if_splits prod.splits sum.splits)

lemma stop_daemon_machine: "stop_daemon h p needle label = (r, h') \<Longrightarrow> same_machine h h'"
  unfolding stop_daemon_def
  by (auto simp: kill_Inr dest!: kill_Inl intro!: same_machine_steps
      split: option.splits if_splits prod.splits sum.splits)

section \<open>Properties\<close>

text \<open>
  A daemon that was started is the daemon that is found and stopped. When spawning
  succeeds, the pid file names the child, a later status check reports exactly that pid if the
  process carries the program's name, and a later stop sends the termination signal to that
  process, to nothing else, and leaves no pid file.
\<close>

theorem daemon_start_then_stop:
  assumes "spawn_daemon h child args pid_path log_path env = (Inr pid, h')"
    and "process_name_matches h' pid needle"
    and "killer h pid = Some True"
  shows "running_pid h' pid_path needle = Some pid \<and>
         (\<exists>exe h''. stop_daemon h' pid_path needle label = (Inr (), h'') \<and> files h'' pid_path = None \<and>
            actions h'' = actions h @ [Started (exe # args) env pid, Signalled pid])"
proof -
  obtain exe name where f: "read_pid h' pid_path = Some pid" "procs h' = (procs h)(pid \<mapsto> name)"
    "actions h' = actions h @ [Started (exe # args) env pid]" "killer h' = killer h"
    using spawn_daemon_Inr[OF assms(1)] by metis
  then have alive: "is_alive h' pid" by (simp add: is_alive_def)
  have "running_pid h' pid_path needle = Some pid"
    using f alive assms(2) by (simp add: running_pid_def)
  moreover have "kill h' pid = (Inr (), h'\<lparr>actions := actions h' @ [Signalled pid]\<rparr>)"
    using f assms(3) by (simp add: kill_def)
  then have "stop_daemon h' pid_path needle label =
      (Inr (), remove_file (println (h'\<lparr>actions := actions h' @ [Signalled pid]\<rparr>)
         (label @ '' down (stopped pid '' @ nat_to_dec (unat pid) @ '')'')) pid_path)"
    using f alive assms(2) by (simp add: stop_daemon_def)
  ultimately show ?thesis using f(3) by simp
qed

definition sample_host :: host where
  "sample_host =
     \<lparr>env_vars = [''HOME'' \<mapsto> ''/root''], files = Map.empty, modes = Map.empty, default_mode = (6, 4, 4),
      openable = (\<lambda>_. True), storable = (\<lambda>_. True), chmodable = (\<lambda>_. True),
      creatable = (\<lambda>_. True), exe_path = Some ''/bin/h'',
      procs = Map.empty, killer = (\<lambda>_. Some True), prompt_reply = Some ''pw'', actions = [], stdout = []\<rparr>"

lemma sample_spawn:
  "\<exists>h'. spawn_daemon sample_host (Some (7, Some ''hyperion-server'', True)) [''run''] ''p'' ''l'' None = (Inr 7, h') \<and>
        process_name_matches h' 7 ''hyperion''"
  by (simp add: spawn_daemon_def open_log_def sample_host_def write_pid_def write_str_def
      open_truncate_def write_all_def is_alive_def process_name_matches_def Let_def)

theorem daemon_start_then_stop_witness:
  "\<exists>h' h''. running_pid h' ''p'' ''hyperion'' = Some 7 \<and>
        stop_daemon h' ''p'' ''hyperion'' ''hyperion-server'' = (Inr (), h'') \<and> files h'' ''p'' = None"
proof -
  obtain h' where h': "spawn_daemon sample_host (Some (7, Some ''hyperion-server'', True)) [''run''] ''p'' ''l'' None = (Inr 7, h')"
    "process_name_matches h' 7 ''hyperion''"
    using sample_spawn by blast
  have "killer sample_host 7 = Some True" by (simp add: sample_host_def)
  from daemon_start_then_stop[OF h' this] show ?thesis by blast
qed

text \<open>
  C35: Stopping the daemon never signals a stranger. At most one signal is sent, to the
  process the pid file names, only while that process is alive and its name (when it can be
  read) contains the program's name; nothing but the pid file is touched, and whenever the
  stop succeeds no usable pid file is left.
\<close>

theorem stop_signals_only_own_daemon:
  assumes "stop_daemon h pid_path needle label = (r, h')"
  shows "(actions h' = actions h \<or>
          (\<exists>pid comm. read_pid h pid_path = Some pid \<and> procs h pid = Some comm \<and>
             (comm \<noteq> None \<longrightarrow> contains (the comm) needle) \<and> actions h' = actions h @ [Signalled pid])) \<and>
         (\<forall>q. q \<noteq> pid_path \<longrightarrow> files h' q = files h q) \<and>
         (r = Inr () \<longrightarrow> read_pid h' pid_path = None)"
proof -
  have "\<exists>comm. procs h pid = Some comm \<and> (comm \<noteq> None \<longrightarrow> contains (the comm) needle)"
    and "read_pid h pid_path = Some pid"
    if "running_pid h pid_path needle = Some pid" for pid
    using that by (auto simp: running_pid_def is_alive_def process_name_matches_def
        split: option.splits if_splits)
  then show ?thesis using stop_daemon_cases[OF assms] by blast
qed

definition running_host :: host where
  "running_host = sample_host\<lparr>files := [''p'' \<mapsto> nat_to_dec (unat (12 :: u32)), ''q'' \<mapsto> ''y''],
     procs := [12 \<mapsto> Some ''hyperion-client'']\<rparr>"

lemma running_host_stop:
  "\<exists>h'. stop_daemon running_host ''p'' ''hyperion'' ''hyperion'' = (Inr (), h') \<and> actions h' = [Signalled 12]"
proof -
  have "files running_host ''p'' = Some (nat_to_dec (unat (12 :: u32)))"
    by (simp add: running_host_def del: unat_numeral)
  then have "read_pid running_host ''p'' = Some 12"
    by (simp only: read_pid_def read_to_string_def option.case trim_dec parse_u32_dec)
  then show ?thesis
    by (simp add: stop_daemon_def is_alive_def process_name_matches_def kill_def)
       (simp add: running_host_def sample_host_def)
qed

theorem stop_signals_only_own_daemon_witness:
  "\<exists>h'. stop_daemon running_host ''p'' ''hyperion'' ''hyperion'' = (Inr (), h') \<and>
        actions h' = [Signalled 12] \<and> files h' ''q'' = Some ''y''"
proof -
  obtain h' where h': "stop_daemon running_host ''p'' ''hyperion'' ''hyperion'' = (Inr (), h')"
    "actions h' = [Signalled 12]"
    using running_host_stop by blast
  have "\<forall>q. q \<noteq> ''p'' \<longrightarrow> files h' q = files running_host q"
    by (rule conjunct1[OF conjunct2[OF stop_signals_only_own_daemon[OF h'(1)]]])
  then have "files h' ''q'' = Some ''y''" by (simp add: running_host_def)
  with h' show ?thesis by blast
qed

text \<open>
  C36: A new secret is never readable by others. When the file did not exist, in every state
  the file system goes through while \<open>write_secret\<close> runs, also when it fails half-way, the
  file is absent or has mode 600; after success it holds the secret and a newline.
\<close>

theorem new_secret_always_private:
  assumes "files h path = None"
    and "write_secret_states h path contents = (r, hs)"
  shows "(\<forall>g \<in> set hs. files g path = None \<or> modes g path = Some (6, 0, 0)) \<and>
         (r = Inr () \<longrightarrow> files (snd (write_secret h path contents)) path = Some (contents @ newline))"
  using assms
  by (auto simp: write_secret_states_def write_secret_def open_truncate_def write_all_def
      split: option.splits if_splits)

theorem new_secret_always_private_witness:
  "\<exists>hs. write_secret_states sample_host ''k'' ''s'' = (Inr (), hs) \<and>
        (\<forall>g \<in> set hs. files g ''k'' = None \<or> modes g ''k'' = Some (6, 0, 0))"
proof -
  obtain hs where hs: "write_secret_states sample_host ''k'' ''s'' = (Inr (), hs)"
    by (auto simp: write_secret_states_def open_truncate_def write_all_def sample_host_def)
  have "files sample_host ''k'' = None" by (simp add: sample_host_def)
  with new_secret_always_private[OF this hs] hs show ?thesis by blast
qed

text \<open>
  An overwritten secret is exposed for a moment. When the file already existed, its
  old mode stays while the new secret is written, and is tightened only afterwards: there is a
  state in which the file holds the secret under the old mode.
\<close>

theorem overwritten_secret_exposed:
  assumes "files h path = Some old" "modes h path = Some m"
    and "openable h path" "storable h path"
  shows "\<exists>g \<in> set (snd (write_secret_states h path contents)).
           files g path = Some contents \<and> modes g path = Some m"
  using assms by (auto simp: write_secret_states_def open_truncate_def write_all_def)

theorem overwritten_secret_exposed_witness:
  "\<exists>g \<in> set (snd (write_secret_states
       (sample_host\<lparr>files := [''k'' \<mapsto> ''old''], modes := [''k'' \<mapsto> (6, 4, 4)]\<rparr>) ''k'' ''secret'')).
     files g ''k'' = Some ''secret'' \<and> modes g ''k'' = Some (6, 4, 4)"
  by (rule overwritten_secret_exposed[of _ _ "''old''"]) (simp_all add: sample_host_def)

end
