(* ===== verification/Knock_Auth.thy ===== *)
theory Knock_Auth
  imports Key_Material
begin

text \<open>
  Single packet authorization (\<open>knock.rs\<close>): sealing a knock, the replay cache and the
  verifier. Random nonces and the clock are arguments. The locale \<open>replay_filter\<close> states
  what a replay cache promises over any sequence of checks; the cache itself and the whole
  verifier interpret it.
\<close>

section \<open>The packet\<close>

definition PROTOCOL_VERSION :: u16 where
  "PROTOCOL_VERSION = 1"

definition MAGIC :: bytes where
  "MAGIC = map word_of_nat [72, 86, 80, 75]"

definition KDF_LABEL :: bytes where
  "KDF_LABEL = map (\<lambda>c. word_of_nat (of_char c)) ''hyperion-vpn knock key v1''"

definition NONCE_LEN :: nat where
  "NONCE_LEN = 12"

definition PAYLOAD_LEN :: nat where
  "PAYLOAD_LEN = 12"

definition KNOCK_TAG_LEN :: nat where
  "KNOCK_TAG_LEN = 16"

definition PACKET_LEN :: nat where
  "PACKET_LEN = length MAGIC + NONCE_LEN + PAYLOAD_LEN + KNOCK_TAG_LEN"

definition DEFAULT_WINDOW_SECS :: u64 where
  "DEFAULT_WINDOW_SECS = 30"

definition REPLAY_CAP :: nat where
  "REPLAY_CAP = 4096"

record knock =
  tunnel_port :: u16

definition knock_cipher :: "crypto \<Rightarrow> psk \<Rightarrow> bytes" where
  "knock_cipher C p = take 32 (fst (hkdf C KDF_LABEL (psk_bytes p)))"

definition knock_aad :: "public_key \<Rightarrow> bytes" where
  "knock_aad server_pub = MAGIC @ public_bytes server_pub"

text \<open>\<open>SystemTime::now().duration_since(UNIX_EPOCH)\<close> fails on a clock before the epoch.\<close>

definition now_unix :: "u64 option \<Rightarrow> u64" where
  "now_unix clock = (case clock of Some secs \<Rightarrow> secs | None \<Rightarrow> 0)"

definition knock_payload :: "u64 \<Rightarrow> u16 \<Rightarrow> bytes" where
  "knock_payload timestamp port = be16 PROTOCOL_VERSION @ be64 timestamp @ be16 port"

definition seal_at :: "crypto \<Rightarrow> psk \<Rightarrow> public_key \<Rightarrow> u16 \<Rightarrow> u64 \<Rightarrow> bytes \<Rightarrow> bytes" where
  "seal_at C p server_pub port timestamp nonce =
     (let cipher = knock_cipher C p;
          aad = knock_aad server_pub;
          payload = knock_payload timestamp port;
          ciphertext = aead_seal C cipher nonce aad payload
      in MAGIC @ nonce @ ciphertext)"

definition seal :: "crypto \<Rightarrow> psk \<Rightarrow> public_key \<Rightarrow> u16 \<Rightarrow> u64 option \<Rightarrow> bytes \<Rightarrow> bytes" where
  "seal C p server_pub port clock nonce = seal_at C p server_pub port (now_unix clock) nonce"

section \<open>The replay cache\<close>

record replay_guard =
  seen :: "(bytes \<times> u64) list"
  window :: u64

definition replay_guard_new :: "u64 \<Rightarrow> replay_guard" where
  "replay_guard_new window_secs = \<lparr>seen = [], window = window_secs\<rparr>"

definition check_and_record :: "replay_guard \<Rightarrow> bytes \<Rightarrow> u64 \<Rightarrow> bool \<times> replay_guard" where
  "check_and_record g nonce now =
     (let g1 = g\<lparr>seen := retain (\<lambda>t. saturating_sub now t \<le> window g) (seen g)\<rparr>
      in if map_of (seen g1) nonce \<noteq> None then (False, g1)
         else if REPLAY_CAP \<le> length (seen g1) then (False, g1)
         else (True, g1\<lparr>seen := AList.update nonce now (seen g1)\<rparr>))"

section \<open>The verifier\<close>

record knock_verifier =
  cipher :: bytes
  aad :: bytes
  replay :: replay_guard

definition verifier_new :: "crypto \<Rightarrow> psk \<Rightarrow> public_key \<Rightarrow> u64 \<Rightarrow> knock_verifier" where
  "verifier_new C p server_pub window_secs =
     \<lparr>cipher = knock_cipher C p, aad = knock_aad server_pub, replay = replay_guard_new window_secs\<rparr>"

definition verifier_window :: "knock_verifier \<Rightarrow> u64" where
  "verifier_window v = window (replay v)"

text \<open>
  \<open>KnockVerifier::open\<close>. Reading the fields of the plaintext indexes it, so a plaintext
  shorter than the payload would panic.
\<close>

definition open_plaintext ::
    "knock_verifier \<Rightarrow> bytes \<Rightarrow> bytes \<Rightarrow> u64 \<Rightarrow> ((error + knock) \<times> knock_verifier) rust" where
  "open_plaintext v nonce plaintext now =
     rbind (index plaintext 0) (\<lambda>v0.
     rbind (index plaintext 1) (\<lambda>v1.
     if of_be16 [v0, v1] \<noteq> PROTOCOL_VERSION
     then Returns (Inl (Protocol ''knock: version mismatch''), v) else
     rbind (slice plaintext 2 10) (\<lambda>ts.
     rbind (index plaintext 10) (\<lambda>p0.
     rbind (index plaintext 11) (\<lambda>p1.
     let timestamp = of_be64 ts; port = of_be16 [p0, p1] in
     if window (replay v) < abs_diff now timestamp
     then Returns (Inl (Protocol ''knock: stale timestamp''), v) else
     (case check_and_record (replay v) nonce now of
        (fresh, g) \<Rightarrow>
          if \<not> fresh then Returns (Inl (Protocol ''knock: replay''), v\<lparr>replay := g\<rparr>)
          else Returns (Inr \<lparr>tunnel_port = port\<rparr>, v\<lparr>replay := g\<rparr>)))))))"

definition verifier_open ::
    "crypto \<Rightarrow> knock_verifier \<Rightarrow> bytes \<Rightarrow> u64 \<Rightarrow> ((error + knock) \<times> knock_verifier) rust" where
  "verifier_open C v packet now =
     (if length packet \<noteq> PACKET_LEN then Returns (Inl (Protocol ''knock: bad length''), v) else
      rbind (slice packet 0 4) (\<lambda>magic.
      if magic \<noteq> MAGIC then Returns (Inl (Protocol ''knock: bad magic''), v) else
      rbind (slice packet 4 16) (\<lambda>nonce.
      rbind (slice_from packet 16) (\<lambda>ciphertext.
      (case aead_open C (cipher v) nonce (aad v) ciphertext of
         None \<Rightarrow> Returns (Inl Unauthorized, v)
       | Some plaintext \<Rightarrow> open_plaintext v nonce plaintext now)))))"

section \<open>Sequences of checks\<close>

primrec run_checks :: "('s \<Rightarrow> 'k \<Rightarrow> u64 \<Rightarrow> bool \<times> 's) \<Rightarrow> 's \<Rightarrow> ('k \<times> u64) list \<Rightarrow> bool list" where
  "run_checks check s [] = []"
| "run_checks check s (e # es) =
     (case check s (fst e) (snd e) of (b, s') \<Rightarrow> b # run_checks check s' es)"

lemma length_run_checks [simp]: "length (run_checks check s es) = length es"
  by (induction es arbitrary: s) (auto split: prod.splits)

text \<open>
  The contract of a replay filter: the key of an accepted item is recorded with its time, a
  record is kept and blocks its key while the clock has not moved more than \<open>span\<close> seconds
  past it.
\<close>

locale replay_filter =
  fixes check :: "'s \<Rightarrow> 'k \<Rightarrow> u64 \<Rightarrow> bool \<times> 's"
    and key :: "'k \<Rightarrow> 'n"
    and recorded :: "'s \<Rightarrow> 'n \<Rightarrow> u64 option"
    and wf :: "'s \<Rightarrow> bool"
    and span :: "'s \<Rightarrow> nat"
  assumes wf_check: "wf s \<Longrightarrow> check s k now = (b, s') \<Longrightarrow> wf s' \<and> span s' = span s"
    and check_records: "wf s \<Longrightarrow> check s k now = (True, s') \<Longrightarrow> recorded s' (key k) = Some now"
    and check_blocks:
      "wf s \<Longrightarrow> recorded s (key k) = Some t \<Longrightarrow> unat now - unat t \<le> span s \<Longrightarrow> \<not> fst (check s k now)"
    and check_keeps:
      "wf s \<Longrightarrow> recorded s n = Some t \<Longrightarrow> unat now - unat t \<le> span s \<Longrightarrow>
         check s k now = (b, s') \<Longrightarrow> recorded s' n = Some t"
begin

lemma recorded_blocks:
  "wf s \<Longrightarrow> recorded s n = Some t \<Longrightarrow> i < length es \<Longrightarrow> key (fst (es ! i)) = n \<Longrightarrow>
     \<forall>e \<in> set (take (Suc i) es). unat (snd e) - unat t \<le> span s \<Longrightarrow>
     \<not> run_checks check s es ! i"
proof (induction es arbitrary: s i)
  case Nil
  then show ?case by simp
next
  case (Cons e es)
  obtain b s' where c: "check s (fst e) (snd e) = (b, s')" by fastforce
  show ?case
  proof (cases i)
    case 0
    with Cons.prems c check_blocks[of s "fst e" t "snd e"] show ?thesis by simp
  next
    case (Suc j)
    have "recorded s' n = Some t"
      using Cons.prems(5) by (intro check_keeps[OF Cons.prems(1,2) _ c]) simp
    moreover have "wf s'" "span s' = span s" using wf_check[OF Cons.prems(1) c] by simp_all
    ultimately show ?thesis
      using Cons.IH[of s' j] Cons.prems Suc c by simp
  qed
qed

text \<open>
  No two items of the same key are accepted at times that are within \<open>span\<close> of the first acceptance, as
  long as no check in between saw a later clock.
\<close>

lemma no_double_acceptance:
  "wf s \<Longrightarrow> i < j \<Longrightarrow> j < length es \<Longrightarrow> key (fst (es ! i)) = key (fst (es ! j)) \<Longrightarrow>
     run_checks check s es ! i \<Longrightarrow>
     \<forall>m. i < m \<and> m \<le> j \<longrightarrow> unat (snd (es ! m)) - unat (snd (es ! i)) \<le> span s \<Longrightarrow>
     \<not> run_checks check s es ! j"
proof (induction es arbitrary: s i j)
  case Nil
  then show ?case by simp
next
  case (Cons e es)
  obtain b s' where c: "check s (fst e) (snd e) = (b, s')" by fastforce
  have s': "wf s'" "span s' = span s" using wf_check[OF Cons.prems(1) c] by simp_all
  obtain j' where j: "j = Suc j'" using Cons.prems(2) by (cases j) auto
  show ?case
  proof (cases i)
    case 0
    have rec: "recorded s' (key (fst e)) = Some (snd e)"
      using check_records[OF Cons.prems(1)] c Cons.prems(5) 0 by simp
    have "unat (snd x) - unat (snd e) \<le> span s'" if "x \<in> set (take (Suc j') es)" for x
    proof -
      from that obtain m where m: "m < Suc j'" "x = es ! m"
        by (auto simp: in_set_conv_nth)
      then show ?thesis using Cons.prems(6)[rule_format, of "Suc m"] 0 j s'(2) by simp
    qed
    then show ?thesis
      using recorded_blocks[OF s'(1) rec, of j' es] Cons.prems(3,4) 0 j c by simp
  next
    case (Suc i')
    have "\<forall>m. i' < m \<and> m \<le> j' \<longrightarrow> unat (snd (es ! m)) - unat (snd (es ! i')) \<le> span s'"
    proof (intro allI impI)
      fix m assume "i' < m \<and> m \<le> j'"
      then show "unat (snd (es ! m)) - unat (snd (es ! i')) \<le> span s'"
        using Cons.prems(6)[rule_format, of "Suc m"] Suc j s'(2) by simp
    qed
    then show ?thesis
      using Cons.IH[OF s'(1), of i' j'] Cons.prems(2-5) Suc j c by simp
  qed
qed

end

section \<open>The replay cache as a filter\<close>

definition guard_wf :: "replay_guard \<Rightarrow> bool" where
  "guard_wf g \<longleftrightarrow> distinct (map fst (seen g)) \<and> length (seen g) \<le> REPLAY_CAP"

lemma guard_wf_new [simp]: "guard_wf (replay_guard_new w)"
  by (simp add: guard_wf_def replay_guard_new_def)

lemma check_and_record_window: "window (snd (check_and_record g n now)) = window g"
  by (simp add: check_and_record_def Let_def)

lemma check_and_record_wf:
  assumes "guard_wf g"
  shows "guard_wf (snd (check_and_record g n now))"
proof -
  let ?m = "retain (\<lambda>t. saturating_sub now t \<le> window g) (seen g)"
  have "distinct (map fst ?m)" using assms by (simp add: guard_wf_def distinct_retain)
  moreover have "length ?m \<le> REPLAY_CAP"
    using assms length_retain_le[of "\<lambda>t. saturating_sub now t \<le> window g" "seen g"]
    by (simp add: guard_wf_def)
  ultimately show ?thesis
    using length_update_le[of n now ?m]
    by (auto simp: check_and_record_def Let_def guard_wf_def distinct_update)
qed

lemma check_and_record_accepts:
  assumes "guard_wf g" "check_and_record g n now = (True, g')"
  shows "map_of (seen g') n = Some now"
  using assms
  by (auto simp: check_and_record_def Let_def update_conv' split: if_splits)

lemma check_and_record_keeps:
  assumes g: "guard_wf g" and "map_of (seen g) k = Some t"
    and "unat now - unat t \<le> unat (window g)"
  shows "map_of (seen (snd (check_and_record g n now))) k = Some t"
    and "k = n \<Longrightarrow> \<not> fst (check_and_record g n now)"
proof -
  let ?m = "retain (\<lambda>t. saturating_sub now t \<le> window g) (seen g)"
  have d: "distinct (map fst (seen g))" using g by (simp add: guard_wf_def)
  have "map_of ?m k = Some t"
    using assms(2,3) by (simp add: map_of_retain[OF d] time_simps)
  then show "map_of (seen (snd (check_and_record g n now))) k = Some t"
    and "k = n \<Longrightarrow> \<not> fst (check_and_record g n now)"
    by (auto simp: check_and_record_def Let_def update_conv')
qed

interpretation guard: replay_filter check_and_record "\<lambda>k. k" "\<lambda>g k. map_of (seen g) k" guard_wf
  "\<lambda>g. unat (window g)"
proof unfold_locales
  fix s s' :: replay_guard and k and now :: u64 and b
  assume "guard_wf s" "check_and_record s k now = (b, s')"
  then show "guard_wf s' \<and> unat (window s') = unat (window s)"
    using check_and_record_wf[of s k now] check_and_record_window[of s k now] by simp
next
  fix s s' :: replay_guard and k and now :: u64
  assume "guard_wf s" "check_and_record s k now = (True, s')"
  then show "map_of (seen s') k = Some now" by (rule check_and_record_accepts)
next
  fix s :: replay_guard and k and t now :: u64
  assume "guard_wf s" "map_of (seen s) k = Some t" "unat now - unat t \<le> unat (window s)"
  then show "\<not> fst (check_and_record s k now)" using check_and_record_keeps(2) by blast
next
  fix s s' :: replay_guard and k k' and t now :: u64 and b
  assume "guard_wf s" "map_of (seen s) k' = Some t" "unat now - unat t \<le> unat (window s)"
    and "check_and_record s k now = (b, s')"
  then show "map_of (seen s') k' = Some t"
    using check_and_record_keeps(1)[of s k' t now k] by simp
qed

section \<open>The verifier in one equation\<close>

definition packet_nonce :: "bytes \<Rightarrow> bytes" where
  "packet_nonce packet = take 12 (drop 4 packet)"

lemma packet_consts:
  "PACKET_LEN = 44" "length MAGIC = 4" "PROTOCOL_VERSION = 1" "REPLAY_CAP = 4096"
  by (simp_all add: PACKET_LEN_def MAGIC_def NONCE_LEN_def PAYLOAD_LEN_def KNOCK_TAG_LEN_def
      PROTOCOL_VERSION_def REPLAY_CAP_def)

lemma pair_take: "i + 2 \<le> length xs \<Longrightarrow> [xs ! i, xs ! Suc i] = take 2 (drop i xs)"
  by (simp add: numeral_2_eq_2 take_Suc_conv_app_nth Cons_nth_drop_Suc [symmetric])

lemma open_plaintext_eq:
  assumes "length m = 12"
  shows "open_plaintext v nonce m now = Returns
     (if of_be16 (take 2 m) \<noteq> PROTOCOL_VERSION
      then (Inl (Protocol ''knock: version mismatch''), v)
      else if window (replay v) < abs_diff now (of_be64 (take 8 (drop 2 m)))
      then (Inl (Protocol ''knock: stale timestamp''), v)
      else (case check_and_record (replay v) nonce now of
              (fresh, g) \<Rightarrow>
                (if fresh then Inr \<lparr>tunnel_port = of_be16 (take 2 (drop 10 m))\<rparr>
                 else Inl (Protocol ''knock: replay''), v\<lparr>replay := g\<rparr>)))"
proof -
  have "[m ! 0, m ! 1] = take 2 m" "[m ! 10, m ! 11] = take 2 (drop 10 m)"
    using pair_take[of 0 m] pair_take[of 10 m] assms by simp_all
  then show ?thesis
    using assms by (simp add: open_plaintext_def panic_simps Let_def split: prod.splits)
qed

lemma verifier_open_eq:
  assumes "aead_lawful C"
  shows "verifier_open C v packet now =
     (if length packet \<noteq> 44 then Returns (Inl (Protocol ''knock: bad length''), v)
      else if take 4 packet \<noteq> MAGIC then Returns (Inl (Protocol ''knock: bad magic''), v)
      else (case aead_open C (cipher v) (packet_nonce packet) (aad v) (drop 16 packet) of
              None \<Rightarrow> Returns (Inl Unauthorized, v)
            | Some m \<Rightarrow> open_plaintext v (packet_nonce packet) m now))"
  unfolding packet_nonce_def by (simp add: verifier_open_def packet_consts panic_simps)

lemma opened_length:
  "aead_lawful C \<Longrightarrow> length packet = 44 \<Longrightarrow> aead_open C k n a (drop 16 packet) = Some m \<Longrightarrow> length m = 12"
  using aead_open_length[of C k n a "drop 16 packet" m] by simp

lemma verifier_open_no_panic:
  assumes "aead_lawful C"
  shows "verifier_open C v packet now \<noteq> Panic"
  using opened_length[OF assms, of packet]
  by (auto simp: verifier_open_eq[OF assms] open_plaintext_eq split: option.splits)

section \<open>The verifier as a filter over packets\<close>

definition verifier_check :: "crypto \<Rightarrow> knock_verifier \<Rightarrow> bytes \<Rightarrow> u64 \<Rightarrow> bool \<times> knock_verifier" where
  "verifier_check C v packet now =
     (case verifier_open C v packet now of
        Returns (Inr k, v') \<Rightarrow> (True, v')
      | Returns (Inl e, v') \<Rightarrow> (False, v')
      | Panic \<Rightarrow> (False, v))"

lemma open_plaintext_cases:
  "(\<exists>e. open_plaintext v n m now = Returns (Inl e, v)) \<or> open_plaintext v n m now = Panic \<or>
   (\<exists>b g. check_and_record (replay v) n now = (b, g) \<and>
      (\<exists>r. open_plaintext v n m now = Returns (r, v\<lparr>replay := g\<rparr>) \<and> b = (\<exists>k. r = Inr k)))"
  by (auto simp: open_plaintext_def index_def slice_def Let_def split: prod.splits)

lemma verifier_check_cases:
  obtains "verifier_check C v packet now = (False, v)"
  | b g where "check_and_record (replay v) (packet_nonce packet) now = (b, g)"
      and "verifier_check C v packet now = (b, v\<lparr>replay := g\<rparr>)"
proof (cases "length packet = 44 \<and> take 4 packet = MAGIC")
  case True
  then have o: "verifier_open C v packet now =
      (case aead_open C (cipher v) (packet_nonce packet) (aad v) (drop 16 packet) of
         None \<Rightarrow> Returns (Inl Unauthorized, v)
       | Some m \<Rightarrow> open_plaintext v (packet_nonce packet) m now)"
    unfolding packet_nonce_def by (simp add: verifier_open_def packet_consts panic_simps)
  show thesis
  proof (cases "aead_open C (cipher v) (packet_nonce packet) (aad v) (drop 16 packet)")
    case None
    with o that(1) show thesis by (simp add: verifier_check_def)
  next
    case (Some m)
    with o open_plaintext_cases[of v "packet_nonce packet" m now] that show thesis
      by (auto simp: verifier_check_def split: sum.splits)
  qed
next
  case False
  then have "verifier_check C v packet now = (False, v)"
    by (auto simp: verifier_check_def verifier_open_def packet_consts panic_simps)
  with that(1) show thesis .
qed

interpretation verifier: replay_filter "verifier_check C" packet_nonce
  "\<lambda>v. map_of (seen (replay v))" "\<lambda>v. guard_wf (replay v)"
  "\<lambda>v. unat (window (replay v))" for C
proof unfold_locales
  fix s s' :: knock_verifier and k and now :: u64 and b
  assume "guard_wf (replay s)" "verifier_check C s k now = (b, s')"
  then show "guard_wf (replay s') \<and> unat (window (replay s')) = unat (window (replay s))"
    by (cases rule: verifier_check_cases[of C s k now]) (auto dest: guard.wf_check)
next
  fix s s' :: knock_verifier and k and now :: u64
  assume "guard_wf (replay s)" "verifier_check C s k now = (True, s')"
  then show "map_of (seen (replay s')) (packet_nonce k) = Some now"
    by (cases rule: verifier_check_cases[of C s k now]) (auto dest: guard.check_records)
next
  fix s :: knock_verifier and k and t now :: u64
  assume "guard_wf (replay s)" "map_of (seen (replay s)) (packet_nonce k) = Some t"
    and "unat now - unat t \<le> unat (window (replay s))"
  then show "\<not> fst (verifier_check C s k now)"
    using guard.check_blocks[of "replay s" "packet_nonce k" t now]
    by (cases rule: verifier_check_cases[of C s k now]) auto
next
  fix s s' :: knock_verifier and k n and t now :: u64 and b
  assume "guard_wf (replay s)" "map_of (seen (replay s)) n = Some t"
    and "unat now - unat t \<le> unat (window (replay s))" and "verifier_check C s k now = (b, s')"
  then show "map_of (seen (replay s')) n = Some t"
    using guard.check_keeps[of "replay s" n t now "packet_nonce k"]
    by (cases rule: verifier_check_cases[of C s k now]) auto
qed

section \<open>Sealed knocks\<close>

definition verifier_for :: "crypto \<Rightarrow> psk \<Rightarrow> public_key \<Rightarrow> knock_verifier \<Rightarrow> bool" where
  "verifier_for C p server_pub v \<longleftrightarrow>
     cipher v = knock_cipher C p \<and> aad v = knock_aad server_pub \<and> guard_wf (replay v)"

lemma verifier_for_new [simp]: "verifier_for C p pub (verifier_new C p pub w)"
  by (simp add: verifier_for_def verifier_new_def)

lemma payload_fields:
  "length (knock_payload ts port) = 12"
  "take 2 (knock_payload ts port) = be16 PROTOCOL_VERSION"
  "take 8 (drop 2 (knock_payload ts port)) = be64 ts"
  "take 2 (drop 10 (knock_payload ts port)) = be16 port"
  by (simp_all add: knock_payload_def)

lemma payload_of_fields:
  assumes "length m = 12" "of_be16 (take 2 m) = PROTOCOL_VERSION"
  shows "m = knock_payload (of_be64 (take 8 (drop 2 m))) (of_be16 (take 2 (drop 10 m)))"
proof -
  have "m = take 2 m @ take 8 (drop 2 m) @ take 2 (drop 10 m)"
  proof -
    have "m = take 2 m @ drop 2 m" "drop 2 m = take 8 (drop 2 m) @ drop 8 (drop 2 m)"
      by (simp_all only: append_take_drop_id)
    moreover have "drop 8 (drop 2 m) = drop 10 m" "take 2 (drop 10 m) = drop 10 m"
      using assms(1) by simp_all
    ultimately show ?thesis by metis
  qed
  moreover have "be16 PROTOCOL_VERSION = take 2 m"
    using assms by (simp flip: assms(2) add: u16_field.enc_dec)
  ultimately show ?thesis
    using assms(1) by (simp add: knock_payload_def u16_field.enc_dec u64_field.enc_dec)
qed

lemma seal_at_parts:
  assumes "aead_lawful C" "length nonce = 12"
  shows "length (seal_at C p pub port ts nonce) = 44"
    and "take 4 (seal_at C p pub port ts nonce) = MAGIC"
    and "packet_nonce (seal_at C p pub port ts nonce) = nonce"
    and "drop 16 (seal_at C p pub port ts nonce) =
           aead_seal C (knock_cipher C p) nonce (knock_aad pub) (knock_payload ts port)"
  using assms by (simp_all add: seal_at_def Let_def packet_nonce_def packet_consts
      aead_seal_length payload_fields)

lemma open_sealed:
  assumes C: "aead_lawful C" and n: "length nonce = 12" and v: "verifier_for C p pub v"
  shows "verifier_open C v (seal_at C p pub port ts nonce) now = Returns
     (if window (replay v) < abs_diff now ts then (Inl (Protocol ''knock: stale timestamp''), v)
      else (case check_and_record (replay v) nonce now of
              (fresh, g) \<Rightarrow>
                (if fresh then Inr \<lparr>tunnel_port = port\<rparr> else Inl (Protocol ''knock: replay''),
                 v\<lparr>replay := g\<rparr>)))"
  using v
  by (simp add: verifier_open_eq[OF C] seal_at_parts[OF C n] aead_open_seal[OF C] verifier_for_def
      open_plaintext_eq payload_fields split: prod.splits)

lemma check_sealed:
  assumes "aead_lawful C" "length nonce = 12" "verifier_for C p pub v"
  shows "verifier_check C v (seal_at C p pub port ts nonce) now =
     (if window (replay v) < abs_diff now ts then (False, v)
      else (case check_and_record (replay v) nonce now of (fresh, g) \<Rightarrow> (fresh, v\<lparr>replay := g\<rparr>)))"
  by (simp add: verifier_check_def open_sealed[OF assms] split: prod.splits)

lemma verifier_open_sound:
  assumes C: "aead_lawful C" "aead_authentic C" and v: "verifier_for C p pub v"
    and o: "verifier_open C v packet now = Returns (Inr k, v')"
  shows "\<exists>ts nonce g. length nonce = 12 \<and> packet = seal_at C p pub (tunnel_port k) ts nonce \<and>
           unat (abs_diff now ts) \<le> unat (window (replay v)) \<and>
           check_and_record (replay v) nonce now = (True, g) \<and> v' = v\<lparr>replay := g\<rparr>"
proof -
  from o have len: "length packet = 44" and magic: "take 4 packet = MAGIC"
    by (auto simp: verifier_open_eq[OF C(1)] split: if_splits)
  with o obtain m where m: "aead_open C (cipher v) (packet_nonce packet) (aad v) (drop 16 packet) = Some m"
    and op: "open_plaintext v (packet_nonce packet) m now = Returns (Inr k, v')"
    by (auto simp: verifier_open_eq[OF C(1)] split: option.splits)
  have ml: "length m = 12" using opened_length[OF C(1) len m] .
  let ?ts = "of_be64 (take 8 (drop 2 m))"
  from op obtain g where g: "check_and_record (replay v) (packet_nonce packet) now = (True, g)"
      "v' = v\<lparr>replay := g\<rparr>" "k = \<lparr>tunnel_port = of_be16 (take 2 (drop 10 m))\<rparr>"
    and ver: "of_be16 (take 2 m) = PROTOCOL_VERSION" and fr: "\<not> window (replay v) < abs_diff now ?ts"
    by (auto simp: open_plaintext_eq[OF ml] split: if_splits prod.splits)
  have "m = knock_payload ?ts (tunnel_port k)" using payload_of_fields[OF ml ver] g(3) by simp
  moreover have "drop 16 packet = aead_seal C (cipher v) (packet_nonce packet) (aad v) m"
    using C(2) m by (simp add: aead_authentic_def)
  moreover have "packet = MAGIC @ packet_nonce packet @ drop 16 packet"
    using append_take_drop_id[of 4 packet] append_take_drop_id[of 12 "drop 4 packet"] magic
    by (simp add: packet_nonce_def)
  ultimately have "packet = seal_at C p pub (tunnel_port k) ?ts (packet_nonce packet)"
    using v by (simp add: seal_at_def Let_def verifier_for_def)
  moreover have "length (packet_nonce packet) = 12" using len by (simp add: packet_nonce_def)
  moreover have "unat (abs_diff now ?ts) \<le> unat (window (replay v))"
    using fr by (simp only: not_less word_le_nat_alt)
  ultimately show ?thesis using g by blast
qed

lemma check_and_record_fresh:
  assumes "guard_wf g"
  shows "fst (check_and_record g n now) \<longleftrightarrow>
     (\<forall>t. map_of (seen g) n = Some t \<longrightarrow> unat (window g) < unat now - unat t) \<and>
     length (retain (\<lambda>t. saturating_sub now t \<le> window g) (seen g)) < REPLAY_CAP"
proof -
  have d: "distinct (map fst (seen g))" using assms by (simp add: guard_wf_def)
  have "fst (check_and_record g n now) \<longleftrightarrow>
      map_of (retain (\<lambda>t. saturating_sub now t \<le> window g) (seen g)) n = None \<and>
      length (retain (\<lambda>t. saturating_sub now t \<le> window g) (seen g)) < REPLAY_CAP"
    by (simp add: check_and_record_def Let_def not_le)
  then show ?thesis
    by (simp only: map_of_retain_None[OF d] time_simps not_le)
qed

lemma guard_run_wf:
  "guard_wf (replay v) \<Longrightarrow>
     guard_wf (replay (foldl (\<lambda>v e. snd (verifier_check C v (fst e) (snd e))) v es))"
proof (induction es arbitrary: v)
  case (Cons e es)
  obtain b v' where c: "verifier_check C v (fst e) (snd e) = (b, v')" by fastforce
  with Cons.IH[of v'] verifier.wf_check[OF Cons.prems c] show ?case by simp
qed simp

lemma accepted_in_window:
  assumes "aead_lawful C" "length nonce = 12" "verifier_for C p pub v"
    and "fst (verifier_check C v (seal_at C p pub port ts nonce) now)"
  shows "unat (abs_diff now ts) \<le> unat (window (replay v))"
  using assms(4) check_sealed[OF assms(1-3)]
  by (auto simp: word_less_nat_alt split: if_splits)

lemma verifier_for_check:
  "verifier_for C p pub v \<Longrightarrow> verifier_check C v k now = (b, v') \<Longrightarrow>
     verifier_for C p pub v' \<and> window (replay v') = window (replay v)"
  using check_and_record_wf[of "replay v" "packet_nonce k" now]
    check_and_record_window[of "replay v" "packet_nonce k" now]
  by (cases rule: verifier_check_cases[of C v k now]) (auto simp: verifier_for_def)

lemma run_accepted_in_window:
  "aead_lawful C \<Longrightarrow> length nonce = 12 \<Longrightarrow> verifier_for C p pub v \<Longrightarrow> i < length es \<Longrightarrow>
     fst (es ! i) = seal_at C p pub port ts nonce \<Longrightarrow> run_checks (verifier_check C) v es ! i \<Longrightarrow>
     unat (abs_diff (snd (es ! i)) ts) \<le> unat (window (replay v))"
proof (induction es arbitrary: v i)
  case (Cons e es)
  obtain b v' where c: "verifier_check C v (fst e) (snd e) = (b, v')" by fastforce
  show ?case
  proof (cases i)
    case 0
    with Cons.prems c accepted_in_window[OF Cons.prems(1-3), of port ts "snd e"] show ?thesis by simp
  next
    case (Suc j)
    with Cons.prems c Cons.IH[of v' j] verifier_for_check[OF Cons.prems(3) c] show ?thesis by simp
  qed
qed simp

section \<open>Properties\<close>

text \<open>
  C1: a packet is accepted exactly when it is a knock sealed with the shared key for this
  server, stamped within the window of the server's clock, with a nonce that the cache has
  not seen within the window and room left in the cache; the knock returned carries the
  sealed port.
\<close>

theorem knock_acceptance_exact:
  assumes "aead_lawful C" "aead_authentic C" "verifier_for C p pub v"
  shows "(\<exists>v'. verifier_open C v packet now = Returns (Inr \<lparr>tunnel_port = port\<rparr>, v')) \<longleftrightarrow>
    (\<exists>ts nonce. length nonce = 12 \<and> packet = seal_at C p pub port ts nonce \<and>
       unat (abs_diff now ts) \<le> unat (window (replay v)) \<and>
       (\<forall>t. map_of (seen (replay v)) nonce = Some t \<longrightarrow> unat (window (replay v)) < unat now - unat t) \<and>
       length (retain (\<lambda>t. saturating_sub now t \<le> window (replay v)) (seen (replay v))) < REPLAY_CAP)"
    (is "?accepted \<longleftrightarrow> ?sealed")
proof
  have wf: "guard_wf (replay v)" using assms(3) by (simp add: verifier_for_def)
  assume ?accepted
  then obtain v' where "verifier_open C v packet now = Returns (Inr \<lparr>tunnel_port = port\<rparr>, v')" by blast
  from verifier_open_sound[OF assms this] obtain ts nonce g where
    "length nonce = 12" "packet = seal_at C p pub port ts nonce"
    "unat (abs_diff now ts) \<le> unat (window (replay v))"
    and "check_and_record (replay v) nonce now = (True, g)" by auto
  moreover from this(4) have "fst (check_and_record (replay v) nonce now)" by simp
  ultimately show ?sealed using check_and_record_fresh[OF wf] by blast
next
  have wf: "guard_wf (replay v)" using assms(3) by (simp add: verifier_for_def)
  assume ?sealed
  then obtain ts nonce where s: "length nonce = 12" "packet = seal_at C p pub port ts nonce"
    "unat (abs_diff now ts) \<le> unat (window (replay v))" and "fst (check_and_record (replay v) nonce now)"
    unfolding check_and_record_fresh[OF wf] by blast
  moreover from this(4) obtain g where "check_and_record (replay v) nonce now = (True, g)"
    by (cases "check_and_record (replay v) nonce now") auto
  ultimately show ?accepted
    by (auto simp: open_sealed[OF assms(1) s(1) assms(3)] word_less_nat_alt)
qed

lemma accepted_never_again:
  assumes "aead_lawful C" "verifier_for C p pub v" "length nonce = 12"
    and "sorted (map (\<lambda>e. unat (snd e)) es)" "i < j" "j < length es"
    and "fst (es ! i) = seal_at C p pub port ts nonce" "fst (es ! j) = fst (es ! i)"
    and "unat ts \<le> unat (snd (es ! i))"
    and "run_checks (verifier_check C) v es ! i"
  shows "\<not> run_checks (verifier_check C) v es ! j"
proof
  assume again: "run_checks (verifier_check C) v es ! j"
  have "unat (abs_diff (snd (es ! j)) ts) \<le> unat (window (replay v))"
    using run_accepted_in_window[OF assms(1,3,2,6) _ again] assms(7,8) by simp
  then have last: "unat (snd (es ! j)) \<le> unat ts + unat (window (replay v))"
    by (simp add: time_simps)
  have "unat (snd (es ! m)) - unat (snd (es ! i)) \<le> unat (window (replay v))" if "i < m \<and> m \<le> j" for m
  proof -
    have "unat (snd (es ! m)) \<le> unat (snd (es ! j))"
      using assms(4,6) that sorted_nth_mono[of "map (\<lambda>e. unat (snd e)) es" m j] by simp
    with last assms(9) show ?thesis by linarith
  qed
  then have "\<not> run_checks (verifier_check C) v es ! j"
    using assms by (intro verifier.no_double_acceptance[of v i j es C]) (auto simp: verifier_for_def)
  with again show False by simp
qed

text \<open>
  C2: once a knock whose timestamp is not ahead of the server's clock has been accepted, the
  same packet is never accepted again, whatever else arrives, as long as the clock does not
  run backwards.
\<close>

theorem knock_never_replayed:
  assumes "aead_lawful C" "verifier_for C p pub v" "length nonce = 12"
    and "sorted (map (\<lambda>e. unat (snd e)) es)" "i < j" "j < length es"
    and "fst (es ! i) = seal_at C p pub port ts nonce" "fst (es ! j) = fst (es ! i)"
    and "unat ts \<le> unat (snd (es ! i))"
    and "run_checks (verifier_check C) v es ! i"
  shows "\<not> run_checks (verifier_check C) v es ! j"
  by (rule accepted_never_again[OF assms])

text \<open>
  A verifier, a packet and a second server key to apply the properties to: the shared key is
  32 bytes of 5, the window the default one.
\<close>

definition sample_psk :: psk where
  "sample_psk = Psk (replicate 32 5)"

definition sample_server :: public_key where
  "sample_server = PublicKey (replicate 32 7)"

definition sample_verifier :: knock_verifier where
  "sample_verifier = verifier_new toy_crypto sample_psk sample_server DEFAULT_WINDOW_SECS"

definition sample_packet :: "u64 \<Rightarrow> bytes" where
  "sample_packet ts = seal_at toy_crypto sample_psk sample_server 8443 ts (replicate 12 1)"

lemma sample_verifier_for: "verifier_for toy_crypto sample_psk sample_server sample_verifier"
  by (simp add: sample_verifier_def)

lemma sample_replay: "replay sample_verifier = replay_guard_new 30"
  by (simp add: sample_verifier_def verifier_new_def DEFAULT_WINDOW_SECS_def)

lemma sample_check:
  "verifier_check toy_crypto sample_verifier (sample_packet ts) now =
     (if 30 < abs_diff now ts then (False, sample_verifier)
      else (True, sample_verifier\<lparr>replay := \<lparr>seen = [(replicate 12 1, now)], window = 30\<rparr>\<rparr>))"
  by (simp add: sample_packet_def check_sealed[OF toy_aead_lawful _ sample_verifier_for]
      sample_replay check_and_record_def Let_def replay_guard_new_def REPLAY_CAP_def del: replicate.simps
      flip: numeral_eq_Suc)

theorem knock_acceptance_exact_witness:
  "\<exists>v'. verifier_open toy_crypto sample_verifier (sample_packet 1000) 1005 =
     Returns (Inr \<lparr>tunnel_port = 8443\<rparr>, v')"
  unfolding knock_acceptance_exact[OF toy_aead_lawful toy_aead_authentic sample_verifier_for]
  by (intro exI[of _ 1000] exI[of _ "replicate 12 1"])
     (simp add: sample_packet_def sample_replay replay_guard_new_def REPLAY_CAP_def unat_abs_diff)

theorem knock_never_replayed_witness:
  "\<not> run_checks (verifier_check toy_crypto) sample_verifier
        [(sample_packet 1000, 1005), (sample_packet 1000, 1006)] ! 1"
  by (rule knock_never_replayed[OF toy_aead_lawful sample_verifier_for, where i = 0 and ts = 1000
        and port = 8443 and nonce = "replicate 12 1"])
     (simp_all add: sample_packet_def [symmetric] sample_check abs_diff_def)

text \<open>
  C39: the freshness window reaches \<open>window\<close> seconds into the future but a nonce is kept for
  only \<open>window\<close> seconds after its arrival. A knock stamped \<open>window\<close> seconds ahead of the
  server's clock is accepted on arrival, and the very same packet is accepted once more
  \<open>window + 1\<close> seconds later.
\<close>

theorem future_knock_accepted_twice:
  assumes "aead_lawful C" "length nonce = 12" "0 < w" "unat now + 2 * unat w < 2 ^ 64"
  shows "let packet = seal_at C p pub port (now + w) nonce in
    run_checks (verifier_check C) (verifier_new C p pub w) [(packet, now), (packet, now + w + 1)]
      = [True, True]"
proof -
  define packet where "packet = seal_at C p pub port (now + w) nonce"
  have w: "0 < unat w" using assms(3) by (simp add: word_less_nat_alt)
  have n1: "unat (now + w) = unat now + unat w"
    using assms(4) by (simp add: unat_word_ariths)
  have n2: "unat (now + w + 1) = unat now + unat w + 1"
    using assms(4) w n1 by (simp add: unat_word_ariths)
  have fresh: "\<not> w < abs_diff now (now + w)" "\<not> w < abs_diff (now + w + 1) (now + w)"
    using n1 n2 w by (simp_all add: time_simps del: word_add_def)
  have gone: "\<not> saturating_sub (now + w + 1) now \<le> w"
    using n1 n2 by (simp add: time_simps)
  let ?v = "verifier_new C p pub w"
  let ?g = "\<lparr>seen = [(nonce, now)], window = w\<rparr>"
  have r: "replay ?v = replay_guard_new w" by (simp add: verifier_new_def)
  have "check_and_record (replay_guard_new w) nonce now = (True, ?g)"
    by (simp add: check_and_record_def Let_def replay_guard_new_def REPLAY_CAP_def)
  then have 1: "verifier_check C ?v packet now = (True, ?v\<lparr>replay := ?g\<rparr>)"
    using fresh(1) unfolding packet_def
    by (simp add: check_sealed[OF assms(1,2)] r) (simp add: replay_guard_new_def)
  have v: "verifier_for C p pub (?v\<lparr>replay := ?g\<rparr>)"
    by (simp add: verifier_for_def verifier_new_def guard_wf_def REPLAY_CAP_def)
  have "fst (check_and_record ?g nonce (now + w + 1))"
    using gone by (simp add: check_and_record_def Let_def retain_def REPLAY_CAP_def)
  then have "fst (verifier_check C (?v\<lparr>replay := ?g\<rparr>) packet (now + w + 1))"
    using fresh(2) unfolding packet_def check_sealed[OF assms(1,2) v]
    by (auto split: prod.splits)
  with 1 show ?thesis by (auto simp: packet_def [symmetric] split: prod.splits)
qed

theorem future_knock_accepted_twice_witness:
  "let packet = seal_at toy_crypto sample_psk sample_server 8443 (1000 + 30) (replicate 12 1) in
   run_checks (verifier_check toy_crypto) (verifier_new toy_crypto sample_psk sample_server 30)
     [(packet, 1000), (packet, 1000 + 30 + 1)] = [True, True]"
  by (rule future_knock_accepted_twice[OF toy_aead_lawful]) simp_all

text \<open>
  C37: The verifier never panics, and only a knock that the shared key opens for this server, of
  this version and stamped within the window, can change anything: every other packet, of the
  wrong length, with the wrong magic, that the key does not open, of another version or stale, is
  refused and leaves the verifier as it was. The key, the associated data and the window are never
  changed.
\<close>

theorem verifier_open_total:
  assumes "aead_lawful C"
  shows "\<exists>r v'. verifier_open C v packet now = Returns (r, v') \<and>
     cipher v' = cipher v \<and> aad v' = aad v \<and> window (replay v') = window (replay v) \<and>
     ((\<exists>e. r = Inl e) \<and> v' = v \<or>
      length packet = 44 \<and> take 4 packet = MAGIC \<and>
      (\<exists>m. aead_open C (cipher v) (take 12 (drop 4 packet)) (aad v) (drop 16 packet) = Some m \<and>
         of_be16 (take 2 m) = PROTOCOL_VERSION \<and>
         unat (abs_diff now (of_be64 (take 8 (drop 2 m)))) \<le> unat (window (replay v))))"
proof (cases "length packet = 44 \<and> take 4 packet = MAGIC")
  case False
  then have "\<exists>e. verifier_open C v packet now = Returns (Inl e, v)" by (auto simp: verifier_open_eq[OF assms])
  then show ?thesis by force
next
  case True
  show ?thesis
  proof (cases "aead_open C (cipher v) (packet_nonce packet) (aad v) (drop 16 packet)")
    case None
    with True have "verifier_open C v packet now = Returns (Inl Unauthorized, v)" by (simp add: verifier_open_eq[OF assms])
    then show ?thesis by force
  next
    case (Some m)
    have o: "verifier_open C v packet now = open_plaintext v (packet_nonce packet) m now"
      using True Some by (simp add: verifier_open_eq[OF assms])
    have m: "length m = 12" using opened_length[OF assms _ Some] True by blast
    show ?thesis
    proof (cases "of_be16 (take 2 m) = PROTOCOL_VERSION \<and> \<not> window (replay v) < abs_diff now (of_be64 (take 8 (drop 2 m)))")
      case False
      then have "\<exists>e. verifier_open C v packet now = Returns (Inl e, v)" unfolding o open_plaintext_eq[OF m] by auto
      then show ?thesis by force
    next
      case fresh: True
      obtain b g where g: "check_and_record (replay v) (packet_nonce packet) now = (b, g)" by fastforce
      have "\<exists>r. verifier_open C v packet now = Returns (r, v\<lparr>replay := g\<rparr>)"
        using fresh unfolding o open_plaintext_eq[OF m] g by auto
      moreover have "window g = window (replay v)" using g by (auto simp: check_and_record_def Let_def split: if_splits)
      moreover have "unat (abs_diff now (of_be64 (take 8 (drop 2 m)))) \<le> unat (window (replay v))"
        using fresh by (simp only: not_less word_le_nat_alt)
      ultimately show ?thesis using True Some[unfolded packet_nonce_def] fresh by force
    qed
  qed
qed

theorem verifier_open_total_witness:
  "(\<exists>r v'. verifier_open toy_crypto sample_verifier (replicate 44 0) 1000 = Returns (r, v') \<and> v' = sample_verifier) \<and>
   (\<exists>r v'. verifier_open toy_crypto sample_verifier (MAGIC @ replicate 40 0) 1000 = Returns (r, v') \<and> v' = sample_verifier)"
proof -
  have "take 4 (replicate 44 (0 :: byte)) \<noteq> MAGIC" by code_simp
  moreover have "aead_open toy_crypto (cipher sample_verifier) (take 12 (drop 4 (MAGIC @ replicate 40 0))) (aad sample_verifier)
      (drop 16 (MAGIC @ replicate 40 0)) = None" by code_simp
  ultimately show ?thesis
    using verifier_open_total[OF toy_aead_lawful, of sample_verifier "replicate 44 0" 1000]
      verifier_open_total[OF toy_aead_lawful, of sample_verifier "MAGIC @ replicate 40 0" 1000] by auto
qed

text \<open>
  Whatever packets arrive, the replay cache holds at most 4096 nonces, each once.
\<close>

theorem replay_cache_bounded:
  "length (seen (replay (foldl (\<lambda>v e. snd (verifier_check C v (fst e) (snd e)))
       (verifier_new C p pub w) es))) \<le> 4096 \<and>
   distinct (map fst (seen (replay (foldl (\<lambda>v e. snd (verifier_check C v (fst e) (snd e)))
       (verifier_new C p pub w) es))))"
  using guard_run_wf[of "verifier_new C p pub w" C es]
  by (simp add: guard_wf_def REPLAY_CAP_def verifier_new_def replay_guard_new_def)

definition aead_binds :: "crypto \<Rightarrow> bytes set \<Rightarrow> bool" where
  "aead_binds C A \<longleftrightarrow>
     (\<forall>k n m. \<forall>a \<in> A. \<forall>a' \<in> A. a \<noteq> a' \<longrightarrow> aead_open C k n a' (aead_seal C k n a m) = None)"

text \<open>
  A knock sealed for one server is refused by every other server of the fleet that shares
  the key, and leaves no trace in its cache. The AEAD is taken to reject a sealed text under
  any other associated data of the fleet.
\<close>

theorem knock_bound_to_server:
  assumes "aead_lawful C" "aead_binds C (knock_aad ` fleet)"
    and "server_a \<in> fleet" "server_b \<in> fleet" "server_a \<noteq> server_b"
    and "length nonce = 12" "verifier_for C p server_b v"
  shows "verifier_open C v (seal_at C p server_a port ts nonce) now = Returns (Inl Unauthorized, v)"
proof -
  have "knock_aad server_a \<noteq> knock_aad server_b"
    using assms(5) by (cases server_a; cases server_b) (simp add: knock_aad_def)
  then have "aead_open C k n (knock_aad server_b) (aead_seal C k n (knock_aad server_a) m) = None" for k n m
    using assms(2-4) by (auto simp: aead_binds_def)
  then show ?thesis
    using assms(7)
    by (simp add: verifier_open_eq[OF assms(1)] seal_at_parts[OF assms(1,6)] verifier_for_def)
qed

theorem knock_bound_to_server_witness:
  "verifier_open toy_crypto sample_verifier
     (seal_at toy_crypto sample_psk (PublicKey (replicate 32 9)) 8443 1000 (replicate 12 1)) 1000
   = Returns (Inl Unauthorized, sample_verifier)"
proof (rule knock_bound_to_server[OF toy_aead_lawful _ _ _ _ _ sample_verifier_for,
      where fleet = "{PublicKey (replicate 32 9), sample_server}"])
  show "aead_binds toy_crypto (knock_aad ` {PublicKey (replicate 32 9), sample_server})"
    by (auto simp: aead_binds_def toy_crypto_def knock_aad_def sample_server_def MAGIC_def tag16_def
        numeral_eq_Suc)
qed (simp_all add: sample_server_def)

end
