(* ===== verification/Noise_Channel.thy ===== *)
theory Noise_Channel
  imports Knock_Auth
begin

text \<open>
  The encrypted channel of \<open>noise.rs\<close>: the handshake messages and their framing, the two
  handshake roles, and the stream adapter \<open>NoiseStream\<close> whose poll functions cut the
  plaintext into length-prefixed sealed frames and reassemble them. The Noise library (the
  handshake state and the two cipher states) is a parameter, the record \<open>noise_lib\<close>.
  The transport under the adapter is a script: the results its polls will give, in order, so
  that every pattern of partial writes, short reads and \<open>Pending\<close> is covered.
\<close>

section \<open>Handshake messages\<close>

definition TAG_LEN :: nat where
  "TAG_LEN = 16"

definition LEN_PREFIX :: nat where
  "LEN_PREFIX = 2"

definition MAX_PLAINTEXT :: nat where
  "MAX_PLAINTEXT = 16384"

definition MAX_CIPHERTEXT :: nat where
  "MAX_CIPHERTEXT = MAX_PLAINTEXT + TAG_LEN"

definition MAX_HANDSHAKE_MSG :: nat where
  "MAX_HANDSHAKE_MSG = 4096"

definition prologue :: bytes where
  "prologue = map (\<lambda>c. word_of_nat (of_char c)) ''hyperion-vpn'' @ be16 PROTOCOL_VERSION"

definition write_handshake_msg :: "bytes \<Rightarrow> unit io" where
  "write_handshake_msg msg =
     (if MAX_HANDSHAKE_MSG < length msg
      then io_fail (Protocol ''handshake message too large'')
      else io_bind (write_all (be16 (word_of_nat (length msg)))) (\<lambda>_.
           io_bind (write_all msg) (\<lambda>_.
           io_bind flush (\<lambda>_.
           io_return ()))))"

definition read_handshake_msg :: "bytes io" where
  "read_handshake_msg =
     io_bind (read_exact LEN_PREFIX) (\<lambda>l.
     let len = unat (of_be16 l) in
     if len = 0 \<or> MAX_HANDSHAKE_MSG < len
     then io_fail (Protocol ''invalid handshake length'')
     else io_bind (read_exact len) (\<lambda>buf. io_return buf))"

definition handshake_msg_ok :: "bytes \<Rightarrow> bool" where
  "handshake_msg_ok msg \<longleftrightarrow> 0 < length msg \<and> length msg \<le> 4096"

definition handshake_frame :: "bytes \<Rightarrow> bytes" where
  "handshake_frame msg = be16 (word_of_nat (length msg)) @ msg"

lemma unat_frame_len: "n < 65536 \<Longrightarrow> unat (of_be16 (be16 (word_of_nat n))) = n"
  by (simp add: unat_of_nat)

lemma read_handshake_msg_at:
  "handshake_msg_ok msg \<Longrightarrow> incoming c = handshake_frame msg @ rest \<Longrightarrow>
     read_handshake_msg c = (Done msg, c\<lparr>incoming := rest\<rparr>)"
  by (simp add: read_handshake_msg_def handshake_frame_def handshake_msg_ok_def io_bind_def
      io_return_def read_exact_def LEN_PREFIX_def MAX_HANDSHAKE_MSG_def unat_of_nat Let_def)

lemma read_handshake_msg_Done:
  assumes "read_handshake_msg c = (Done msg, c')"
  shows "handshake_msg_ok msg \<and> incoming c = handshake_frame msg @ incoming c'"
proof -
  let ?n = "unat (of_be16 (take 2 (incoming c)))"
  from assms have len: "2 \<le> length (incoming c)" "?n \<le> length (incoming c) - 2" "?n \<noteq> 0" "?n \<le> 4096"
    and m: "msg = take ?n (drop 2 (incoming c))" and c': "incoming c' = drop ?n (drop 2 (incoming c))"
    by (auto simp: read_handshake_msg_def io_bind_Done_iff read_exact_Done_iff io_return_def
          io_fail_def Let_def LEN_PREFIX_def MAX_HANDSHAKE_MSG_def split: if_splits)
  have "length msg = ?n" using m len by simp
  moreover from this have "be16 (word_of_nat (length msg)) = take 2 (incoming c)"
    using len(1) by (simp add: u16_field.enc_dec)
  moreover have "incoming c = take 2 (incoming c) @ take ?n (drop 2 (incoming c)) @
      drop ?n (drop 2 (incoming c))"
    by (simp only: append_take_drop_id)
  ultimately have "incoming c = handshake_frame msg @ incoming c'"
    unfolding handshake_frame_def m c' by simp
  then show ?thesis
    using len \<open>length msg = ?n\<close> by (simp add: handshake_msg_ok_def)
qed

lemma read_handshake_msg_cut:
  assumes ok: "handshake_msg_ok msg" and cut: "strict_prefix (incoming c) (handshake_frame msg)"
    and eof: "incoming_end c = EndEof"
  shows "fst (read_handshake_msg c) = Failed (Io UnexpectedEof)"
proof (cases "length (incoming c) < 2")
  case True
  with eof show ?thesis by (simp add: read_handshake_msg_def io_simps LEN_PREFIX_def)
next
  case False
  from cut obtain zs where zs: "handshake_frame msg = incoming c @ zs" "zs \<noteq> []"
    by (auto simp: strict_prefix_def prefix_def)
  have "take 2 (handshake_frame msg) = be16 (word_of_nat (length msg))"
    by (simp add: handshake_frame_def)
  then have "take 2 (incoming c) = be16 (word_of_nat (length msg))"
    using False zs(1) by simp
  moreover have "length (handshake_frame msg) = length (incoming c) + length zs"
    unfolding zs(1) by simp
  then have "\<not> length msg \<le> length (incoming c) - 2"
    using zs(2) False by (cases zs) (simp_all add: handshake_frame_def)
  ultimately show ?thesis
    using ok False eof
    by (simp add: read_handshake_msg_def io_bind_def read_exact_def LEN_PREFIX_def Let_def
        handshake_msg_ok_def MAX_HANDSHAKE_MSG_def unat_of_nat)
qed

interpretation handshake: wire_channel handshake_msg_ok handshake_frame read_handshake_msg
  write_handshake_msg
proof unfold_locales
  fix m and c :: conn
  assume "handshake_msg_ok m" "sends_ok c"
  then show "write_handshake_msg m c = (Done (), c\<lparr>sent := sent c @ handshake_frame m\<rparr>)"
    by (simp add: write_handshake_msg_def handshake_msg_ok_def handshake_frame_def
        MAX_HANDSHAKE_MSG_def io_bind_def io_return_def write_all_ok flush_ok)
qed (auto simp: read_handshake_msg_at read_handshake_msg_cut dest: read_handshake_msg_Done)

section \<open>The handshake\<close>

record ('st, 'c) noise_lib =
  hs_init :: "bool \<Rightarrow> bytes \<Rightarrow> bytes \<Rightarrow> bytes option \<Rightarrow> bytes \<Rightarrow> 'st"
  hs_write :: "'st \<Rightarrow> ('st \<times> bytes) option"
  hs_read :: "'st \<Rightarrow> bytes \<Rightarrow> ('st \<times> bytes) option"
  hs_get_rs :: "'st \<Rightarrow> bytes option"
  hs_completed :: "'st \<Rightarrow> bool"
  hs_ciphers :: "'st \<Rightarrow> 'c \<times> 'c"
  encrypt :: "'c \<Rightarrow> bytes \<Rightarrow> 'c \<times> bytes"
  decrypt :: "'c \<Rightarrow> bytes \<Rightarrow> 'c \<times> bytes option"

record client_handshake =
  ch_static_secret :: secret_key
  ch_server_pubkey :: public_key
  ch_psk :: psk

record server_handshake =
  sh_static_secret :: secret_key
  sh_psk :: psk
  sh_allowed_admins :: "public_key list"

record 'c noise_stream =
  send :: 'c
  recv :: 'c
  write_pending :: bytes
  write_off :: nat
  read_raw :: bytes
  read_plain :: bytes
  read_off :: nat
  read_target :: nat
  have_len :: bool

definition noise_stream_new :: "'c \<Rightarrow> 'c \<Rightarrow> 'c noise_stream" where
  "noise_stream_new s r =
     \<lparr>send = s, recv = r, write_pending = [], write_off = 0, read_raw = [], read_plain = [],
      read_off = 0, read_target = 0, have_len = False\<rparr>"

definition connect :: "('st, 'c) noise_lib \<Rightarrow> client_handshake \<Rightarrow> 'c noise_stream io" where
  "connect L hs =
     (let st = hs_init L True prologue (secret_bytes (ch_static_secret hs))
                 (Some (public_bytes (ch_server_pubkey hs))) (psk_bytes (ch_psk hs)) in
      case hs_write L st of
        None \<Rightarrow> io_fail Handshake
      | Some (st1, msg1) \<Rightarrow>
          io_bind (write_handshake_msg msg1) (\<lambda>_.
          io_bind read_handshake_msg (\<lambda>msg2.
          case hs_read L st1 msg2 of
            None \<Rightarrow> io_fail Handshake
          | Some (st2, _) \<Rightarrow>
              if \<not> hs_completed L st2 then io_fail Handshake
              else (case hs_ciphers L st2 of (i2r, r2i) \<Rightarrow> io_return (noise_stream_new i2r r2i)))))"

definition accept ::
    "('st, 'c) noise_lib \<Rightarrow> server_handshake \<Rightarrow> ('c noise_stream \<times> public_key) io" where
  "accept L hs =
     (let st = hs_init L False prologue (secret_bytes (sh_static_secret hs)) None
                 (psk_bytes (sh_psk hs)) in
      io_bind read_handshake_msg (\<lambda>msg1.
      case hs_read L st msg1 of
        None \<Rightarrow> io_fail Handshake
      | Some (st1, _) \<Rightarrow>
          (case hs_get_rs L st1 of
             None \<Rightarrow> io_fail Handshake
           | Some rs \<Rightarrow>
               let admin = PublicKey rs in
               if admin \<notin> set (sh_allowed_admins hs) then io_fail Unauthorized
               else (case hs_write L st1 of
                       None \<Rightarrow> io_fail Handshake
                     | Some (st2, msg2) \<Rightarrow>
                         io_bind (write_handshake_msg msg2) (\<lambda>_.
                         if \<not> hs_completed L st2 then io_fail Handshake
                         else (case hs_ciphers L st2 of
                                 (i2r, r2i) \<Rightarrow> io_return (noise_stream_new r2i i2r, admin)))))))"

section \<open>The transport under the adapter\<close>

datatype 'a poll = Pending | Ready "io_error + 'a"

datatype wpoll = WPending | WReady nat | WError io_error

datatype rpoll = RPending | RData bytes | RError io_error

record transport =
  wscript :: "wpoll list"
  wire :: bytes
  rscript :: "rpoll list"

text \<open>A script that has run out is pending for good. A write takes at most what it is offered.\<close>

definition inner_write :: "transport \<Rightarrow> bytes \<Rightarrow> nat poll \<times> transport" where
  "inner_write t buf =
     (case wscript t of
        [] \<Rightarrow> (Pending, t)
      | WPending # ws \<Rightarrow> (Pending, t\<lparr>wscript := ws\<rparr>)
      | WError e # ws \<Rightarrow> (Ready (Inl e), t\<lparr>wscript := ws\<rparr>)
      | WReady n # ws \<Rightarrow>
          (Ready (Inr (min n (length buf))),
           t\<lparr>wscript := ws, wire := wire t @ take (min n (length buf)) buf\<rparr>))"

definition READ_BUF :: nat where
  "READ_BUF = 8192"

definition inner_read :: "transport \<Rightarrow> bytes poll \<times> transport" where
  "inner_read t =
     (case rscript t of
        [] \<Rightarrow> (Pending, t)
      | RPending # rs \<Rightarrow> (Pending, t\<lparr>rscript := rs\<rparr>)
      | RError e # rs \<Rightarrow> (Ready (Inl e), t\<lparr>rscript := rs\<rparr>)
      | RData bs # rs \<Rightarrow>
          (Ready (Inr (take READ_BUF bs)),
           t\<lparr>rscript := (if length bs \<le> READ_BUF then rs else RData (drop READ_BUF bs) # rs)\<rparr>))"

section \<open>Writing\<close>

type_synonym ('a, 'c) polled = "'a poll \<times> 'c noise_stream \<times> transport"

function poll_flush_pending :: "'c noise_stream \<Rightarrow> transport \<Rightarrow> (unit, 'c) polled" where
  "poll_flush_pending s t =
     (if write_off s < length (write_pending s)
      then (case inner_write t (drop (write_off s) (write_pending s)) of
              (Pending, t') \<Rightarrow> (Pending, s, t')
            | (Ready (Inl e), t') \<Rightarrow> (Ready (Inl e), s, t')
            | (Ready (Inr n), t') \<Rightarrow>
                if n = 0 then (Ready (Inl WriteZero), s, t')
                else poll_flush_pending (s\<lparr>write_off := write_off s + n\<rparr>) t')
      else (Ready (Inr ()), s\<lparr>write_pending := [], write_off := 0\<rparr>, t))"
  by pat_completeness auto
termination
  by (relation "measure (\<lambda>(s, t). length (write_pending s) - write_off s)") auto

declare poll_flush_pending.simps [simp del]

definition poll_write ::
    "('st, 'c) noise_lib \<Rightarrow> 'c noise_stream \<Rightarrow> transport \<Rightarrow> bytes \<Rightarrow> (nat, 'c) polled" where
  "poll_write L s t buf =
     (if buf = [] then (Ready (Inr 0), s, t) else
      case poll_flush_pending s t of
        (Pending, s1, t1) \<Rightarrow> (Pending, s1, t1)
      | (Ready (Inl e), s1, t1) \<Rightarrow> (Ready (Inl e), s1, t1)
      | (Ready (Inr _), s1, t1) \<Rightarrow>
          let n = min (length buf) MAX_PLAINTEXT in
          case encrypt L (send s1) (take n buf) of (c', ciphertext) \<Rightarrow>
          let frame = be16 (word_of_nat (length ciphertext)) @ ciphertext;
              s2 = s1\<lparr>send := c', write_pending := frame, write_off := 0\<rparr> in
          (case poll_flush_pending s2 t1 of
             (Ready (Inl e), s3, t3) \<Rightarrow> (Ready (Inl e), s3, t3)
           | (_, s3, t3) \<Rightarrow> (Ready (Inr n), s3, t3)))"

text \<open>Flush and shutdown hand over to the transport's own flush or shutdown, whose result is given.\<close>

definition poll_flush :: "'c noise_stream \<Rightarrow> transport \<Rightarrow> unit poll \<Rightarrow> (unit, 'c) polled" where
  "poll_flush s t inner_flush =
     (case poll_flush_pending s t of
        (Pending, s1, t1) \<Rightarrow> (Pending, s1, t1)
      | (Ready (Inl e), s1, t1) \<Rightarrow> (Ready (Inl e), s1, t1)
      | (Ready (Inr _), s1, t1) \<Rightarrow> (inner_flush, s1, t1))"

definition poll_shutdown :: "'c noise_stream \<Rightarrow> transport \<Rightarrow> unit poll \<Rightarrow> (unit, 'c) polled" where
  "poll_shutdown s t inner_shutdown =
     (case poll_flush_pending s t of
        (Pending, s1, t1) \<Rightarrow> (Pending, s1, t1)
      | (Ready (Inl e), s1, t1) \<Rightarrow> (Ready (Inl e), s1, t1)
      | (Ready (Inr _), s1, t1) \<Rightarrow> (inner_shutdown, s1, t1))"

section \<open>Reading\<close>

function poll_fill :: "'c noise_stream \<Rightarrow> transport \<Rightarrow> nat \<Rightarrow> (bool, 'c) polled" where
  "poll_fill s t n =
     (if length (read_raw s) < n
      then (case inner_read t of
              (Pending, t') \<Rightarrow> (Pending, s, t')
            | (Ready (Inl e), t') \<Rightarrow> (Ready (Inl e), s, t')
            | (Ready (Inr filled), t') \<Rightarrow>
                if filled = [] then (Ready (Inr False), s, t')
                else poll_fill (s\<lparr>read_raw := read_raw s @ filled\<rparr>) t' n)
      else (Ready (Inr True), s, t))"
  by pat_completeness auto
termination
  by (relation "measure (\<lambda>(s, t, n). n - length (read_raw s))") (auto simp: neq_Nil_conv)

declare poll_fill.simps [simp del]


text \<open>
  What is still to come from the transport, as bytes. Filling only moves bytes from the script
  to the raw buffer, so the two together never change.
\<close>

definition chunk :: "rpoll \<Rightarrow> bytes" where
  "chunk r = (case r of RData bs \<Rightarrow> bs | _ \<Rightarrow> [])"

definition script_bytes :: "transport \<Rightarrow> bytes" where
  "script_bytes t = concat (map chunk (rscript t))"

definition quiet :: "transport \<Rightarrow> bool" where
  "quiet t \<longleftrightarrow> list_all (\<lambda>r. case r of RPending \<Rightarrow> True | RData bs \<Rightarrow> bs \<noteq> [] | RError e \<Rightarrow> False) (rscript t)"

definition prompt :: "transport \<Rightarrow> bool" where
  "prompt t \<longleftrightarrow> RPending \<notin> set (rscript t)"

lemma inner_read_cases:
  assumes "inner_read t = (r, t')"
  obtains
    (starved) "r = Pending" "t' = t" "rscript t = []"
  | (pending) rs where "r = Pending" "rscript t = RPending # rs" "t' = t\<lparr>rscript := rs\<rparr>"
  | (error) e rs where "r = Ready (Inl e)" "rscript t = RError e # rs" "t' = t\<lparr>rscript := rs\<rparr>"
  | (data) bs rs where "r = Ready (Inr (take READ_BUF bs))" "rscript t = RData bs # rs"
      "t' = t\<lparr>rscript := (if length bs \<le> READ_BUF then rs else RData (drop READ_BUF bs) # rs)\<rparr>"
  using assms by (auto simp: inner_read_def split: list.splits rpoll.splits)

lemma inner_read_bytes:
  assumes "inner_read t = (r, t')"
  shows "script_bytes t = (case r of Ready (Inr bs) \<Rightarrow> bs | _ \<Rightarrow> []) @ script_bytes t'"
    and "quiet t \<Longrightarrow> quiet t' \<and> r \<noteq> Ready (Inr []) \<and> (\<forall>e. r \<noteq> Ready (Inl e))"
    and "prompt t \<Longrightarrow> prompt t' \<and> (r = Pending \<longrightarrow> rscript t' = [])"
    and "wire t' = wire t \<and> wscript t' = wscript t"
  using assms
  by (cases rule: inner_read_cases;
      auto simp: script_bytes_def chunk_def quiet_def prompt_def READ_BUF_def split: rpoll.splits)+

lemma poll_fill_cases [consumes 1, case_names full stop more]:
  assumes "poll_fill s t n = (r, s', t')"
  obtains
    "n \<le> length (read_raw s)" "r = Ready (Inr True)" "s' = s" "t' = t"
  | q where "length (read_raw s) < n" "inner_read t = (q, t')" "s' = s"
      "q = Pending \<and> r = Pending \<or> (\<exists>e. q = Ready (Inl e) \<and> r = Ready (Inl e)) \<or>
       q = Ready (Inr []) \<and> r = Ready (Inr False)"
  | ys u where "length (read_raw s) < n" "inner_read t = (Ready (Inr ys), u)" "ys \<noteq> []"
      "poll_fill (s\<lparr>read_raw := read_raw s @ ys\<rparr>) u n = (r, s', t')"
  using assms
  by (subst (asm) poll_fill.simps) (auto split: if_splits prod.splits poll.splits sum.splits)

lemma inner_read_chunk: "inner_read t = (Ready (Inr ys), u) \<Longrightarrow> length ys \<le> READ_BUF"
  by (erule inner_read_cases) auto

lemma poll_fill_bytes:
  "poll_fill s t n = (r, s', t') \<Longrightarrow>
     \<exists>xs. s' = s\<lparr>read_raw := read_raw s @ xs\<rparr> \<and> script_bytes t = xs @ script_bytes t' \<and>
       (xs = [] \<or> length (read_raw s @ xs) < n + READ_BUF)"
proof (induction s t n rule: poll_fill.induct)
  case (1 s t n)
  from "1.prems" show ?case
  proof (cases rule: poll_fill_cases)
    case full
    then show ?thesis by (intro exI[of _ "[]"]) simp
  next
    case (stop q)
    with inner_read_bytes(1)[OF stop(2)] show ?thesis by (intro exI[of _ "[]"]) auto
  next
    case (more ys u)
    from "1.IH"[OF more(1) more(2)[symmetric] refl refl more(3,4)] obtain zs where
      zs: "s' = s\<lparr>read_raw := read_raw s @ ys @ zs\<rparr>" "script_bytes u = zs @ script_bytes t'"
        "zs = [] \<or> length (read_raw s @ ys @ zs) < n + READ_BUF" by auto
    with inner_read_bytes(1)[OF more(2)] inner_read_chunk[OF more(2)] more(1)
    show ?thesis by (intro exI[of _ "ys @ zs"]) auto
  qed
qed

lemma poll_fill_result:
  "poll_fill s t n = (r, s', t') \<Longrightarrow>
     (r = Ready (Inr True) \<longleftrightarrow> n \<le> length (read_raw s')) \<and>
     (quiet t \<longrightarrow> quiet t' \<and> r \<noteq> Ready (Inr False) \<and> (\<forall>e. r \<noteq> Ready (Inl e))) \<and>
     (prompt t \<longrightarrow> prompt t' \<and> (r = Pending \<longrightarrow> rscript t' = [])) \<and>
     wire t' = wire t \<and> wscript t' = wscript t"
proof (induction s t n rule: poll_fill.induct)
  case (1 s t n)
  from "1.prems" show ?case
  proof (cases rule: poll_fill_cases)
    case full
    then show ?thesis by simp
  next
    case (stop q)
    with inner_read_bytes(2-4)[OF stop(2)] show ?thesis by auto
  next
    case (more ys u)
    from "1.IH"[OF more(1) more(2)[symmetric] refl refl more(3,4)] inner_read_bytes(2-4)[OF more(2)]
    show ?thesis by auto
  qed
qed

section \<open>Reading a frame\<close>

type_synonym ('a, 'c) loop = "('a, 'c) polled + 'c noise_stream \<times> transport"

text \<open>
  One turn of the read loop in two steps, the length prefix and the frame itself. \<open>Inl\<close> is a
  return from \<open>poll_read\<close>, \<open>Inr\<close> goes on; indexing and slicing may panic.
\<close>

definition read_len :: "'c noise_stream \<Rightarrow> transport \<Rightarrow> (bytes, 'c) loop rust" where
  "read_len s t =
     (if have_len s then Returns (Inr (s, t)) else
      case poll_fill s t LEN_PREFIX of
        (Pending, s1, t1) \<Rightarrow> Returns (Inl (Pending, s1, t1))
      | (Ready (Inl e), s1, t1) \<Rightarrow> Returns (Inl (Ready (Inl e), s1, t1))
      | (Ready (Inr False), s1, t1) \<Rightarrow> Returns (Inl (Ready (Inr []), s1, t1))
      | (Ready (Inr True), s1, t1) \<Rightarrow>
          rbind (index (read_raw s1) 0) (\<lambda>b0.
          rbind (index (read_raw s1) 1) (\<lambda>b1.
          let len = unat (of_be16 [b0, b1]) in
          if \<not> (TAG_LEN \<le> len \<and> len \<le> MAX_CIPHERTEXT)
          then Returns (Inl (Ready (Inl (InvalidData ''invalid frame length'')), s1, t1))
          else Returns (Inr (s1\<lparr>read_target := LEN_PREFIX + len, have_len := True\<rparr>, t1)))))"

definition decode_frame ::
    "('st, 'c) noise_lib \<Rightarrow> 'c noise_stream \<Rightarrow> (io_error option \<times> 'c noise_stream) rust" where
  "decode_frame L s =
     rbind (slice (read_raw s) LEN_PREFIX (read_target s)) (\<lambda>ct.
     case decrypt L (recv s) ct of
       (c, None) \<Rightarrow> Returns (Some (InvalidData ''decryption failed''), s\<lparr>recv := c\<rparr>)
     | (c, Some plain) \<Rightarrow>
         rbind (slice_from (read_raw s) (read_target s)) (\<lambda>rest.
         Returns (None, s\<lparr>recv := c, read_raw := rest, read_plain := plain, read_off := 0,
                          have_len := False, read_target := 0\<rparr>)))"

definition read_frame ::
    "('st, 'c) noise_lib \<Rightarrow> 'c noise_stream \<Rightarrow> transport \<Rightarrow> (bytes, 'c) loop rust" where
  "read_frame L s t =
     rbind (read_len s t) (\<lambda>k. case k of
        Inl stop \<Rightarrow> Returns (Inl stop)
      | Inr (s1, t1) \<Rightarrow>
          (case poll_fill s1 t1 (read_target s1) of
             (Pending, s2, t2) \<Rightarrow> Returns (Inl (Pending, s2, t2))
           | (Ready (Inl e), s2, t2) \<Rightarrow> Returns (Inl (Ready (Inl e), s2, t2))
           | (Ready (Inr False), s2, t2) \<Rightarrow> Returns (Inl (Ready (Inl UnexpectedEof), s2, t2))
           | (Ready (Inr True), s2, t2) \<Rightarrow>
               rbind (decode_frame L s2) (\<lambda>(failed, s3). case failed of
                 Some e \<Rightarrow> Returns (Inl (Ready (Inl e), s3, t2))
               | None \<Rightarrow> Returns (Inr (s3, t2)))))"

lemma decode_frame_shrinks:
  assumes "decode_frame L s = Returns (None, s')"
  shows "2 \<le> read_target s \<and> read_target s \<le> length (read_raw s) \<and>
    read_raw s' = drop (read_target s) (read_raw s)"
proof -
  from assms obtain ct where "slice (read_raw s) 2 (read_target s) = Returns ct"
    by (auto simp: decode_frame_def rbind_Returns_iff LEN_PREFIX_def)
  moreover from this have bounds: "2 \<le> read_target s" "read_target s \<le> length (read_raw s)"
    by (auto simp: slice_def split: if_splits)
  ultimately show ?thesis
    using assms by (auto simp: decode_frame_def LEN_PREFIX_def panic_simps split: prod.splits option.splits)
qed

lemma read_len_no_panic: "read_len s t \<noteq> Panic"
proof (cases "have_len s")
  case False
  obtain r s1 t1 where f: "poll_fill s t 2 = (r, s1, t1)" by (metis prod_cases3)
  show ?thesis
  proof (cases "r = Ready (Inr True)")
    case True
    with poll_fill_result[OF f] obtain b0 b1 bs where "read_raw s1 = b0 # b1 # bs"
      by (metis Suc_le_length_iff numeral_2_eq_2)
    with True False f show ?thesis
      by (simp add: read_len_def LEN_PREFIX_def panic_simps Let_def)
  next
    case ne: False
    with False f show ?thesis
      by (auto simp: read_len_def LEN_PREFIX_def split: poll.splits sum.splits bool.splits)
  qed
qed (simp add: read_len_def)

lemma read_len_cases [consumes 1, case_names known stop bad len]:
  assumes "read_len s t = Returns k"
  obtains
    "have_len s" "k = Inr (s, t)"
  | r s1 t1 q where "\<not> have_len s" "poll_fill s t 2 = (r, s1, t1)" "k = Inl (q, s1, t1)"
      "r = Pending \<and> q = Pending \<or> (\<exists>e. r = Ready (Inl e) \<and> q = Ready (Inl e)) \<or>
       r = Ready (Inr False) \<and> q = Ready (Inr [])"
  | s1 t1 where "\<not> have_len s" "poll_fill s t 2 = (Ready (Inr True), s1, t1)"
      "\<not> (16 \<le> unat (of_be16 (take 2 (read_raw s1))) \<and> unat (of_be16 (take 2 (read_raw s1))) \<le> 16400)"
      "k = Inl (Ready (Inl (InvalidData ''invalid frame length'')), s1, t1)"
  | s1 t1 where "\<not> have_len s" "poll_fill s t 2 = (Ready (Inr True), s1, t1)"
      "16 \<le> unat (of_be16 (take 2 (read_raw s1)))" "unat (of_be16 (take 2 (read_raw s1))) \<le> 16400"
      "k = Inr (s1\<lparr>read_target := 2 + unat (of_be16 (take 2 (read_raw s1))), have_len := True\<rparr>, t1)"
proof (cases "have_len s")
  case True
  with assms that(1) show ?thesis by (simp add: read_len_def)
next
  case False
  obtain r s1 t1 where f: "poll_fill s t 2 = (r, s1, t1)" by (metis prod_cases3)
  show ?thesis
  proof (cases "r = Ready (Inr True)")
    case True
    with f poll_fill_result[OF f] have "2 \<le> length (read_raw s1)" by simp
    then have two: "[read_raw s1 ! 0, read_raw s1 ! 1] = take 2 (read_raw s1)"
      and "0 < length (read_raw s1)" "1 < length (read_raw s1)"
      by (cases "read_raw s1"; cases "tl (read_raw s1)"; simp)+
    with assms False True f that(3,4) show ?thesis
      by (simp add: read_len_def LEN_PREFIX_def TAG_LEN_def MAX_CIPHERTEXT_def MAX_PLAINTEXT_def
          panic_simps Let_def split: if_splits)
  next
    case ne: False
    with assms False f that(2)[OF False f] show ?thesis
      by (auto simp: read_len_def LEN_PREFIX_def split: poll.splits sum.splits bool.splits)
  qed
qed


lemma read_len_bytes:
  assumes "read_len s t = Returns (Inr (s1, t1))"
  shows "read_raw s1 @ script_bytes t1 = read_raw s @ script_bytes t"
  using assms
proof (cases rule: read_len_cases)
  case (len s2 t2)
  from poll_fill_bytes[OF len(2)] obtain xs where
    "s2 = s\<lparr>read_raw := read_raw s @ xs\<rparr>" "script_bytes t = xs @ script_bytes t2" by blast
  with len show ?thesis by simp
qed simp_all

lemma read_frame_shrinks:
  assumes "read_frame L s t = Returns (Inr (s', t'))"
  shows "length (read_raw s') + length (script_bytes t') + 2 \<le>
    length (read_raw s) + length (script_bytes t)"
proof -
  from assms obtain k where k0: "read_len s t = Returns k"
    by (auto simp: read_frame_def rbind_Returns_iff)
  with assms obtain s1 t1 where k: "read_len s t = Returns (Inr (s1, t1))"
    by (cases k) (auto simp: read_frame_def)
  obtain r s2 t2 where f: "poll_fill s1 t1 (read_target s1) = (r, s2, t2)" by (metis prod_cases3)
  from poll_fill_bytes[OF f] obtain xs where
    xs: "s2 = s1\<lparr>read_raw := read_raw s1 @ xs\<rparr>" "script_bytes t1 = xs @ script_bytes t2" by blast
  have r: "r = Ready (Inr True)"
    using assms k f by (auto simp: read_frame_def split: poll.splits sum.splits bool.splits)
  with assms k f obtain d s3 where "decode_frame L s2 = Returns (d, s3)"
    by (auto simp: read_frame_def rbind_Returns_iff)
  with assms k f r have "decode_frame L s2 = Returns (None, s')" "t' = t2"
    by (auto simp: read_frame_def split: option.splits)
  with decode_frame_shrinks[OF this(1)] have "2 \<le> read_target s2" "read_target s2 \<le> length (read_raw s2)"
    "read_raw s' = drop (read_target s2) (read_raw s2)" "t' = t2" by simp_all
  then have "length (read_raw s') + 2 \<le> length (read_raw s2)" "t' = t2" by simp_all
  moreover have "length (read_raw s2 @ script_bytes t2) = length (read_raw s1 @ script_bytes t1)"
    by (simp add: xs)
  ultimately show ?thesis using arg_cong[OF read_len_bytes[OF k], of length] by simp
qed

function poll_read ::
    "('st, 'c) noise_lib \<Rightarrow> 'c noise_stream \<Rightarrow> transport \<Rightarrow> nat \<Rightarrow> (bytes, 'c) polled rust" where
  "poll_read L s t remaining =
     (if read_off s < length (read_plain s)
      then (let n = min (length (read_plain s) - read_off s) remaining in
            rbind (slice (read_plain s) (read_off s) (read_off s + n)) (\<lambda>out.
            Returns (Ready (Inr out), s\<lparr>read_off := read_off s + n\<rparr>, t)))
      else (case read_frame L s t of
              Panic \<Rightarrow> Panic
            | Returns (Inl stop) \<Rightarrow> Returns stop
            | Returns (Inr (s', t')) \<Rightarrow> poll_read L s' t' remaining))"
  by pat_completeness auto
termination
  by (relation "measure (\<lambda>(L, s, t, n). length (read_raw s) + length (script_bytes t))")
     (auto dest: read_frame_shrinks)

declare poll_read.simps [simp del]

section \<open>What the reader delivers\<close>

definition frame_len :: "bytes \<Rightarrow> nat" where
  "frame_len bs = unat (of_be16 (take 2 bs))"

definition frame_len_ok :: "bytes \<Rightarrow> bool" where
  "frame_len_ok bs \<longleftrightarrow> 2 \<le> length bs \<and> 16 \<le> frame_len bs \<and> frame_len bs \<le> 16400"

definition frame_ready :: "bytes \<Rightarrow> bool" where
  "frame_ready bs \<longleftrightarrow> frame_len_ok bs \<and> 2 + frame_len bs \<le> length bs"

function plaintext :: "('st, 'c) noise_lib \<Rightarrow> 'c \<Rightarrow> bytes \<Rightarrow> bytes" where
  "plaintext L c bs =
     (if frame_ready bs
      then (case decrypt L c (take (frame_len bs) (drop 2 bs)) of
              (c', None) \<Rightarrow> []
            | (c', Some p) \<Rightarrow> p @ plaintext L c' (drop (2 + frame_len bs) bs))
      else [])"
  by pat_completeness auto
termination
  by (relation "measure (\<lambda>(L, c, bs). length bs)") (auto simp: frame_ready_def)

declare plaintext.simps [simp del]

definition to_read :: "('st, 'c) noise_lib \<Rightarrow> 'c noise_stream \<Rightarrow> transport \<Rightarrow> bytes" where
  "to_read L s t =
     drop (read_off s) (read_plain s) @ plaintext L (recv s) (read_raw s @ script_bytes t)"

definition reader_ok :: "'c noise_stream \<Rightarrow> bool" where
  "reader_ok s \<longleftrightarrow> length (read_raw s) < 24594 \<and>
     (have_len s \<longrightarrow> frame_len_ok (read_raw s) \<and> read_target s = 2 + frame_len (read_raw s))"

lemma reader_ok_new: "reader_ok (noise_stream_new c d)"
  by (simp add: reader_ok_def noise_stream_new_def)

lemma frame_len_append [simp]: "2 \<le> length xs \<Longrightarrow> frame_len (xs @ ys) = frame_len xs"
  by (simp add: frame_len_def)

lemma frame_len_ok_append: "frame_len_ok xs \<Longrightarrow> frame_len_ok (xs @ ys)"
  by (simp add: frame_len_ok_def)

lemma plaintext_bad: "2 \<le> length bs \<Longrightarrow> \<not> (16 \<le> frame_len bs \<and> frame_len bs \<le> 16400) \<Longrightarrow> plaintext L c (bs @ rest) = []"
  by (subst plaintext.simps) (auto simp: frame_ready_def frame_len_ok_def)

lemma plaintext_short: "\<not> frame_ready bs \<Longrightarrow> plaintext L c bs = []"
  by (subst plaintext.simps) simp

text \<open>The common part: what a step may do that returns from \<open>poll_read\<close> without a byte.\<close>

definition read_stop ::
    "('st, 'c) noise_lib \<Rightarrow> 'c noise_stream \<Rightarrow> transport \<Rightarrow> (bytes, 'c) polled \<Rightarrow> bool" where
  "read_stop L s t out = (case out of (r, s', t') \<Rightarrow>
     reader_ok s' \<and> (quiet t \<longrightarrow> quiet t') \<and> (prompt t \<longrightarrow> prompt t') \<and>
     (case r of
        Pending \<Rightarrow> to_read L s' t' = to_read L s t \<and> (prompt t \<longrightarrow> to_read L s t = [])
      | Ready (Inr bs) \<Rightarrow>
          bs = [] \<and> to_read L s' t' = to_read L s t \<and> \<not> quiet t
      | Ready (Inl e) \<Rightarrow> (quiet t \<longrightarrow> to_read L s t = [] \<and> (\<exists>m. e = InvalidData m))))"


lemma reader_ok_raw:
  assumes "poll_fill s t n = (r, s', t')" "reader_ok s" "n \<le> 16402"
  shows "reader_ok s'"
proof -
  from poll_fill_bytes[OF assms(1)] obtain xs where
    xs: "s' = s\<lparr>read_raw := read_raw s @ xs\<rparr>" "xs = [] \<or> length (read_raw s @ xs) < n + READ_BUF"
    by blast
  then have "length (read_raw s @ xs) < 24594"
    using assms(2,3) by (auto simp: reader_ok_def READ_BUF_def)
  with xs assms(2) show ?thesis
    by (auto simp: reader_ok_def frame_len_ok_append) (simp add: frame_len_ok_def)
qed

lemma to_read_fill:
  assumes "poll_fill s t n = (r, s', t')"
  shows "to_read L s' t' = to_read L s t"
proof -
  from poll_fill_bytes[OF assms] obtain xs where
    "s' = s\<lparr>read_raw := read_raw s @ xs\<rparr>" "script_bytes t = xs @ script_bytes t'" by blast
  then show ?thesis by (simp add: to_read_def)
qed

lemma to_read_starved:
  assumes "length (read_plain s) \<le> read_off s" "rscript t = []" "\<not> frame_ready (read_raw s)"
  shows "to_read L s t = []"
  using assms by (simp add: to_read_def script_bytes_def plaintext_short)

lemma poll_fill_keeps:
  assumes "poll_fill s t n = (r, s', t')"
  shows "read_plain s' = read_plain s" "read_off s' = read_off s" "recv s' = recv s"
    "have_len s' = have_len s" "read_target s' = read_target s"
  using poll_fill_bytes[OF assms] by auto

lemma fill_stop:
  assumes f: "poll_fill s t n = (r, s', t')" and ok: "reader_ok s" "n \<le> 16402"
    and empty: "length (read_plain s) \<le> read_off s"
    and short: "\<And>bs. length bs < n \<Longrightarrow> read_raw s' = bs \<Longrightarrow> \<not> frame_ready bs"
    and out: "r = Pending \<and> q = Pending \<or> (\<exists>e. r = Ready (Inl e) \<and> q = Ready (Inl e)) \<or>
       r = Ready (Inr False) \<and> q = Ready (Inr []) \<or> r = Ready (Inr False) \<and> q = Ready (Inl e')"
  shows "read_stop L s t (q, s', t')"
proof -
  note res = poll_fill_result[OF f]
  have "prompt t \<Longrightarrow> r = Pending \<Longrightarrow> to_read L s t = []"
    unfolding to_read_fill[OF f, symmetric]
    using res short empty poll_fill_keeps[OF f] by (intro to_read_starved) auto
  then show ?thesis
    using out res reader_ok_raw[OF f ok] to_read_fill[OF f, of L]
    by (auto simp: read_stop_def)
qed

lemma read_len_spec:
  assumes ok: "reader_ok s" and empty: "length (read_plain s) \<le> read_off s"
    and k: "read_len s t = Returns k"
  shows "case k of
      Inl out \<Rightarrow> read_stop L s t out
    | Inr (s1, t1) \<Rightarrow> reader_ok s1 \<and> have_len s1 \<and> to_read L s1 t1 = to_read L s t \<and>
        (quiet t \<longrightarrow> quiet t1) \<and> (prompt t \<longrightarrow> prompt t1) \<and>
        read_plain s1 = read_plain s \<and> read_off s1 = read_off s"
  using k
proof (cases rule: read_len_cases)
  case known
  with ok show ?thesis by simp
next
  case (stop r s1 t1 q)
  have "read_stop L s t (q, s1, t1)"
    using stop ok empty by (intro fill_stop[OF stop(2)]) (auto simp: frame_ready_def frame_len_ok_def)
  with stop show ?thesis by simp
next
  case (bad s1 t1)
  have "2 \<le> length (read_raw s1)" using poll_fill_result[OF bad(2)] by simp
  then have "plaintext L (recv s1) (read_raw s1 @ script_bytes t1) = []"
    using bad(3) by (intro plaintext_bad) (simp_all add: frame_len_def)
  then have "to_read L s1 t1 = []"
    using empty poll_fill_keeps[OF bad(2)] by (simp add: to_read_def)
  then have "to_read L s t = []" using to_read_fill[OF bad(2)] by metis
  with bad show ?thesis using reader_ok_raw[OF bad(2) ok] poll_fill_result[OF bad(2)] by (simp add: read_stop_def)
next
  case (len s1 t1)
  have "2 \<le> length (read_raw s1)" using poll_fill_result[OF len(2)] by simp
  with len show ?thesis
    using reader_ok_raw[OF len(2) ok] to_read_fill[OF len(2), of L] poll_fill_result[OF len(2)]
      poll_fill_keeps[OF len(2)]
    by (auto simp: reader_ok_def frame_len_ok_def frame_len_def to_read_def)
qed


lemma read_stop_trans:
  assumes "read_stop L s1 t1 out" "to_read L s1 t1 = to_read L s t"
    "quiet t \<longrightarrow> quiet t1" "prompt t \<longrightarrow> prompt t1"
  shows "read_stop L s t out"
  using assms by (auto simp: read_stop_def split: poll.splits sum.splits)

lemma read_frame_spec:
  assumes ok: "reader_ok s" and empty: "length (read_plain s) \<le> read_off s"
  obtains (stop) out where "read_frame L s t = Returns (Inl out)" "read_stop L s t out"
  | (go) s' t' where "read_frame L s t = Returns (Inr (s', t'))" "reader_ok s'" "read_off s' = 0"
      "to_read L s' t' = to_read L s t" "quiet t \<longrightarrow> quiet t'" "prompt t \<longrightarrow> prompt t'"
proof -
  from read_len_no_panic[of s t] obtain k where k: "read_len s t = Returns k" by (cases "read_len s t") auto
  note len = read_len_spec[OF ok empty k]
  show thesis
  proof (cases k)
    case (Inl out)
    with len k show ?thesis by (intro stop[of out]) (simp_all add: read_frame_def)
  next
    case (Inr st)
    then obtain s1 t1 where k': "k = Inr (s1, t1)" by (cases st) auto
    with len have ok1: "reader_ok s1" "have_len s1" and same: "to_read L s1 t1 = to_read L s t"
      and qp: "quiet t \<longrightarrow> quiet t1" "prompt t \<longrightarrow> prompt t1"
      and "read_plain s1 = read_plain s" "read_off s1 = read_off s" by auto
    with empty have empty1: "length (read_plain s1) \<le> read_off s1" by simp
    let ?n = "read_target s1"
    from ok1 have n: "?n = 2 + frame_len (read_raw s1)" "frame_len_ok (read_raw s1)"
      by (auto simp: reader_ok_def)
    then have "?n \<le> 16402" "2 \<le> length (read_raw s1)" by (auto simp: frame_len_ok_def)
    obtain r s2 t2 where f: "poll_fill s1 t1 ?n = (r, s2, t2)" by (metis prod_cases3)
    note keeps = poll_fill_keeps[OF f] and res = poll_fill_result[OF f]
    from poll_fill_bytes[OF f] obtain xs where xs: "read_raw s2 = read_raw s1 @ xs" by auto
    have n2: "?n = 2 + frame_len (read_raw s2)" "frame_len_ok (read_raw s2)"
      using n \<open>2 \<le> length (read_raw s1)\<close> by (simp_all add: xs frame_len_ok_append)
    have halt: "read_stop L s1 t1 (q, s2, t2)"
      if "r = Pending \<and> q = Pending \<or> (\<exists>e. r = Ready (Inl e) \<and> q = Ready (Inl e)) \<or>
       r = Ready (Inr False) \<and> q = Ready (Inr []) \<or> r = Ready (Inr False) \<and> q = Ready (Inl UnexpectedEof)" for q
      using that n2 by (intro fill_stop[OF f ok1(1) \<open>?n \<le> 16402\<close> empty1]) (auto simp: frame_ready_def)
    show ?thesis
    proof (cases "r = Ready (Inr True)")
      case False
      then consider "r = Pending" | e where "r = Ready (Inl e)" | "r = Ready (Inr False)"
        by (metis poll.exhaust sum.exhaust)
      then obtain q where "read_frame L s t = Returns (Inl (q, s2, t2))" "read_stop L s1 t1 (q, s2, t2)"
      proof cases
        case 1
        with k k' f halt[of Pending] that[of Pending] show ?thesis by (simp add: read_frame_def)
      next
        case (2 e)
        with k k' f halt[of "Ready (Inl e)"] that[of "Ready (Inl e)"] show ?thesis
          by (simp add: read_frame_def)
      next
        case 3
        with k k' f halt[of "Ready (Inl UnexpectedEof)"] that[of "Ready (Inl UnexpectedEof)"]
        show ?thesis by (simp add: read_frame_def)
      qed
      with read_stop_trans[OF _ same qp] show ?thesis by (intro stop)
    next
      case True
      then have full: "?n \<le> length (read_raw s2)" using res by simp
      with n2 have ready: "frame_ready (read_raw s2 @ script_bytes t2)"
        by (auto simp: frame_ready_def frame_len_ok_def)
      obtain c d where d: "decrypt L (recv s2) (take (frame_len (read_raw s2)) (drop 2 (read_raw s2))) = (c, d)"
        by fastforce
      have pt: "to_read L s t = (case d of None \<Rightarrow> [] | Some p \<Rightarrow>
          p @ plaintext L c (drop ?n (read_raw s2) @ script_bytes t2))"
      proof -
        have "to_read L s t = to_read L s2 t2" using to_read_fill[OF f, of L] same by simp
        also have "\<dots> = plaintext L (recv s2) (read_raw s2 @ script_bytes t2)"
          using empty1 keeps by (simp add: to_read_def)
        finally show ?thesis
          using ready d full n2 by (subst (asm) plaintext.simps) (auto split: option.splits)
      qed
      have rf: "read_frame L s t = (case d of
          None \<Rightarrow> Returns (Inl (Ready (Inl (InvalidData ''decryption failed'')), s2\<lparr>recv := c\<rparr>, t2))
        | Some p \<Rightarrow> Returns (Inr (s2\<lparr>recv := c, read_raw := drop ?n (read_raw s2), read_plain := p,
            read_off := 0, have_len := False, read_target := 0\<rparr>, t2)))"
        using k k' f True full keeps n2 d
        by (simp add: read_frame_def decode_frame_def panic_simps LEN_PREFIX_def split: option.splits)
      have ok2: "reader_ok s2" using reader_ok_raw[OF f ok1(1) \<open>?n \<le> 16402\<close>] .
      show ?thesis
      proof (cases d)
        case None
        with ok2 pt res qp show ?thesis
          by (intro stop[OF rf[unfolded None, simplified]]) (auto simp: read_stop_def reader_ok_def)
      next
        case (Some p)
        with ok2 pt res qp show ?thesis
          by (intro go[OF rf[unfolded Some, simplified]]) (auto simp: reader_ok_def to_read_def)
      qed
    qed
  qed
qed


text \<open>
  One poll: it never panics, what it hands out is the front of what is left to read, and what
  is left is the rest. \<open>Pending\<close> and the clean end of file hand out nothing.
\<close>

definition read_polled ::
    "('st, 'c) noise_lib \<Rightarrow> 'c noise_stream \<Rightarrow> transport \<Rightarrow> nat \<Rightarrow> (bytes, 'c) polled \<Rightarrow> bool" where
  "read_polled L s t remaining out = (case out of (r, s', t') \<Rightarrow>
     reader_ok s' \<and> (quiet t \<longrightarrow> quiet t') \<and> (prompt t \<longrightarrow> prompt t') \<and>
     (case r of
        Pending \<Rightarrow> to_read L s' t' = to_read L s t \<and> (prompt t \<longrightarrow> to_read L s t = [])
      | Ready (Inr bs) \<Rightarrow>
          to_read L s t = bs @ to_read L s' t' \<and> length bs \<le> remaining \<and>
          (quiet t \<longrightarrow> 0 < remaining \<longrightarrow> bs \<noteq> [])
      | Ready (Inl e) \<Rightarrow> (quiet t \<longrightarrow> to_read L s t = [] \<and> (\<exists>m. e = InvalidData m))))"

lemma poll_read_polled:
  "reader_ok s \<Longrightarrow> \<exists>out. poll_read L s t n = Returns out \<and> read_polled L s t n out"
proof (induction L s t n rule: poll_read.induct)
  case (1 L s t n)
  show ?case
  proof (cases "read_off s < length (read_plain s)")
    case True
    let ?k = "min (length (read_plain s) - read_off s) n"
    have "poll_read L s t n = Returns (Ready (Inr (take ?k (drop (read_off s) (read_plain s)))),
        s\<lparr>read_off := read_off s + ?k\<rparr>, t)"
      using True by (subst poll_read.simps) (simp add: panic_simps Let_def)
    moreover have "drop (read_off s) (read_plain s) =
        take ?k (drop (read_off s) (read_plain s)) @ drop (read_off s + ?k) (read_plain s)"
      using append_take_drop_id[of ?k "drop (read_off s) (read_plain s)"]
      by (simp only: drop_drop add.commute)
    ultimately show ?thesis using True "1.prems"
      by (auto simp: read_polled_def to_read_def reader_ok_def)
  next
    case empty: False
    then have "length (read_plain s) \<le> read_off s" by simp
    from "1.prems" this show ?thesis
    proof (cases rule: read_frame_spec[of s L t])
      case (stop out)
      obtain r s' t' where out: "out = (r, s', t')" by (cases out) auto
      from stop empty have "poll_read L s t n = Returns out" by (subst poll_read.simps) simp
      with stop(2) show ?thesis
        by (auto simp: read_stop_def read_polled_def out split: poll.splits sum.splits)
    next
      case (go s' t')
      with empty have "poll_read L s t n = poll_read L s' t' n" by (subst poll_read.simps) simp
      moreover obtain out where "poll_read L s' t' n = Returns out" "read_polled L s' t' n out"
        using "1.IH"[OF empty go(1) refl refl] go(2) by blast
      ultimately show ?thesis using go
        by (auto simp: read_polled_def split: poll.splits sum.splits)
    qed
  qed
qed


section \<open>A stream that is cut\<close>

text \<open>The transport brings these bytes, in pieces of any size, and then the end of the stream.\<close>

definition ends_after :: "transport \<Rightarrow> bytes \<Rightarrow> bool" where
  "ends_after t bs \<longleftrightarrow> rscript t \<noteq> [] \<and> last (rscript t) = RData [] \<and>
     list_all (\<lambda>r. case r of RData ys \<Rightarrow> ys \<noteq> [] | _ \<Rightarrow> False) (butlast (rscript t)) \<and> script_bytes t = bs"

lemma ends_after_read:
  assumes "ends_after t bs"
  obtains (eof) t' where "bs = []" "inner_read t = (Ready (Inr []), t')"
  | (more) ys zs t' where "ys \<noteq> []" "bs = ys @ zs" "inner_read t = (Ready (Inr ys), t')" "ends_after t' zs"
proof -
  from assms obtain r rs where r: "rscript t = r # rs" by (cases "rscript t") (auto simp: ends_after_def)
  show thesis
  proof (cases "rs = []")
    case True
    with assms r eof show ?thesis by (auto simp: ends_after_def inner_read_def script_bytes_def chunk_def)
  next
    case False
    with assms r obtain ys where ys: "r = RData ys" "ys \<noteq> []"
      by (auto simp: ends_after_def split: rpoll.splits)
    let ?t = "t\<lparr>rscript := if length ys \<le> READ_BUF then rs else RData (drop READ_BUF ys) # rs\<rparr>"
    have "inner_read t = (Ready (Inr (take READ_BUF ys)), ?t)" by (simp add: inner_read_def r ys)
    moreover have "take READ_BUF ys \<noteq> []" using ys by (simp add: READ_BUF_def)
    moreover have "ends_after ?t (drop READ_BUF ys @ concat (map chunk rs))"
      using assms False by (auto simp: ends_after_def r ys script_bytes_def chunk_def)
    moreover have "bs = take READ_BUF ys @ drop READ_BUF ys @ concat (map chunk rs)"
      using assms unfolding append_assoc[symmetric] append_take_drop_id
      by (simp add: ends_after_def r ys script_bytes_def chunk_def)
    ultimately show ?thesis using more by blast
  qed
qed

lemma poll_fill_cut:
  "ends_after t bs \<Longrightarrow>
     if length (read_raw s @ bs) < n
     then \<exists>t'. poll_fill s t n = (Ready (Inr False), s\<lparr>read_raw := read_raw s @ bs\<rparr>, t')
     else \<exists>ys zs t'. poll_fill s t n = (Ready (Inr True), s\<lparr>read_raw := read_raw s @ ys\<rparr>, t') \<and>
       bs = ys @ zs \<and> ends_after t' zs \<and> n \<le> length (read_raw s @ ys)"
proof (induction s t n arbitrary: bs rule: poll_fill.induct)
  case (1 s t n)
  show ?case
  proof (cases "length (read_raw s) < n")
    case False
    then have "poll_fill s t n = (Ready (Inr True), s, t)" by (subst poll_fill.simps) simp
    with False "1.prems" show ?thesis
      by (simp, intro exI[of _ "[]"] exI[of _ bs]) simp
  next
    case True
    from "1.prems" show ?thesis
    proof (cases rule: ends_after_read)
      case (eof t')
      with True have "poll_fill s t n = (Ready (Inr False), s, t')" by (subst poll_fill.simps) simp
      with True eof(1) show ?thesis by simp
    next
      case (more ys zs t')
      let ?s = "s\<lparr>read_raw := read_raw s @ ys\<rparr>"
      have p: "poll_fill s t n = poll_fill ?s t' n" using True more by (subst poll_fill.simps) simp
      from "1.IH"[OF True more(3)[symmetric] refl refl more(1,4)] show ?thesis
        unfolding p more(2) by (auto split: if_splits) (metis append.assoc length_append)
    qed
  qed
qed

lemma read_len_cut:
  assumes "ends_after t bs" "reader_ok s"
    and "length (read_raw s @ bs) < 2 \<or> frame_len_ok (read_raw s @ bs) \<and> length (read_raw s @ bs) < 2 + frame_len (read_raw s @ bs)"
  shows "if length (read_raw s @ bs) < 2 then \<exists>s' t'. read_len s t = Returns (Inl (Ready (Inr []), s', t'))
     else \<exists>s1 t1 zs. read_len s t = Returns (Inr (s1, t1)) \<and> ends_after t1 zs \<and> read_raw s1 @ zs = read_raw s @ bs \<and>
       read_target s1 = 2 + frame_len (read_raw s @ bs)"
proof (cases "have_len s")
  case True
  with assms(2) have "2 \<le> length (read_raw s)" "read_target s = 2 + frame_len (read_raw s)"
    by (simp_all add: reader_ok_def frame_len_ok_def)
  with True assms(1) show ?thesis by (auto simp: read_len_def)
next
  case False
  show ?thesis
  proof (cases "length (read_raw s @ bs) < 2")
    case True
    with poll_fill_cut[OF assms(1), of s 2] False show ?thesis by (auto simp: read_len_def LEN_PREFIX_def)
  next
    case long: False
    with poll_fill_cut[OF assms(1), of s 2] obtain ys zs t1 where
      f: "poll_fill s t 2 = (Ready (Inr True), s\<lparr>read_raw := read_raw s @ ys\<rparr>, t1)" "bs = ys @ zs" "ends_after t1 zs"
        "2 \<le> length (read_raw s @ ys)" by auto
    let ?raw = "read_raw s @ ys"
    have whole: "read_raw s @ bs = ?raw @ zs" by (simp add: f(2))
    have "take 2 xs = [xs ! 0, xs ! 1]" if "2 \<le> length xs" for xs :: bytes
      using that by (intro nth_equalityI) (auto simp: less_2_cases_iff)
    note this[OF f(4)]
    then have "unat (of_be16 [?raw ! 0, ?raw ! 1]) = frame_len (read_raw s @ bs)"
      unfolding whole frame_len_append[OF f(4)] by (simp add: frame_len_def)
    moreover have "16 \<le> frame_len (read_raw s @ bs)" "frame_len (read_raw s @ bs) \<le> 16400"
      using assms(3) long by (simp_all add: frame_len_ok_def)
    moreover have "index ?raw 0 = Returns (?raw ! 0)" "index ?raw 1 = Returns (?raw ! 1)"
      using f(4) unfolding index_def by auto
    ultimately have "read_len s t = Returns (Inr (s\<lparr>read_raw := ?raw, read_target := 2 + frame_len (read_raw s @ bs),
        have_len := True\<rparr>, t1))"
      using False f(1)
      by (simp add: read_len_def LEN_PREFIX_def Let_def TAG_LEN_def MAX_CIPHERTEXT_def MAX_PLAINTEXT_def)
    with long f(2,3) show ?thesis by auto
  qed
qed

lemma poll_read_cut:
  assumes "ends_after t bs" "reader_ok s" "length (read_plain s) \<le> read_off s"
    and "length (read_raw s @ bs) < 2 \<or> frame_len_ok (read_raw s @ bs) \<and> length (read_raw s @ bs) < 2 + frame_len (read_raw s @ bs)"
  shows "\<exists>s' t'. poll_read L s t n =
     Returns (if length (read_raw s @ bs) < 2 then Ready (Inr []) else Ready (Inl UnexpectedEof), s', t')"
proof (cases "length (read_raw s @ bs) < 2")
  case True
  with read_len_cut[OF assms(1,2,4)] obtain s' t' where "read_len s t = Returns (Inl (Ready (Inr []), s', t'))" by auto
  with True assms(3) show ?thesis by (subst poll_read.simps) (simp add: read_frame_def)
next
  case False
  with read_len_cut[OF assms(1,2,4)] obtain s1 t1 zs where
    l: "read_len s t = Returns (Inr (s1, t1))" "ends_after t1 zs" "read_raw s1 @ zs = read_raw s @ bs"
      "read_target s1 = 2 + frame_len (read_raw s @ bs)" by auto
  have "length (read_raw s1 @ zs) < read_target s1" using assms(4) False unfolding l(3,4) by blast
  with poll_fill_cut[OF l(2), of s1 "read_target s1"] obtain s2 t2 where
    "poll_fill s1 t1 (read_target s1) = (Ready (Inr False), s2, t2)" by auto
  with False l(1) assms(3) show ?thesis by (subst poll_read.simps) (simp add: read_frame_def)
qed

section \<open>What the writer puts on the wire\<close>

definition sealed_frame :: "('st, 'c) noise_lib \<Rightarrow> 'c \<Rightarrow> bytes \<Rightarrow> bytes" where
  "sealed_frame L c m =
     be16 (word_of_nat (length (snd (encrypt L c m)))) @ snd (encrypt L c m)"

primrec frames :: "('st, 'c) noise_lib \<Rightarrow> 'c \<Rightarrow> bytes list \<Rightarrow> bytes" where
  "frames L c [] = []"
| "frames L c (m # ms) = sealed_frame L c m @ frames L (fst (encrypt L c m)) ms"

definition after :: "('st, 'c) noise_lib \<Rightarrow> bytes list \<Rightarrow> 'c \<Rightarrow> 'c" where
  "after L ms c = foldl (\<lambda>c m. fst (encrypt L c m)) c ms"

definition on_the_way :: "'c noise_stream \<Rightarrow> transport \<Rightarrow> bytes" where
  "on_the_way s t = wire t @ drop (write_off s) (write_pending s)"

definition writer_ok :: "'c noise_stream \<Rightarrow> bool" where
  "writer_ok s \<longleftrightarrow> write_off s \<le> length (write_pending s)"

definition same_reader :: "'c noise_stream \<Rightarrow> 'c noise_stream \<Rightarrow> bool" where
  "same_reader s s' \<longleftrightarrow> recv s' = recv s \<and> read_raw s' = read_raw s \<and> read_plain s' = read_plain s \<and>
     read_off s' = read_off s \<and> read_target s' = read_target s \<and> have_len s' = have_len s"

lemma frames_append: "frames L c (ms @ ns) = frames L c ms @ frames L (after L ms c) ns"
  by (induction ms arbitrary: c) (simp_all add: after_def)

lemma after_simps [simp]:
  "after L [] c = c" "after L (m # ms) c = after L ms (fst (encrypt L c m))"
  "after L (ms @ ns) c = after L ns (after L ms c)"
  by (simp_all add: after_def)

lemma inner_write_wire:
  assumes "inner_write t buf = (r, t')"
  shows "case r of Ready (Inr n) \<Rightarrow> n \<le> length buf \<and> wire t' = wire t @ take n buf | _ \<Rightarrow> wire t' = wire t"
    and "rscript t' = rscript t"
  using assms by (auto simp: inner_write_def split: list.splits wpoll.splits)

lemma poll_flush_pending_spec:
  "poll_flush_pending s t = (r, s', t') \<Longrightarrow> writer_ok s \<Longrightarrow>
     on_the_way s' t' = on_the_way s t \<and> writer_ok s' \<and> send s' = send s \<and> same_reader s s' \<and>
     rscript t' = rscript t \<and> length (write_pending s') \<le> length (write_pending s) \<and>
     (r = Ready (Inr ()) \<longrightarrow> write_pending s' = [] \<and> write_off s' = 0)"
proof (induction s t rule: poll_flush_pending.induct)
  case (1 s t)
  show ?case
  proof (cases "write_off s < length (write_pending s)")
    case False
    with "1.prems" show ?thesis
      by (subst (asm) poll_flush_pending.simps) (auto simp: on_the_way_def writer_ok_def same_reader_def)
  next
    case less: True
    obtain q u where w: "inner_write t (drop (write_off s) (write_pending s)) = (q, u)" by fastforce
    note wire = inner_write_wire[OF w]
    show ?thesis
    proof (cases "\<exists>n. q = Ready (Inr n) \<and> n \<noteq> 0")
      case True
      then obtain n where n: "q = Ready (Inr n)" "n \<noteq> 0" by blast
      let ?s = "s\<lparr>write_off := write_off s + n\<rparr>"
      from wire n have n': "n \<le> length (write_pending s) - write_off s"
        and u: "wire u = wire t @ take n (drop (write_off s) (write_pending s))" by simp_all
      have "poll_flush_pending ?s u = (r, s', t')"
        using "1.prems"(1) less w n by (subst (asm) poll_flush_pending.simps) simp
      moreover have "writer_ok ?s" using n' less by (simp add: writer_ok_def)
      moreover have "on_the_way ?s u = on_the_way s t"
        using u by (simp add: on_the_way_def)
          (metis append_take_drop_id drop_drop add.commute)
      ultimately show ?thesis
        using "1.IH"[OF less w[symmetric] n(1) refl n(2)] wire
        by (simp add: same_reader_def)
    next
      case False
      with "1.prems" less w have "s' = s \<and> t' = u \<and> r \<noteq> Ready (Inr ())"
        by (subst (asm) poll_flush_pending.simps) (auto split: poll.splits sum.splits if_splits)
      moreover have "wire u = wire t" using wire False by (auto split: poll.splits sum.splits)
      ultimately show ?thesis using wire "1.prems" by (simp add: on_the_way_def same_reader_def)
    qed
  qed
qed

lemma poll_write_spec:
  assumes p: "poll_write L s t buf = (r, s', t')" and ok: "writer_ok s"
  shows "writer_ok s' \<and> same_reader s s' \<and> rscript t' = rscript t \<and>
    (let m = take MAX_PLAINTEXT buf; kept = on_the_way s' t' = on_the_way s t \<and> send s' = send s;
         queued = on_the_way s' t' = on_the_way s t @ sealed_frame L (send s) m \<and>
           send s' = fst (encrypt L (send s) m) in
     case r of
       Pending \<Rightarrow> kept
     | Ready (Inr n) \<Rightarrow> n = length m \<and> (if buf = [] then kept else queued)
     | Ready (Inl e) \<Rightarrow> kept \<or> queued)"
proof (cases "buf = []")
  case True
  with p ok show ?thesis by (auto simp: poll_write_def same_reader_def)
next
  case False
  obtain q s1 t1 where f1: "poll_flush_pending s t = (q, s1, t1)" by (metis prod_cases3)
  note spec1 = poll_flush_pending_spec[OF f1 ok]
  show ?thesis
  proof (cases "q = Ready (Inr ())")
    case ne: False
    with p f1 False have "s' = s1" "t' = t1" "r = Pending \<or> (\<exists>e. r = Ready (Inl e))"
      by (auto simp: poll_write_def split: poll.splits sum.splits)
    with spec1 show ?thesis by auto
  next
    case True
    let ?m = "take MAX_PLAINTEXT buf"
    obtain c ct where e: "encrypt L (send s) ?m = (c, ct)" by fastforce
    let ?s2 = "s1\<lparr>send := c, write_pending := be16 (word_of_nat (length ct)) @ ct, write_off := 0\<rparr>"
    obtain q3 s3 t3 where f3: "poll_flush_pending ?s2 t1 = (q3, s3, t3)" by (metis prod_cases3)
    have spec3: "on_the_way s3 t3 = on_the_way ?s2 t1" "writer_ok s3" "send s3 = c" "same_reader s1 s3"
      "rscript t3 = rscript t1"
      using poll_flush_pending_spec[OF f3] by (simp_all add: writer_ok_def same_reader_def)
    have way: "on_the_way s3 t3 = on_the_way s t @ sealed_frame L (send s) ?m"
      using spec1 spec3(1) True e by (auto simp: on_the_way_def sealed_frame_def)
    have "take (min (length buf) MAX_PLAINTEXT) buf = ?m" by (simp add: min_def)
    with p False f1 True e f3 spec1 have "s' = s3 \<and> t' = t3 \<and> (r = Ready (Inr (length ?m)) \<or> (\<exists>e. r = Ready (Inl e)))"
      by (auto simp: poll_write_def Let_def min_def split: poll.splits sum.splits)
    then show ?thesis using spec1 spec3 way e False by (auto simp: same_reader_def)
  qed
qed


section \<open>Sessions\<close>

text \<open>
  A task drives the writer by polling writes and flushes, and the reader by polling reads with
  buffers of its own choice, each going on after \<open>Pending\<close> and giving up on an error.
\<close>

datatype write_op = Write_Op bytes | Flush_Op

fun write_session ::
    "('st, 'c) noise_lib \<Rightarrow> write_op list \<Rightarrow> 'c noise_stream \<Rightarrow> transport \<Rightarrow>
     bytes list \<times> bool \<times> 'c noise_stream \<times> transport" where
  "write_session L [] s t = ([], True, s, t)"
| "write_session L (Write_Op buf # ops) s t =
     (case poll_write L s t buf of
        (Ready (Inl e), s', t') \<Rightarrow> ([], False, s', t')
      | (Pending, s', t') \<Rightarrow> write_session L ops s' t'
      | (Ready (Inr n), s', t') \<Rightarrow>
          (case write_session L ops s' t' of (ms, out) \<Rightarrow>
             (if n = 0 then ms else take n buf # ms, out)))"
| "write_session L (Flush_Op # ops) s t =
     (case poll_flush s t (Ready (Inr ())) of
        (Ready (Inl e), s', t') \<Rightarrow> ([], False, s', t')
      | (_, s', t') \<Rightarrow> write_session L ops s' t')"

primrec read_session ::
    "('st, 'c) noise_lib \<Rightarrow> nat list \<Rightarrow> 'c noise_stream \<Rightarrow> transport \<Rightarrow>
     (bytes \<times> 'c noise_stream \<times> transport) rust" where
  "read_session L [] s t = Returns ([], s, t)"
| "read_session L (n # ns) s t =
     rbind (poll_read L s t n) (\<lambda>(r, s', t'). case r of
       Ready (Inl e) \<Rightarrow> Returns ([], s', t')
     | Pending \<Rightarrow> read_session L ns s' t'
     | Ready (Inr bs) \<Rightarrow>
         rbind (read_session L ns s' t') (\<lambda>(out, st). Returns (bs @ out, st)))"

lemma poll_flush_spec:
  assumes "poll_flush s t (Ready (Inr ())) = (r, s', t')" "writer_ok s"
  shows "on_the_way s' t' = on_the_way s t \<and> writer_ok s' \<and> send s' = send s \<and>
    (r = Ready (Inr ()) \<longrightarrow> write_pending s' = [])"
proof -
  obtain q s1 t1 where f: "poll_flush_pending s t = (q, s1, t1)" by (metis prod_cases3)
  with assms(1) have "r = q" "s' = s1" "t' = t1"
    by (auto simp: poll_flush_def split: poll.splits sum.splits)
  with poll_flush_pending_spec[OF f assms(2)] show ?thesis by simp
qed

lemma write_session_frames:
  "write_session L ops s t = (ms, True, s', t') \<Longrightarrow> writer_ok s \<Longrightarrow>
     on_the_way s' t' = on_the_way s t @ frames L (send s) ms \<and> writer_ok s' \<and>
     send s' = after L ms (send s) \<and> (\<forall>m\<in>set ms. m \<noteq> [] \<and> length m \<le> MAX_PLAINTEXT)"
proof (induction ops arbitrary: s t ms)
  case Nil
  then show ?case by simp
next
  case (Cons op ops)
  show ?case
  proof (cases op)
    case (Write_Op buf)
    obtain r s1 t1 where w: "poll_write L s t buf = (r, s1, t1)" by (metis prod_cases3)
    note spec = poll_write_spec[OF w Cons.prems(2)]
    show ?thesis
    proof (cases r)
      case Pending
      with Cons.IH[of s1 t1 ms] Cons.prems(1) w spec Write_Op show ?thesis by (simp add: Let_def)
    next
      case (Ready x)
      with Cons.prems(1) w Write_Op obtain n where r: "r = Ready (Inr n)" by (cases x) auto
      with Cons.prems(1) w Write_Op obtain ms1 where ms1: "write_session L ops s1 t1 = (ms1, True, s', t')"
        and ms: "ms = (if n = 0 then ms1 else take n buf # ms1)" by (auto split: prod.splits)
      have n: "n = length (take MAX_PLAINTEXT buf)" using spec r by (simp add: Let_def)
      then have "take n buf = take MAX_PLAINTEXT buf" by (simp add: min_def)
      moreover have "n = 0 \<longleftrightarrow> buf = []" using n by (auto simp: MAX_PLAINTEXT_def min_def)
      ultimately show ?thesis
        using Cons.IH[OF ms1] r spec ms n by (auto simp: Let_def)
    qed
  next
    case Flush_Op
    obtain r s1 t1 where f: "poll_flush s t (Ready (Inr ())) = (r, s1, t1)" by (metis prod_cases3)
    note spec = poll_flush_spec[OF f Cons.prems(2)]
    have "write_session L ops s1 t1 = (ms, True, s', t')"
      using Cons.prems(1) f Flush_Op by (auto split: poll.splits sum.splits)
    from Cons.IH[OF this] spec show ?thesis by simp
  qed
qed

lemma read_session_stream:
  "reader_ok s \<Longrightarrow> quiet t \<Longrightarrow>
     \<exists>bs s' t'. read_session L ns s t = Returns (bs, s', t') \<and> prefix bs (to_read L s t) \<and>
       (prompt t \<and> 0 \<notin> set ns \<and> length (to_read L s t) \<le> length ns \<longrightarrow> bs = to_read L s t)"
proof (induction ns arbitrary: s t)
  case Nil
  then show ?case by simp
next
  case (Cons n ns)
  from poll_read_polled[OF Cons.prems(1), of L t n] obtain r s1 t1 where
    p: "poll_read L s t n = Returns (r, s1, t1)" and rp: "read_polled L s t n (r, s1, t1)"
    by (metis prod_cases3)
  show ?case
  proof (cases r)
    case Pending
    with rp Cons.prems Cons.IH[of s1 t1] p show ?thesis
      by (fastforce simp: read_polled_def)
  next
    case (Ready x)
    show ?thesis
    proof (cases x)
      case (Inl e)
      with Ready rp Cons.prems p show ?thesis by (auto simp: read_polled_def)
    next
      case (Inr bs)
      with Ready rp Cons.prems have go: "reader_ok s1" "quiet t1" "prompt t \<longrightarrow> prompt t1"
        and split: "to_read L s t = bs @ to_read L s1 t1" and pos: "0 < n \<longrightarrow> bs \<noteq> []"
        by (auto simp: read_polled_def)
      from Cons.IH[OF go(1,2)] obtain out s2 t2 where
        out: "read_session L ns s1 t1 = Returns (out, s2, t2)" "prefix out (to_read L s1 t1)"
          "prompt t1 \<and> 0 \<notin> set ns \<and> length (to_read L s1 t1) \<le> length ns \<longrightarrow> out = to_read L s1 t1"
        by blast
      have "read_session L (n # ns) s t = Returns (bs @ out, s2, t2)"
        using p Ready Inr out(1) by simp
      moreover have "0 < n \<and> length (to_read L s t) \<le> Suc (length ns) \<longrightarrow> length (to_read L s1 t1) \<le> length ns"
        using split pos by (cases bs) auto
      ultimately show ?thesis using out split go(3) by auto
    qed
  qed
qed


section \<open>The two ends together\<close>

text \<open>
  What the code relies on of the cipher states the handshake leaves: \<open>R c d\<close> says that \<open>d\<close> is
  the receiving state that goes with the sending state \<open>c\<close>; sealing adds the tag and opening
  at the peer gives the plaintext back and moves both on.
\<close>

definition ciphers_agree :: "('st, 'c) noise_lib \<Rightarrow> ('c \<Rightarrow> 'c \<Rightarrow> bool) \<Rightarrow> bool" where
  "ciphers_agree L R \<longleftrightarrow>
     (\<forall>c d p. R c d \<longrightarrow> length (snd (encrypt L c p)) = length p + 16 \<and>
        (\<exists>d'. decrypt L d (snd (encrypt L c p)) = (d', Some p) \<and> R (fst (encrypt L c p)) d'))"

text \<open>And of the handshake: with matching keys and pre-shared key, two messages complete it.\<close>

definition handshake_lawful ::
    "('st, 'c) noise_lib \<Rightarrow> (bytes \<Rightarrow> bytes) \<Rightarrow> ('c \<Rightarrow> 'c \<Rightarrow> bool) \<Rightarrow> bool" where
  "handshake_lawful L pub R \<longleftrightarrow>
     (\<forall>a b k. length a = KEY_LEN \<longrightarrow> length b = KEY_LEN \<longrightarrow> length k = PSK_LEN \<longrightarrow>
      (\<exists>a1 m1 b1 x b2 m2 a2 y.
        hs_write L (hs_init L True prologue a (Some (pub b)) k) = Some (a1, m1) \<and> handshake_msg_ok m1 \<and>
        hs_read L (hs_init L False prologue b None k) m1 = Some (b1, x) \<and> hs_get_rs L b1 = Some (pub a) \<and>
        hs_write L b1 = Some (b2, m2) \<and> handshake_msg_ok m2 \<and> hs_completed L b2 \<and>
        hs_read L a1 m2 = Some (a2, y) \<and> hs_completed L a2 \<and>
        R (fst (hs_ciphers L a2)) (fst (hs_ciphers L b2)) \<and>
        R (snd (hs_ciphers L b2)) (snd (hs_ciphers L a2))))"

lemma ciphers_agreeD:
  assumes "ciphers_agree L R" "R c d"
  obtains d' where "decrypt L d (snd (encrypt L c p)) = (d', Some p)" "R (fst (encrypt L c p)) d'"
    "length (snd (encrypt L c p)) = length p + 16"
  using assms unfolding ciphers_agree_def by blast

lemma plaintext_sealed_frame:
  assumes agree: "ciphers_agree L R" "R c d" and m: "length m \<le> MAX_PLAINTEXT"
  obtains d' where "R (fst (encrypt L c m)) d'"
    "\<And>rest. plaintext L d (sealed_frame L c m @ rest) = m @ plaintext L d' rest"
    "\<And>bs. strict_prefix bs (sealed_frame L c m) \<Longrightarrow> plaintext L d bs = []"
proof -
  from agree obtain d' where d: "decrypt L d (snd (encrypt L c m)) = (d', Some m)" "R (fst (encrypt L c m)) d'"
    and len: "length (snd (encrypt L c m)) = length m + 16" by (rule ciphers_agreeD)
  let ?ct = "snd (encrypt L c m)"
  have n: "length ?ct \<le> 16400" "16 \<le> length ?ct" using len m by (simp_all add: MAX_PLAINTEXT_def)
  then have fl: "unat (of_be16 (be16 (word_of_nat (length ?ct)))) = length ?ct"
    by (intro unat_frame_len) simp
  have "plaintext L d (sealed_frame L c m @ rest) = m @ plaintext L d' rest" for rest
  proof -
    have "frame_len (sealed_frame L c m @ rest) = length ?ct"
      using fl by (simp add: frame_len_def sealed_frame_def)
    moreover from this have "frame_ready (sealed_frame L c m @ rest)"
      using n by (simp add: frame_ready_def frame_len_ok_def sealed_frame_def)
    ultimately show ?thesis
      using d by (subst plaintext.simps) (simp add: sealed_frame_def)
  qed
  moreover have "plaintext L d bs = []" if cut: "strict_prefix bs (sealed_frame L c m)" for bs
  proof (rule plaintext_short, rule notI)
    assume ready: "frame_ready bs"
    then have two: "2 \<le> length bs" by (simp add: frame_ready_def frame_len_ok_def)
    from cut obtain zs where zs: "sealed_frame L c m = bs @ zs" by (auto simp: strict_prefix_def prefix_def)
    then have "frame_len bs = frame_len (sealed_frame L c m)" using two by simp
    also have "\<dots> = length ?ct" using fl by (simp add: frame_len_def sealed_frame_def)
    finally have "length (sealed_frame L c m) \<le> length bs"
      using ready by (simp add: frame_ready_def sealed_frame_def)
    with prefix_length_less[OF cut] show False by simp
  qed
  ultimately show thesis using d(2) that by blast
qed

lemma plaintext_frames:
  "\<lbrakk> ciphers_agree L R; R c d; \<forall>m\<in>set ms. length m \<le> MAX_PLAINTEXT \<rbrakk> \<Longrightarrow>
     plaintext L d (frames L c ms) = concat ms \<and>
     (\<forall>bs. prefix bs (frames L c ms) \<longrightarrow> prefix (plaintext L d bs) (concat ms))"
proof (induction ms arbitrary: c d)
  case Nil
  then show ?case by (simp add: plaintext_short frame_ready_def frame_len_ok_def)
next
  case (Cons m ms)
  from Cons.prems have "length m \<le> MAX_PLAINTEXT" by simp
  from plaintext_sealed_frame[OF Cons.prems(1,2) this] obtain d' where
    d': "R (fst (encrypt L c m)) d'"
      "\<And>rest. plaintext L d (sealed_frame L c m @ rest) = m @ plaintext L d' rest"
      "\<And>bs. strict_prefix bs (sealed_frame L c m) \<Longrightarrow> plaintext L d bs = []" by blast
  note IH = Cons.IH[OF Cons.prems(1) d'(1)]
  have "prefix (plaintext L d bs) (m @ concat ms)"
    if "prefix bs (sealed_frame L c m @ frames L (fst (encrypt L c m)) ms)" for bs
    using that
  proof (cases "strict_prefix bs (sealed_frame L c m)")
    case False
    with that obtain ys where "bs = sealed_frame L c m @ ys" "prefix ys (frames L (fst (encrypt L c m)) ms)"
      by (auto simp: prefix_append strict_prefix_def)
    with d'(2) IH Cons.prems show ?thesis by simp
  qed (simp add: d'(3))
  with d'(2) IH Cons.prems show ?case by simp
qed

lemma noise_stream_new_simps [simp]:
  "send (noise_stream_new c d) = c" "recv (noise_stream_new c d) = d"
  "writer_ok (noise_stream_new c d)" "reader_ok (noise_stream_new c d)"
  by (simp_all add: noise_stream_new_def writer_ok_def reader_ok_def)

lemma to_read_new: "to_read L (noise_stream_new c d) t = plaintext L d (script_bytes t)"
  by (simp add: to_read_def noise_stream_new_def)

lemma on_the_way_new: "on_the_way (noise_stream_new c d) t = wire t"
  by (simp add: on_the_way_def noise_stream_new_def)


text \<open>A small lawful library, for concrete instances.\<close>

type_synonym toy_hs = "bool \<times> bytes \<times> bytes \<times> bytes \<times> nat"

definition toy_noise :: "(toy_hs, nat) noise_lib" where
  "toy_noise =
     \<lparr>hs_init = \<lambda>i p s rs k. (i, s, case rs of None \<Rightarrow> [] | Some r \<Rightarrow> r, k, 0),
      hs_write = \<lambda>(i, s, r, k, n).
        if i \<and> n = 0 then Some ((i, s, r, k, 1), s @ k)
        else if \<not> i \<and> n = 1 then Some ((i, s, r, k, 2), [9]) else None,
      hs_read = \<lambda>(i, s, r, k, n) m.
        if \<not> i \<and> n = 0 \<and> length m = 64 \<and> drop 32 m = k then Some ((i, s, take 32 m, k, 1), [])
        else if i \<and> n = 1 \<and> m = [9] then Some ((i, s, r, k, 2), []) else None,
      hs_get_rs = \<lambda>(i, s, r, k, n). if r = [] then None else Some r,
      hs_completed = \<lambda>(i, s, r, k, n). n = 2,
      hs_ciphers = \<lambda>_. (100, 200),
      encrypt = \<lambda>c p. (c + 1, p @ replicate 16 (word_of_nat c)),
      decrypt = \<lambda>d ct.
        if 16 \<le> length ct \<and> drop (length ct - 16) ct = replicate 16 (word_of_nat d)
        then (d + 1, Some (take (length ct - 16) ct)) else (d, None)\<rparr>"

lemma toy_ciphers_agree: "ciphers_agree toy_noise (=)"
  by (simp add: ciphers_agree_def toy_noise_def)

lemma toy_handshake_lawful: "handshake_lawful toy_noise id (=)"
  by (auto simp: handshake_lawful_def toy_noise_def handshake_msg_ok_def KEY_LEN_def PSK_LEN_def)

section \<open>Properties\<close>

text \<open>
  C5: whatever a task writes through the encrypted stream, however the transport splits the
  writes and the reads and whenever it makes either side wait, and whatever buffer sizes the
  peer reads with, the peer reads a prefix of exactly what was accepted, and all of it once all
  of it has arrived and it has polled often enough.
\<close>

theorem noise_stream_delivers:
  assumes "ciphers_agree L R" "R c d"
    and "write_session L ops (noise_stream_new c c') t0 = (ms, True, s, t)" "wire t0 = []"
    and "quiet u" "prefix (script_bytes u) (on_the_way s t)"
  shows "\<exists>bs s' u'. read_session L ns (noise_stream_new d' d) u = Returns (bs, s', u') \<and>
    prefix bs (concat ms) \<and>
    (script_bytes u = on_the_way s t \<and> prompt u \<and> 0 \<notin> set ns \<and> length (concat ms) \<le> length ns \<longrightarrow>
      bs = concat ms)"
proof -
  have way: "on_the_way s t = frames L c ms" "\<forall>m\<in>set ms. length m \<le> MAX_PLAINTEXT"
    using write_session_frames[OF assms(3)] assms(4) by (simp_all add: on_the_way_new)
  note pt = plaintext_frames[OF assms(1,2) way(2)]
  have "prefix (plaintext L d (script_bytes u)) (concat ms)" using pt assms(6) way(1) by simp
  moreover have "script_bytes u = on_the_way s t \<Longrightarrow> plaintext L d (script_bytes u) = concat ms"
    using pt way(1) by simp
  ultimately show ?thesis
    using read_session_stream[of "noise_stream_new d' d" u L ns] assms(5)
    by (fastforce simp: to_read_new intro: prefix_order.trans)
qed

definition sample_writer :: transport where
  "sample_writer = \<lparr>wscript = [WReady 3, WPending, WReady 50], wire = [], rscript = []\<rparr>"

definition sample_wire :: bytes where
  "sample_wire = [0, 18, 104, 105] @ replicate 16 5"

definition sample_reader :: transport where
  "sample_reader =
     \<lparr>wscript = [], wire = [], rscript = [RData (take 1 sample_wire), RPending, RData (drop 1 sample_wire)]\<rparr>"

lemma sample_write:
  "write_session toy_noise [Write_Op [104, 105], Flush_Op] (noise_stream_new 5 6) sample_writer =
     ([[104, 105]], True, noise_stream_new 6 6, sample_writer\<lparr>wscript := [], wire := sample_wire\<rparr>)"
  by code_simp

theorem noise_stream_delivers_witness:
  "\<exists>bs s' u'. read_session toy_noise [1, 4, 4] (noise_stream_new 9 5) sample_reader = Returns (bs, s', u') \<and>
    prefix bs [104, 105]"
proof -
  have "quiet sample_reader" by code_simp
  moreover have "prefix (script_bytes sample_reader)
      (on_the_way (noise_stream_new 6 6) (sample_writer\<lparr>wscript := [], wire := sample_wire\<rparr>))"
    by (simp add: on_the_way_new script_bytes_def sample_reader_def chunk_def sample_wire_def)
  ultimately show ?thesis
    using noise_stream_delivers[OF toy_ciphers_agree refl sample_write, of sample_reader "[1, 4, 4]" 9]
    by (auto simp: sample_writer_def)
qed


lemma handshake_completes:
  assumes "handshake_lawful L (x25519_pubkey C) R"
    and "length (secret_bytes (ch_static_secret ch)) = KEY_LEN"
      "length (secret_bytes (sh_static_secret sh)) = KEY_LEN" "length (psk_bytes (sh_psk sh)) = PSK_LEN"
    and "ch_server_pubkey ch = secret_public_key C (sh_static_secret sh)" "ch_psk ch = sh_psk sh"
    and "secret_public_key C (ch_static_secret ch) \<in> set (sh_allowed_admins sh)"
  shows "\<exists>msg1 msg2 cs ss. R (send cs) (recv ss) \<and> R (send ss) (recv cs) \<and>
    (\<forall>cc sc x y. sends_ok cc \<and> incoming cc = handshake_frame msg2 @ x \<and>
       sends_ok sc \<and> incoming sc = handshake_frame msg1 @ y \<longrightarrow>
       connect L ch cc = (Done cs, cc\<lparr>incoming := x, sent := sent cc @ handshake_frame msg1\<rparr>) \<and>
       accept L sh sc = (Done (ss, secret_public_key C (ch_static_secret ch)),
         sc\<lparr>incoming := y, sent := sent sc @ handshake_frame msg2\<rparr>))"
proof -
  let ?a = "secret_bytes (ch_static_secret ch)" and ?b = "secret_bytes (sh_static_secret sh)"
    and ?k = "psk_bytes (sh_psk sh)"
  from assms(1)[unfolded handshake_lawful_def, rule_format, OF assms(2-4)]
  obtain a1 m1 b1 x b2 m2 a2 y where
    a1: "hs_write L (hs_init L True prologue ?a (Some (x25519_pubkey C ?b)) ?k) = Some (a1, m1)" and
    m1: "handshake_msg_ok m1" and
    b1: "hs_read L (hs_init L False prologue ?b None ?k) m1 = Some (b1, x)"
      "hs_get_rs L b1 = Some (x25519_pubkey C ?a)" "hs_write L b1 = Some (b2, m2)" and
    m2: "handshake_msg_ok m2" and done2: "hs_completed L b2" and
    a2: "hs_read L a1 m2 = Some (a2, y)" "hs_completed L a2" and
    R: "R (fst (hs_ciphers L a2)) (fst (hs_ciphers L b2))" "R (snd (hs_ciphers L b2)) (snd (hs_ciphers L a2))"
    by blast
  let ?cs = "noise_stream_new (fst (hs_ciphers L a2)) (snd (hs_ciphers L a2))"
  let ?ss = "noise_stream_new (snd (hs_ciphers L b2)) (fst (hs_ciphers L b2))"
  have "connect L ch cc = (Done ?cs, cc\<lparr>incoming := z, sent := sent cc @ handshake_frame m1\<rparr>)"
    if "sends_ok cc" "incoming cc = handshake_frame m2 @ z" for cc z
    using that a1 a2 assms(5,6) m2
    by (simp add: connect_def secret_public_key_def io_bind_Done[OF handshake.wr_ok[OF m1]]
        io_bind_Done[OF handshake.get_put] io_return_def split: prod.splits)
  moreover have "accept L sh sc = (Done (?ss, secret_public_key C (ch_static_secret ch)),
      sc\<lparr>incoming := z, sent := sent sc @ handshake_frame m2\<rparr>)"
    if "sends_ok sc" "incoming sc = handshake_frame m1 @ z" for sc z
    using that b1 done2 m1 assms(7)
    by (simp add: accept_def secret_public_key_def io_bind_Done[OF handshake.get_put]
        io_bind_Done[OF handshake.wr_ok[OF m2]] io_return_def split: prod.splits)
  ultimately show ?thesis
    using R by (intro exI[of _ m1] exI[of _ m2] exI[of _ ?cs] exI[of _ ?ss]) simp
qed

text \<open>
  C10: with matching keys and pre-shared key, an initiator and a responder that trusts the
  initiator's key complete the handshake through exactly two framed messages; the responder
  learns the initiator's public key, bytes that follow are left on the stream, and each
  side's sending state goes with the other's receiving state.
\<close>

theorem handshake_agreement:
  assumes "handshake_lawful L (x25519_pubkey C) R"
    and "length (secret_bytes (ch_static_secret ch)) = KEY_LEN"
      "length (secret_bytes (sh_static_secret sh)) = KEY_LEN" "length (psk_bytes (sh_psk sh)) = PSK_LEN"
    and "ch_server_pubkey ch = secret_public_key C (sh_static_secret sh)" "ch_psk ch = sh_psk sh"
    and "secret_public_key C (ch_static_secret ch) \<in> set (sh_allowed_admins sh)"
  shows "\<exists>msg1 msg2 cs ss. R (send cs) (recv ss) \<and> R (send ss) (recv cs) \<and>
    (\<forall>cc sc x y. sends_ok cc \<and> incoming cc = handshake_frame msg2 @ x \<and>
       sends_ok sc \<and> incoming sc = handshake_frame msg1 @ y \<longrightarrow>
       connect L ch cc = (Done cs, cc\<lparr>incoming := x, sent := sent cc @ handshake_frame msg1\<rparr>) \<and>
       accept L sh sc = (Done (ss, secret_public_key C (ch_static_secret ch)),
         sc\<lparr>incoming := y, sent := sent sc @ handshake_frame msg2\<rparr>))"
  using assms by (rule handshake_completes)

definition sample_initiator :: client_handshake where
  "sample_initiator = \<lparr>ch_static_secret = SecretKey (replicate 32 1),
     ch_server_pubkey = PublicKey (replicate 32 2), ch_psk = Psk (replicate 32 3)\<rparr>"

definition sample_responder :: server_handshake where
  "sample_responder = \<lparr>sh_static_secret = SecretKey (replicate 32 2), sh_psk = Psk (replicate 32 3),
     sh_allowed_admins = [PublicKey (replicate 32 1)]\<rparr>"

definition idle_conn :: "bytes \<Rightarrow> conn" where
  "idle_conn bs = \<lparr>incoming = bs, incoming_end = EndEof, sent = [], send_limit = None, flush_fails = None\<rparr>"

theorem handshake_agreement_witness:
  "\<exists>cs ss cc sc. connect toy_noise sample_initiator (idle_conn sc) = (Done cs, idle_conn []\<lparr>sent := cc\<rparr>) \<and>
    accept toy_noise sample_responder (idle_conn cc) =
      (Done (ss, PublicKey (replicate 32 1)), idle_conn []\<lparr>sent := sc\<rparr>) \<and>
    send cs = recv ss \<and> send ss = recv cs"
proof -
  have C: "x25519_pubkey (toy_crypto\<lparr>x25519_pubkey := id\<rparr>) = id" by simp
  have "\<exists>msg1 msg2 cs ss. send cs = recv ss \<and> send ss = recv cs \<and>
    (\<forall>cc sc x y. sends_ok cc \<and> incoming cc = handshake_frame msg2 @ x \<and>
       sends_ok sc \<and> incoming sc = handshake_frame msg1 @ y \<longrightarrow>
       connect toy_noise sample_initiator cc =
         (Done cs, cc\<lparr>incoming := x, sent := sent cc @ handshake_frame msg1\<rparr>) \<and>
       accept toy_noise sample_responder sc = (Done (ss, PublicKey (replicate 32 1)),
         sc\<lparr>incoming := y, sent := sent sc @ handshake_frame msg2\<rparr>))"
    using handshake_agreement[of toy_noise "toy_crypto\<lparr>x25519_pubkey := id\<rparr>" "(=)" sample_initiator sample_responder,
        unfolded C, OF toy_handshake_lawful]
    by (simp add: sample_initiator_def sample_responder_def KEY_LEN_def PSK_LEN_def secret_public_key_def)
  then obtain msg1 msg2 cs ss where "send cs = recv ss" "send ss = recv cs" and
    hs: "\<forall>cc sc x y. sends_ok cc \<and> incoming cc = handshake_frame msg2 @ x \<and>
       sends_ok sc \<and> incoming sc = handshake_frame msg1 @ y \<longrightarrow>
       connect toy_noise sample_initiator cc =
         (Done cs, cc\<lparr>incoming := x, sent := sent cc @ handshake_frame msg1\<rparr>) \<and>
       accept toy_noise sample_responder sc = (Done (ss, PublicKey (replicate 32 1)),
         sc\<lparr>incoming := y, sent := sent sc @ handshake_frame msg2\<rparr>)" by blast
  moreover from hs[rule_format, of "idle_conn (handshake_frame msg2)" "[]" "idle_conn (handshake_frame msg1)" "[]"]
  have "connect toy_noise sample_initiator (idle_conn (handshake_frame msg2)) =
        (Done cs, idle_conn []\<lparr>sent := handshake_frame msg1\<rparr>)"
    and "accept toy_noise sample_responder (idle_conn (handshake_frame msg1)) =
        (Done (ss, PublicKey (replicate 32 1)), idle_conn []\<lparr>sent := handshake_frame msg2\<rparr>)"
    by (simp_all add: idle_conn_def sends_ok_def)
  ultimately show ?thesis by blast
qed

lemma accept_cases:
  assumes "accept L sh sc = (r, sc')"
  obtains
    (silent) "sent sc' = sent sc" "\<And>x. r \<noteq> Done x"
  | (known) msg1 c1 st x rs where "read_handshake_msg sc = (Done msg1, c1)"
      "hs_read L (hs_init L False prologue (secret_bytes (sh_static_secret sh)) None (psk_bytes (sh_psk sh))) msg1
         = Some (st, x)" "hs_get_rs L st = Some rs" "PublicKey rs \<in> set (sh_allowed_admins sh)"
      "\<And>s k. r = Done (s, k) \<Longrightarrow> k = PublicKey rs"
proof -
  let ?st = "hs_init L False prologue (secret_bytes (sh_static_secret sh)) None (psk_bytes (sh_psk sh))"
  obtain q c1 where g: "read_handshake_msg sc = (q, c1)" by fastforce
  have quiet_read: "sent c1 = sent sc"
    using g by (auto simp: read_handshake_msg_def io_bind_def read_exact_def io_return_def io_fail_def
        Let_def split: prod.splits outcome.splits if_splits input_end.splits)
  show thesis
  proof (cases "\<exists>msg1 st x rs. q = Done msg1 \<and> hs_read L ?st msg1 = Some (st, x) \<and>
      hs_get_rs L st = Some rs \<and> PublicKey rs \<in> set (sh_allowed_admins sh)")
    case True
    then obtain msg1 st x rs where k: "q = Done msg1" "hs_read L ?st msg1 = Some (st, x)"
      "hs_get_rs L st = Some rs" "PublicKey rs \<in> set (sh_allowed_admins sh)" by blast
    have "k = PublicKey rs" if "r = Done (s, k)" for s k
      using assms that g k
      by (auto simp: accept_def io_bind_Done_iff io_fail_def io_return_def Let_def
          split: option.splits if_splits prod.splits)
    with k g show thesis by (intro known[of msg1 c1 st x rs]) auto
  next
    case False
    have "sent sc' = sent sc \<and> (\<forall>x. r \<noteq> Done x)"
      using assms g False quiet_read
      by (cases q) (auto simp: accept_def io_bind_def io_fail_def Let_def split: option.splits prod.splits if_splits)
    then show thesis using silent by blast
  qed
qed

text \<open>
  C11: the responder is silent until it knows whom it talks to: if it puts a single byte on the
  wire, or finishes, the initiator's message opened and named a key of the allow-list. An
  initiator with any other key is told nothing.
\<close>

theorem accept_only_allowed:
  assumes "accept L sh sc = (r, sc')" and "sent sc' \<noteq> sent sc \<or> r = Done (s, admin)"
  shows "\<exists>msg1 c1 st x rs. read_handshake_msg sc = (Done msg1, c1) \<and>
    hs_read L (hs_init L False prologue (secret_bytes (sh_static_secret sh)) None (psk_bytes (sh_psk sh))) msg1
      = Some (st, x) \<and> hs_get_rs L st = Some rs \<and> PublicKey rs \<in> set (sh_allowed_admins sh) \<and>
    (r = Done (s, admin) \<longrightarrow> admin = PublicKey rs)"
  using assms(1)
proof (cases rule: accept_cases)
  case silent
  with assms(2) show ?thesis by blast
next
  case (known msg1 c1 st x rs)
  then show ?thesis by blast
qed


definition sample_hello :: bytes where
  "sample_hello = replicate 32 1 @ replicate 32 3"

theorem accept_only_allowed_witness:
  "\<exists>msg1 c1 st x rs. read_handshake_msg (idle_conn (handshake_frame sample_hello)) = (Done msg1, c1) \<and>
    hs_read toy_noise (hs_init toy_noise False prologue (replicate 32 2) None (replicate 32 3)) msg1 = Some (st, x) \<and>
    hs_get_rs toy_noise st = Some rs \<and> PublicKey rs = PublicKey (replicate 32 1)"
proof -
  have run: "accept toy_noise sample_responder (idle_conn (handshake_frame sample_hello)) =
      (Done (noise_stream_new 200 100, PublicKey (replicate 32 1)), idle_conn []\<lparr>sent := [0, 1, 9]\<rparr>)"
    by code_simp
  show ?thesis
    using accept_only_allowed[OF run, of "noise_stream_new 200 100" "PublicKey (replicate 32 1)"]
    by (auto simp: sample_responder_def)
qed

lemma plaintext_frames_then:
  "\<lbrakk> ciphers_agree L R; R c d; \<forall>m\<in>set ms. length m \<le> MAX_PLAINTEXT \<rbrakk> \<Longrightarrow>
     \<exists>d'. R (after L ms c) d' \<and> plaintext L d (frames L c ms @ rest) = concat ms @ plaintext L d' rest"
proof (induction ms arbitrary: c d)
  case Nil
  then show ?case by auto
next
  case (Cons m ms)
  from Cons.prems have "length m \<le> MAX_PLAINTEXT" by simp
  from plaintext_sealed_frame[OF Cons.prems(1,2) this] obtain d1 where
    d1: "R (fst (encrypt L c m)) d1"
      "\<And>rest. plaintext L d (sealed_frame L c m @ rest) = m @ plaintext L d1 rest"
      "\<And>bs. strict_prefix bs (sealed_frame L c m) \<Longrightarrow> plaintext L d bs = []" by blast
  from Cons.prems(3) have "\<forall>m\<in>set ms. length m \<le> MAX_PLAINTEXT" by simp
  from Cons.IH[OF Cons.prems(1) d1(1) this] obtain d' where
    "R (after L ms (fst (encrypt L c m))) d'"
    "plaintext L d1 (frames L (fst (encrypt L c m)) ms @ rest) = concat ms @ plaintext L d' rest" by blast
  moreover have "plaintext L d (frames L c (m # ms) @ rest) =
      m @ plaintext L d1 (frames L (fst (encrypt L c m)) ms @ rest)"
    using d1(2) by simp
  ultimately show ?case by (intro exI[of _ d']) simp
qed

text \<open>
  C6: a frame that does not open ends the stream for the reader: of a byte stream that carries
  honest frames, then a frame of any content the cipher rejects, then anything at all, a task
  reads a prefix of what the honest frames carry and never a byte that comes after.
\<close>

theorem tampering_ends_the_stream:
  assumes "ciphers_agree L R" "R c d" "\<forall>m\<in>set ms. length m \<le> MAX_PLAINTEXT"
    and "quiet u" "script_bytes u = frames L c ms @ be16 (word_of_nat (length ct)) @ ct @ rest"
    and "length ct < 65536" "\<forall>d'. R (after L ms c) d' \<longrightarrow> snd (decrypt L d' ct) = None"
  shows "\<exists>bs s' u'. read_session L ns (noise_stream_new d0 d) u = Returns (bs, s', u') \<and>
    prefix bs (concat ms)"
proof -
  let ?bad = "be16 (word_of_nat (length ct)) @ ct @ rest"
  obtain d' where d': "R (after L ms c) d'"
    "plaintext L d (frames L c ms @ ?bad) = concat ms @ plaintext L d' ?bad"
    using plaintext_frames_then[OF assms(1-3)] by blast
  have "frame_len ?bad = length ct" using assms(6) by (simp add: frame_len_def unat_of_nat)
  moreover have "snd (decrypt L d' ct) = None" using assms(7) d'(1) by blast
  ultimately have "plaintext L d' ?bad = []"
    by (subst plaintext.simps) (auto split: prod.splits)
  with d'(2) read_session_stream[of "noise_stream_new d0 d" u L ns] assms(4,5) show ?thesis
    by (auto simp: to_read_new)
qed

theorem tampering_ends_the_stream_witness:
  "\<exists>bs s' u'. read_session toy_noise [4, 4] (noise_stream_new 9 5)
      \<lparr>wscript = [], wire = [], rscript = [RData (sample_wire @ [0, 16] @ replicate 16 7 @ sample_wire)]\<rparr> =
      Returns (bs, s', u') \<and> prefix bs [104, 105]"
proof -
  let ?u = "\<lparr>wscript = [], wire = [], rscript = [RData (sample_wire @ [0, 16] @ replicate 16 7 @ sample_wire)]\<rparr>"
  have "script_bytes ?u = frames toy_noise 5 [[104, 105]] @
      be16 (word_of_nat (length (replicate 16 7 :: bytes))) @ replicate 16 7 @ sample_wire" by code_simp
  moreover have "quiet ?u" by (simp add: quiet_def sample_wire_def)
  moreover have "snd (decrypt toy_noise 6 (replicate 16 7)) = None" by code_simp
  moreover have "after toy_noise [[104, 105]] 5 = 6" by code_simp
  ultimately show ?thesis
    using tampering_ends_the_stream[OF toy_ciphers_agree refl, of "[[104, 105]]" ?u 5 "replicate 16 7"
        sample_wire "[4, 4]" 9]
    by (simp add: MAX_PLAINTEXT_def)
qed

lemma read_session_safe:
  "reader_ok s \<Longrightarrow> \<exists>bs s' t'. read_session L ns s t = Returns (bs, s', t') \<and> reader_ok s' \<and>
     length bs \<le> sum_list ns"
proof (induction ns arbitrary: s t)
  case (Cons n ns)
  from poll_read_polled[OF Cons.prems, of L t n] obtain r s1 t1 where
    p: "poll_read L s t n = Returns (r, s1, t1)" and rp: "read_polled L s t n (r, s1, t1)"
    by (metis prod_cases3)
  from rp have ok: "reader_ok s1" and cap: "\<And>bs. r = Ready (Inr bs) \<Longrightarrow> length bs \<le> n"
    by (auto simp: read_polled_def)
  from Cons.IH[OF ok, of t1] obtain out s2 t2 where
    "read_session L ns s1 t1 = Returns (out, s2, t2)" "reader_ok s2" "length out \<le> sum_list ns" by blast
  with p ok cap show ?case by (auto split: poll.splits sum.splits)
qed simp

text \<open>
  C31: reading is safe for every byte stream a peer may send, every split of it, with errors and
  ends of file anywhere: no poll panics (the length prefix and frame slices are always in
  range), no poll hands out more than the buffer holds, and the raw buffer stays below
  24594 bytes (a maximal frame and one read of the transport).
\<close>

theorem poll_read_safe:
  "\<exists>bs s' t'. read_session L ns (noise_stream_new c d) t = Returns (bs, s', t') \<and>
     length (read_raw s') < 24594 \<and> length bs \<le> sum_list ns"
  using read_session_safe[OF noise_stream_new_simps(4), of L ns c d t] unfolding reader_ok_def by blast

text \<open>
  C40: A stream that is cut after the first byte of a frame's length prefix is reported to the
  reader as a clean end of file, an empty read, just as one that is cut between two frames; a cut
  anywhere later in the frame is an \<open>UnexpectedEof\<close> error. This holds for every frame, at
  every later position, in every state in which all frames before it have been read, whatever part
  of it had arrived before, and however the rest is split into reads.
\<close>

theorem cut_length_prefix_is_clean_eof:
  assumes "reader_ok s" "length (read_plain s) \<le> read_off s"
    and "16 \<le> length ct" "length ct \<le> 16400" "frame = be16 (word_of_nat (length ct)) @ ct"
    and "k < length frame" "ends_after t bs" "read_raw s @ bs = take k frame"
  shows "\<exists>s' t'. poll_read L s t n = Returns (if k < 2 then Ready (Inr []) else Ready (Inl UnexpectedEof), s', t')"
proof -
  have len: "length (read_raw s @ bs) = k" using assms(6,8) by simp
  have "frame_len frame = length ct"
    using assms(4) unat_frame_len[of "length ct"] by (simp add: frame_len_def assms(5))
  then have "frame_len (take k frame) = length ct" if "2 \<le> k"
    using that assms(6) by (simp add: frame_len_def)
  then have "k < 2 \<or> frame_len_ok (read_raw s @ bs) \<and> k < 2 + frame_len (read_raw s @ bs)"
    using assms(3-6) len unfolding assms(8) by (auto simp: frame_len_ok_def)
  with poll_read_cut[OF assms(7,1,2), of L n] show ?thesis unfolding len by simp
qed

theorem cut_length_prefix_is_clean_eof_witness:
  "(\<exists>s' t'. poll_read toy_noise (noise_stream_new 0 0) \<lparr>wscript = [], wire = [], rscript = [RData [0], RData []]\<rparr> 8 =
      Returns (Ready (Inr []), s', t')) \<and>
   (\<exists>s' t'. poll_read toy_noise (noise_stream_new 0 0)
        \<lparr>wscript = [], wire = [], rscript = [RData [0, 16, 1], RData [2], RData []]\<rparr> 8 =
      Returns (Ready (Inl UnexpectedEof), s', t'))"
proof -
  let ?ct = "[1, 2] @ replicate 14 0" and ?s = "noise_stream_new 0 0"
  let ?t1 = "\<lparr>wscript = [], wire = [], rscript = [RData [0], RData []]\<rparr>"
  let ?t2 = "\<lparr>wscript = [], wire = [], rscript = [RData [0, 16, 1], RData [2], RData []]\<rparr>"
  have f: "be16 16 = [0, 16]" by code_simp
  have e: "ends_after ?t1 [0]" "ends_after ?t2 [0, 16, 1, 2]"
    by (simp_all add: ends_after_def script_bytes_def chunk_def)
  have s: "reader_ok ?s" "length (read_plain ?s) \<le> read_off ?s" "read_raw ?s = []"
    by (rule reader_ok_new, simp_all add: noise_stream_new_def)
  have "\<exists>s' t'. poll_read toy_noise ?s ?t1 8 = Returns (if 1 < (2::nat) then Ready (Inr []) else Ready (Inl UnexpectedEof), s', t')"
    by (rule cut_length_prefix_is_clean_eof[OF s(1,2) _ _ refl _ e(1), where ct = "?ct"]) (simp_all add: f s(3))
  moreover have "\<exists>s' t'. poll_read toy_noise ?s ?t2 8 = Returns (if 4 < (2::nat) then Ready (Inr []) else Ready (Inl UnexpectedEof), s', t')"
    by (rule cut_length_prefix_is_clean_eof[OF s(1,2) _ _ refl _ e(2), where ct = "?ct"]) (simp_all add: f s(3))
  ultimately show ?thesis by simp
qed

end
