(* ===== verification/Wire_Protocol.thy ===== *)
theory Wire_Protocol
  imports Stream_IO
begin

text \<open>
  The per-stream header of \<open>protocol.rs\<close>: a \<open>ConnectRequest\<close> is a port in two big-endian
  bytes, a \<open>ConnectResponse\<close> one code byte. Both are message formats in the sense of
  \<open>Stream_IO\<close>, so pipelined messages are read back exactly and a cut stream is an error.
\<close>

record connect_request =
  port :: u16

datatype connect_response = RespOk | RespDenied | RespUnreachable

fun code :: "connect_response \<Rightarrow> byte" where
  "code RespOk = 0"
| "code RespDenied = 1"
| "code RespUnreachable = 2"

definition from_code :: "byte \<Rightarrow> error + connect_response" where
  "from_code b =
     (if b = 0 then Inr RespOk
      else if b = 1 then Inr RespDenied
      else if b = 2 then Inr RespUnreachable
      else Inl (Protocol ''invalid connect response code''))"

definition write_connect_request :: "connect_request \<Rightarrow> unit io" where
  "write_connect_request req =
     io_bind (write_all (be16 (port req))) (\<lambda>_.
     io_bind flush (\<lambda>_.
     io_return ()))"

definition read_connect_request :: "connect_request io" where
  "read_connect_request =
     io_bind (read_exact 2) (\<lambda>p.
     io_return \<lparr>port = of_be16 p\<rparr>)"

definition write_connect_response :: "connect_response \<Rightarrow> unit io" where
  "write_connect_response resp =
     io_bind (write_all [code resp]) (\<lambda>_.
     io_bind flush (\<lambda>_.
     io_return ()))"

definition read_connect_response :: "connect_response io" where
  "read_connect_response =
     io_bind (read_exact 1) (\<lambda>c.
     (case from_code (c ! 0) of Inl e \<Rightarrow> io_fail e | Inr r \<Rightarrow> io_return r))"

lemma from_code_code [simp]: "from_code (code r) = Inr r"
  by (cases r) (simp_all add: from_code_def)

lemma from_code_Inr: "from_code b = Inr r \<longleftrightarrow> b = code r"
  by (cases r) (auto simp: from_code_def)

lemma read_connect_request_at:
  "incoming c = be16 (port m) @ rest \<Longrightarrow>
     read_connect_request c = (Done m, c\<lparr>incoming := rest\<rparr>)"
  by (simp add: read_connect_request_def io_bind_def io_return_def read_exact_def)

lemma read_connect_response_at:
  "incoming c = code m # rest \<Longrightarrow>
     read_connect_response c = (Done m, c\<lparr>incoming := rest\<rparr>)"
  by (simp add: read_connect_response_def io_bind_def io_return_def read_exact_def)

interpretation request: wire_channel "\<lambda>_. True" "\<lambda>m. be16 (port m)" read_connect_request
  write_connect_request
proof unfold_locales
  fix c c' m
  assume "read_connect_request c = (Done m, c')"
  then show "True \<and> incoming c = be16 (port m) @ incoming c'"
    by (auto simp: read_connect_request_def io_bind_Done_iff read_exact_Done_iff io_return_def
          u16_field.split_field)
next
  fix c :: conn and m :: connect_request
  assume cut: "strict_prefix (incoming c) (be16 (port m))" and eof: "incoming_end c = EndEof"
  have "length (incoming c) < 2" using prefix_length_less[OF cut] by simp
  with eof show "fst (read_connect_request c) = Failed (Io UnexpectedEof)"
    by (simp add: read_connect_request_def io_simps)
next
  fix c :: conn and m :: connect_request
  assume "sends_ok c"
  then show "write_connect_request m c = (Done (), c\<lparr>sent := sent c @ be16 (port m)\<rparr>)"
    by (simp add: write_connect_request_def io_bind_def io_return_def write_all_ok flush_ok)
qed (simp_all add: read_connect_request_at)

interpretation response: wire_channel "\<lambda>_. True" "\<lambda>m. [code m]" read_connect_response
  write_connect_response
proof unfold_locales
  fix c c' m
  assume "read_connect_response c = (Done m, c')"
  then have "from_code (take 1 (incoming c) ! 0) = Inr m" "1 \<le> length (incoming c)"
    "c' = c\<lparr>incoming := drop 1 (incoming c)\<rparr>"
    by (auto simp: read_connect_response_def io_bind_Done_iff read_exact_Done_iff io_return_def
          io_fail_def split: sum.splits)
  then show "True \<and> incoming c = [code m] @ incoming c'"
    by (cases "incoming c") (auto simp: from_code_Inr)
next
  fix c :: conn and m :: connect_response
  assume cut: "strict_prefix (incoming c) [code m]" and eof: "incoming_end c = EndEof"
  have "length (incoming c) < 1" using prefix_length_less[OF cut] by simp
  with eof show "fst (read_connect_response c) = Failed (Io UnexpectedEof)"
    by (simp add: read_connect_response_def io_simps)
next
  fix c :: conn and m :: connect_response
  assume "sends_ok c"
  then show "write_connect_response m c = (Done (), c\<lparr>sent := sent c @ [code m]\<rparr>)"
    by (simp add: write_connect_response_def io_bind_def io_return_def write_all_ok flush_ok)
qed (simp_all add: read_connect_response_at)

section \<open>Properties\<close>

text \<open>
  Any sequence of connect requests written on a working stream is read back by the peer
  as the same sequence, the bytes after it untouched.
\<close>

theorem request_channel_roundtrip:
  assumes "sends_ok c" "write_many write_connect_request ms c = (r, c')"
    and "incoming d = drop (length (sent c)) (sent c') @ rest"
  shows "r = Done () \<and>
    read_many read_connect_request (length ms) d = (Done ms, d\<lparr>incoming := rest\<rparr>)"
  by (rule request.channel_roundtrip) (use assms in \<open>simp_all add: list_all_iff\<close>)


theorem request_channel_roundtrip_witness:
  "read_many read_connect_request (length [80 :: nat, 443]) \<lparr>incoming = [0, 80, 1, 187, 7], incoming_end = EndOpen, sent = [],
      send_limit = None, flush_fails = None\<rparr> =
    (Done [\<lparr>port = 80\<rparr>, \<lparr>port = 443\<rparr>], \<lparr>incoming = [7], incoming_end = EndOpen, sent = [],
      send_limit = None, flush_fails = None\<rparr>)"
proof -
  let ?c = "\<lparr>incoming = [], incoming_end = EndEof, sent = [9], send_limit = None, flush_fails = None\<rparr> :: conn"
  let ?ms = "[\<lparr>port = 80\<rparr>, \<lparr>port = 443\<rparr>] :: connect_request list"
  let ?d = "\<lparr>incoming = [0, 80, 1, 187, 7], incoming_end = EndOpen, sent = [],
      send_limit = None, flush_fails = None\<rparr> :: conn"
  have w: "write_many write_connect_request ?ms ?c = (Done (), ?c\<lparr>sent := [9, 0, 80, 1, 187]\<rparr>)" by code_simp
  show ?thesis
    using request_channel_roundtrip[OF _ w, of ?d "[7]"] by (simp add: sends_ok_def del: read_many.simps)
qed

end
