(* ===== verification/Net_Addr.thy ===== *)
theory Net_Addr
  imports Rust_Strings
begin

text \<open>
  The internet addresses of \<open>std::net\<close>: the types, their printed form and the parsers
  behind \<open>str::parse\<close> (the recursive-descent parser of the standard library, which never
  backtracks over an accepted prefix and wants the whole text consumed). The configuration
  code reads every address through these parsers and writes them back with \<open>to_string\<close>.
\<close>

datatype ipv4addr = Ipv4Addr byte byte byte byte

text \<open>An IPv6 address is its eight 16-bit segments.\<close>

type_synonym ipv6addr = "u16 list"

datatype ipaddr = IpV4 ipv4addr | IpV6 ipv6addr

datatype socket_addr =
    SockV4 ipv4addr u16
  | SockV6 ipv6addr u16 u32 u32

fun sock_ip :: "socket_addr \<Rightarrow> ipaddr" where
  "sock_ip (SockV4 ip p) = IpV4 ip"
| "sock_ip (SockV6 ip p fl sc) = IpV6 ip"

fun sock_port :: "socket_addr \<Rightarrow> u16" where
  "sock_port (SockV4 ip p) = p"
| "sock_port (SockV6 ip p fl sc) = p"

fun is_ipv4 :: "socket_addr \<Rightarrow> bool" where
  "is_ipv4 (SockV4 ip p) = True"
| "is_ipv4 (SockV6 ip p fl sc) = False"

fun sock_new :: "ipaddr \<Rightarrow> u16 \<Rightarrow> socket_addr" where
  "sock_new (IpV4 ip) p = SockV4 ip p"
| "sock_new (IpV6 ip) p = SockV6 ip p 0 0"

text \<open>\<open>u32::from(Ipv4Addr)\<close> and \<open>Ipv4Addr::from(u32)\<close>: network byte order.\<close>

fun ipv4_octets :: "ipv4addr \<Rightarrow> bytes" where
  "ipv4_octets (Ipv4Addr a b c d) = [a, b, c, d]"

definition ipv4_to_u32 :: "ipv4addr \<Rightarrow> u32" where
  "ipv4_to_u32 ip = word_of_nat (nat_of_be (ipv4_octets ip))"

definition ipv4_of_u32 :: "u32 \<Rightarrow> ipv4addr" where
  "ipv4_of_u32 w =
     (case nat_to_be 4 (unat w) of
        [a, b, c, d] \<Rightarrow> Ipv4Addr a b c d
      | _ \<Rightarrow> Ipv4Addr 0 0 0 0)"

lemma list4: "length xs = 4 \<Longrightarrow> \<exists>a b c d. xs = [a, b, c, d]"
  by (cases xs; cases "tl xs"; cases "tl (tl xs)"; cases "tl (tl (tl xs))") auto

lemma ipv4_octets_of_u32: "ipv4_octets (ipv4_of_u32 w) = nat_to_be 4 (unat w)"
proof -
  have "length (nat_to_be 4 (unat w)) = 4" by simp
  then obtain a b c d where "nat_to_be 4 (unat w) = [a, b, c, d]"
    using list4 by blast
  then show ?thesis by (simp add: ipv4_of_u32_def)
qed

lemma length_ipv4_octets [simp]: "length (ipv4_octets ip) = 4"
  by (cases ip) simp

lemma ipv4_octets_inject: "ipv4_octets x = ipv4_octets y \<longleftrightarrow> x = y"
  by (cases x; cases y) simp

lemma ipv4_to_of_u32 [simp]: "ipv4_to_u32 (ipv4_of_u32 w) = w"
proof -
  have "unat w < 4294967296" using unsigned_less[of w, where ?'a = nat] by simp
  then show ?thesis by (simp add: ipv4_to_u32_def ipv4_octets_of_u32 nat_of_be_to_be)
qed

lemma unat_ipv4_to_u32: "unat (ipv4_to_u32 ip) = nat_of_be (ipv4_octets ip)"
  using nat_of_be_less[of "ipv4_octets ip"] by (simp add: ipv4_to_u32_def unat_of_nat)

lemma ipv4_of_to_u32 [simp]: "ipv4_of_u32 (ipv4_to_u32 ip) = ip"
  by (simp add: ipv4_octets_inject [symmetric] ipv4_octets_of_u32 unat_ipv4_to_u32 nat_to_be_of_be)

lemma ipv4_of_u32_inject: "ipv4_of_u32 x = ipv4_of_u32 y \<longleftrightarrow> x = y"
  by (metis ipv4_to_of_u32)

text \<open>Addresses are ordered by their octets, that is by their number.\<close>

instantiation ipv4addr :: linorder
begin

definition less_eq_ipv4addr :: "ipv4addr \<Rightarrow> ipv4addr \<Rightarrow> bool" where
  "a \<le> b \<longleftrightarrow> ipv4_to_u32 a \<le> ipv4_to_u32 b"

definition less_ipv4addr :: "ipv4addr \<Rightarrow> ipv4addr \<Rightarrow> bool" where
  "a < b \<longleftrightarrow> ipv4_to_u32 a < ipv4_to_u32 b"

instance
proof
  fix a b :: ipv4addr
  assume "a \<le> b" "b \<le> a"
  then have "ipv4_to_u32 a = ipv4_to_u32 b" by (simp add: less_eq_ipv4addr_def)
  then show "a = b" by (metis ipv4_of_to_u32)
qed (auto simp: less_eq_ipv4addr_def less_ipv4addr_def)

end

section \<open>Printing\<close>

fun ipv4_to_string :: "ipv4addr \<Rightarrow> string" where
  "ipv4_to_string (Ipv4Addr a b c d) =
     join_with ''.'' [nat_to_dec (unat a), nat_to_dec (unat b), nat_to_dec (unat c), nat_to_dec (unat d)]"

text \<open>
  \<open>Display for Ipv6Addr\<close>: an IPv4-mapped address prints its last four bytes dotted; the
  first longest run of at least two zero segments prints as a double colon.
\<close>

fun zero_runs :: "nat \<Rightarrow> ipv6addr \<Rightarrow> (nat \<times> nat) list" where
  "zero_runs i [] = []"
| "zero_runs i (s # ss) =
     (i, length (takeWhile (\<lambda>x. x = 0) (s # ss))) # zero_runs (Suc i) ss"

definition longest_run :: "ipv6addr \<Rightarrow> nat \<times> nat" where
  "longest_run segs =
     fold (\<lambda>(i, n) (bi, bn). if bn < n then (i, n) else (bi, bn)) (zero_runs 0 segs) (0, 0)"

definition segs_to_string :: "ipv6addr \<Rightarrow> string" where
  "segs_to_string segs = join_with '':'' (map (\<lambda>s. nat_to_hex (unat s)) segs)"

definition ipv6_to_string :: "ipv6addr \<Rightarrow> string" where
  "ipv6_to_string segs =
     (if take 6 segs = [0, 0, 0, 0, 0, 0xffff] \<and> length segs = 8
      then ''::ffff:'' @ join_with ''.''
             (map (\<lambda>b. nat_to_dec (unat b)) (concat (map be16 (drop 6 segs))))
      else (case longest_run segs of (i, n) \<Rightarrow>
        if 1 < n
        then segs_to_string (take i segs) @ ''::'' @ segs_to_string (drop (i + n) segs)
        else segs_to_string segs))"

fun ip_to_string :: "ipaddr \<Rightarrow> string" where
  "ip_to_string (IpV4 ip) = ipv4_to_string ip"
| "ip_to_string (IpV6 ip) = ipv6_to_string ip"

fun sock_to_string :: "socket_addr \<Rightarrow> string" where
  "sock_to_string (SockV4 ip p) = ipv4_to_string ip @ '':'' @ nat_to_dec (unat p)"
| "sock_to_string (SockV6 ip p fl sc) =
     (if sc = 0 then ''['' @ ipv6_to_string ip @ '']:'' @ nat_to_dec (unat p)
      else ''['' @ ipv6_to_string ip @ ''%'' @ nat_to_dec (unat sc) @ '']:'' @ nat_to_dec (unat p))"

section \<open>Parsing\<close>

type_synonym 'a parser = "string \<Rightarrow> ('a \<times> string) option"

definition given_char :: "char \<Rightarrow> unit parser" where
  "given_char c s = (case s of x # xs \<Rightarrow> if x = c then Some ((), xs) else None | [] \<Rightarrow> None)"

definition read_number :: "nat \<Rightarrow> nat option \<Rightarrow> bool \<Rightarrow> nat \<Rightarrow> nat parser" where
  "read_number radix max_digits allow_zero_prefix bound s =
     (let ds = takeWhile (is_digit radix) s in
      if ds = [] then None
      else if (case max_digits of None \<Rightarrow> False | Some m \<Rightarrow> m < length ds) then None
      else if \<not> allow_zero_prefix \<and> hd ds = CHR ''0'' \<and> 1 < length ds then None
      else if digits_value radix ds < bound
      then Some (digits_value radix ds, drop (length ds) s) else None)"

definition read_separator :: "char \<Rightarrow> nat \<Rightarrow> 'a parser \<Rightarrow> 'a parser" where
  "read_separator sep i p s =
     (if i = 0 then p s
      else (case given_char sep s of None \<Rightarrow> None | Some (_, r) \<Rightarrow> p r))"

definition read_octet :: "nat \<Rightarrow> byte parser" where
  "read_octet i s =
     map_option (\<lambda>(n, r). (word_of_nat n, r))
       (read_separator CHR ''.'' i (read_number 10 (Some 3) False 256) s)"

definition read_ipv4_addr :: "ipv4addr parser" where
  "read_ipv4_addr s =
     Option.bind (read_octet 0 s) (\<lambda>(a, r0).
     Option.bind (read_octet 1 r0) (\<lambda>(b, r1).
     Option.bind (read_octet 2 r1) (\<lambda>(c, r2).
     Option.bind (read_octet 3 r2) (\<lambda>(d, r3).
     Some (Ipv4Addr a b c d, r3)))))"

text \<open>
  \<open>read_groups\<close>: up to \<open>limit\<close> segments from index \<open>i\<close>, an embedded IPv4 address allowed
  while two segments are left; it returns the segments, whether they ended in an IPv4
  address, and the rest.
\<close>

function read_groups :: "nat \<Rightarrow> nat \<Rightarrow> string \<Rightarrow> ipv6addr \<times> bool \<times> string" where
  "read_groups limit i s =
     (if limit \<le> i then ([], False, s)
      else (case (if Suc i < limit then read_separator CHR '':'' i read_ipv4_addr s else None) of
          Some (Ipv4Addr a b c d, r) \<Rightarrow> ([of_be16 [a, b], of_be16 [c, d]], True, r)
        | None \<Rightarrow>
            (case read_separator CHR '':'' i (read_number 16 (Some 4) True 65536) s of
               None \<Rightarrow> ([], False, s)
             | Some (g, r) \<Rightarrow>
                 (case read_groups limit (Suc i) r of
                    (gs, v4, r') \<Rightarrow> (word_of_nat g # gs, v4, r')))))"
  by pat_completeness auto
termination
  by (relation "measure (\<lambda>(limit, i, s). limit - i)") auto

declare read_groups.simps [simp del]

definition read_ipv6_addr :: "ipv6addr parser" where
  "read_ipv6_addr s =
     (case read_groups 8 0 s of (head, head_v4, r) \<Rightarrow>
        if length head = 8 then Some (head, r)
        else if head_v4 then None
        else Option.bind (given_char CHR '':'' r) (\<lambda>(_, r1).
             Option.bind (given_char CHR '':'' r1) (\<lambda>(_, r2).
             (case read_groups (8 - (length head + 1)) 0 r2 of (tail, _, r3) \<Rightarrow>
                Some (head @ replicate (8 - length head - length tail) 0 @ tail, r3)))))"

definition read_port :: "u16 parser" where
  "read_port s =
     Option.bind (given_char CHR '':'' s) (\<lambda>(_, r).
     map_option (\<lambda>(n, r'). (word_of_nat n, r')) (read_number 10 None True 65536 r))"

definition read_scope_id :: "u32 parser" where
  "read_scope_id s =
     Option.bind (given_char CHR ''%'' s) (\<lambda>(_, r).
     map_option (\<lambda>(n, r'). (word_of_nat n, r')) (read_number 10 None True (2 ^ 32) r))"

definition read_socket_addr_v4 :: "socket_addr parser" where
  "read_socket_addr_v4 s =
     Option.bind (read_ipv4_addr s) (\<lambda>(ip, r).
     Option.bind (read_port r) (\<lambda>(p, r'). Some (SockV4 ip p, r')))"

definition read_socket_addr_v6 :: "socket_addr parser" where
  "read_socket_addr_v6 s =
     Option.bind (given_char CHR ''['' s) (\<lambda>(_, r0).
     Option.bind (read_ipv6_addr r0) (\<lambda>(ip, r1).
     (case (case read_scope_id r1 of None \<Rightarrow> (0, r1) | Some x \<Rightarrow> x) of (sc, r2) \<Rightarrow>
     Option.bind (given_char CHR '']'' r2) (\<lambda>(_, r3).
     Option.bind (read_port r3) (\<lambda>(p, r4). Some (SockV6 ip p 0 sc, r4))))))"

definition parse_all :: "'a parser \<Rightarrow> string \<Rightarrow> 'a option" where
  "parse_all p s = (case p s of Some (x, []) \<Rightarrow> Some x | _ \<Rightarrow> None)"

definition parse_ipv4 :: "string \<Rightarrow> ipv4addr option" where
  "parse_ipv4 s = (if 15 < length s then None else parse_all read_ipv4_addr s)"

definition parse_socket_addr :: "string \<Rightarrow> socket_addr option" where
  "parse_socket_addr s =
     parse_all (\<lambda>s. case read_socket_addr_v4 s of None \<Rightarrow> read_socket_addr_v6 s | r \<Rightarrow> r) s"

section \<open>Printed addresses are read back\<close>

definition stops :: "nat \<Rightarrow> string \<Rightarrow> bool" where
  "stops radix s \<longleftrightarrow> (case s of [] \<Rightarrow> True | c # _ \<Rightarrow> \<not> is_digit radix c)"

lemma takeWhile_digits:
  "2 \<le> radix \<Longrightarrow> radix \<le> 16 \<Longrightarrow> stops radix s \<Longrightarrow>
     takeWhile (is_digit radix) (nat_to_radix radix n @ s) = nat_to_radix radix n"
  using nat_to_radix_digits[of radix n]
  by (cases s) (auto simp: stops_def takeWhile_append takeWhile_eq_all_conv)

lemma read_number_dec:
  assumes "stops 10 s" "n < bound" "\<And>m. max_digits = Some m \<Longrightarrow> length (nat_to_dec n) \<le> m"
  shows "read_number 10 max_digits zp bound (nat_to_dec n @ s) = Some (n, s)"
proof -
  have len: "length (nat_to_dec n) \<le> 1" if "hd (nat_to_dec n) = CHR ''0''"
    using that hd_nat_to_dec[of n] by (simp add: nat_to_radix.simps)
  show ?thesis
    using assms len takeWhile_digits[of 10 s n] digits_value_radix[of 10 n]
    by (auto simp: read_number_def Let_def split: option.splits)
qed

lemma read_octet_print:
  assumes "stops 10 s"
  shows "read_octet 0 (nat_to_dec (unat b) @ s) = Some (b, s)"
    and "0 < i \<Longrightarrow> read_octet i (CHR ''.'' # nat_to_dec (unat b) @ s) = Some (b, s)"
proof -
  have "read_number 10 (Some 3) False 256 (nat_to_dec (unat b) @ s) = Some (unat b, s)"
    using assms by (intro read_number_dec) (auto simp: length_nat_to_dec_byte)
  then show "read_octet 0 (nat_to_dec (unat b) @ s) = Some (b, s)"
    and "0 < i \<Longrightarrow> read_octet i (CHR ''.'' # nat_to_dec (unat b) @ s) = Some (b, s)"
    by (simp_all add: read_octet_def read_separator_def given_char_def)
qed

lemma stops_dot [simp]: "stops 10 (CHR ''.'' # s)" and stops_Nil [simp]: "stops 10 []"
  and stops_colon [simp]: "stops 10 (CHR '':'' # s)"
  by (simp_all add: stops_def is_digit_def to_digit_def)

lemma read_ipv4_print: "stops 10 s \<Longrightarrow> read_ipv4_addr (ipv4_to_string ip @ s) = Some (ip, s)"
  by (cases ip) (simp add: read_ipv4_addr_def read_octet_print)

lemma length_ipv4_to_string: "length (ipv4_to_string ip) \<le> 15"
proof (cases ip)
  case (Ipv4Addr a b c d)
  then show ?thesis
    using length_nat_to_dec_byte[of a] length_nat_to_dec_byte[of b]
      length_nat_to_dec_byte[of c] length_nat_to_dec_byte[of d] by simp
qed

lemma parse_ipv4_print: "parse_ipv4 (ipv4_to_string ip) = Some ip"
  using read_ipv4_print[of "[]" ip] length_ipv4_to_string[of ip]
  by (simp add: parse_ipv4_def parse_all_def)

lemma ipv4_to_string_inject: "ipv4_to_string x = ipv4_to_string y \<longleftrightarrow> x = y"
  by (metis option.inject parse_ipv4_print)

lemma parse_socket_addr_v4_print: "parse_socket_addr (sock_to_string (SockV4 ip p)) = Some (SockV4 ip p)"
proof -
  have "unat p < 65536" using unsigned_less[of p, where ?'a = nat] by simp
  then have "read_number 10 None True 65536 (nat_to_dec (unat p)) = Some (unat p, [])"
    using read_number_dec[of "[]" "unat p" 65536 None True] by simp
  then have "read_port (CHR '':'' # nat_to_dec (unat p)) = Some (p, [])"
    by (simp add: read_port_def given_char_def)
  then show ?thesis
    using read_ipv4_print[of "CHR '':'' # nat_to_dec (unat p)" ip]
    by (simp add: parse_socket_addr_def parse_all_def read_socket_addr_v4_def)
qed

end
