(* ===== verification/Mux_Driver.thy ===== *)
theory Mux_Driver
  imports Stream_IO
begin

text \<open>
  The multiplexer driver of \<open>mux.rs\<close>. The yamux connection is a parameter: what its two poll
  functions will answer, as scripts (a script that has run out is pending). The driver task
  is the closure under \<open>poll_fn\<close>: \<open>driver_poll\<close> is one wake-up, a loop over turns; between
  wake-ups the open requests arrive on a queue (the \<open>mpsc\<close> channel), each with its reply
  channel, here a name. Streams are names too. The request queue includes the openers that wait,
  in order, for room among its \<open>OPEN_BACKLOG\<close> places. \<open>delivered\<close> is what was sent on the inbound
  channel, from which the server's acceptor takes it; \<open>client\<close> drops the receiving end at once, so
  there every send fails and the stream, opened by the server, is dropped (\<open>dropped\<close>).
\<close>

definition OPEN_BACKLOG :: nat where
  "OPEN_BACKLOG = 64"

record yamux_config =
  max_num_streams :: nat
  split_send_size :: nat

text \<open>\<open>config\<close>: the library's default with two fields set.\<close>

definition mux_config :: "yamux_config \<Rightarrow> yamux_config" where
  "mux_config dflt = dflt\<lparr>max_num_streams := 512, split_send_size := 16 * 1024\<rparr>"

section \<open>The driver\<close>

datatype outbound = OutPending | OutReady "string + nat"

datatype inbound = InPending | InStream nat | InError string | InClosed

record driver =
  out_script :: "outbound list"
  in_script :: "inbound list"
  open_queue :: "nat list"
  senders_gone :: bool
  open_rx :: bool
  pending_open :: "nat option"
  replies :: "(nat \<times> (string + nat)) list"
  inbound_rx :: bool
  delivered :: "nat list"
  dropped :: "nat list"

definition driver_new :: "bool \<Rightarrow> driver" where
  "driver_new is_client =
     \<lparr>out_script = [], in_script = [], open_queue = [], senders_gone = False, open_rx = is_client,
      pending_open = None, replies = [], inbound_rx = (\<not> is_client), delivered = [], dropped = []\<rparr>"

datatype driver_result = DriverPending | DriverDone | DriverFailed error

text \<open>The three polls of a turn, each with its \<open>progress\<close>; the second may end the task.\<close>

definition turn_outbound :: "driver \<Rightarrow> bool \<times> driver" where
  "turn_outbound d =
     (case pending_open d of
        None \<Rightarrow> (False, d)
      | Some reply \<Rightarrow>
          (case out_script d of
             OutReady result # os \<Rightarrow>
               (True, d\<lparr>out_script := os, pending_open := None, replies := replies d @ [(reply, result)]\<rparr>)
           | os \<Rightarrow> (False, d\<lparr>out_script := tl os, pending_open := Some reply\<rparr>)))"

definition turn_inbound :: "driver \<Rightarrow> driver_result option \<times> bool \<times> driver" where
  "turn_inbound d =
     (case in_script d of
        [] \<Rightarrow> (None, False, d)
      | InPending # is \<Rightarrow> (None, False, d\<lparr>in_script := is\<rparr>)
      | InStream s # is \<Rightarrow>
          (None, True,
           if inbound_rx d then d\<lparr>in_script := is, delivered := delivered d @ [s]\<rparr>
           else d\<lparr>in_script := is, dropped := dropped d @ [s]\<rparr>)
      | InError e # is \<Rightarrow> (Some (DriverFailed (Protocol (''yamux: '' @ e))), False, d\<lparr>in_script := is\<rparr>)
      | InClosed # is \<Rightarrow> (Some DriverDone, False, d\<lparr>in_script := is\<rparr>))"

definition turn_requests :: "driver \<Rightarrow> bool \<times> driver" where
  "turn_requests d =
     (if pending_open d = None \<and> open_rx d
      then (case open_queue d of
              reply # rs \<Rightarrow> (True, d\<lparr>open_queue := rs, pending_open := Some reply\<rparr>)
            | [] \<Rightarrow> if senders_gone d then (False, d\<lparr>open_rx := False\<rparr>) else (False, d))
      else (False, d))"

definition driver_turn :: "driver \<Rightarrow> driver_result option \<times> driver" where
  "driver_turn d =
     (case turn_outbound d of (p1, d1) \<Rightarrow>
      case turn_inbound d1 of
        (Some r, _, d2) \<Rightarrow> (Some r, d2)
      | (None, p2, d2) \<Rightarrow>
          (case turn_requests d2 of (p3, d3) \<Rightarrow>
             (if \<not> (p1 \<or> p2 \<or> p3) then Some DriverPending else None, d3)))"

definition driver_work :: "driver \<Rightarrow> nat" where
  "driver_work d = length (out_script d) + length (in_script d) + length (open_queue d)"

lemma turn_work:
  "turn_outbound d = (p, d') \<Longrightarrow> driver_work d' + (if p then 1 else 0) \<le> driver_work d"
  "turn_inbound d = (r, p, d') \<Longrightarrow> driver_work d' + (if p then 1 else 0) \<le> driver_work d"
  "turn_requests d = (p, d') \<Longrightarrow> driver_work d' + (if p then 1 else 0) \<le> driver_work d"
  by (auto simp: turn_outbound_def turn_inbound_def turn_requests_def driver_work_def
      split: option.splits list.splits outbound.splits inbound.splits if_splits)

lemma driver_turn_work:
  assumes "driver_turn d = (None, d')"
  shows "driver_work d' < driver_work d"
proof -
  obtain p1 d1 where 1: "turn_outbound d = (p1, d1)" by fastforce
  obtain r p2 d2 where 2: "turn_inbound d1 = (r, p2, d2)" by (metis prod_cases3)
  obtain p3 d3 where 3: "turn_requests d2 = (p3, d3)" by fastforce
  show ?thesis
    using assms turn_work(1)[OF 1] turn_work(2)[OF 2] turn_work(3)[OF 3]
    by (auto simp: driver_turn_def 1 2 3 split: option.splits if_splits)
qed

function driver_poll :: "driver \<Rightarrow> driver_result \<times> driver" where
  "driver_poll d =
     (case driver_turn d of
        (Some r, d') \<Rightarrow> (r, d')
      | (None, d') \<Rightarrow> driver_poll d')"
  by pat_completeness auto
termination
  by (relation "measure driver_work") (auto dest: driver_turn_work[OF sym])

declare driver_poll.simps [simp del]

section \<open>The two ends\<close>

text \<open>
  What happens to a driver between wake-ups: the connection makes progress, an opener queues
  its reply channel, the openers go away. \<open>client\<close> starts it with the request queue,
  \<open>server\<close> without.
\<close>

datatype mux_event =
    Wake "outbound list" "inbound list"
  | Request nat
  | SendersGone

type_synonym mux_task = "driver \<times> driver_result"

fun mux_step :: "mux_event \<Rightarrow> mux_task \<Rightarrow> mux_task" where
  "mux_step (Wake os is) (d, r) =
     (if r = DriverPending
      then (case driver_poll (d\<lparr>out_script := out_script d @ os, in_script := in_script d @ is\<rparr>) of
              (r', d') \<Rightarrow> (d', r'))
      else (d, r))"
| "mux_step (Request reply) (d, r) =
     (if r = DriverPending \<and> open_rx d \<and> \<not> senders_gone d
      then (d\<lparr>open_queue := open_queue d @ [reply]\<rparr>, r)
      else (d, r))"
| "mux_step SendersGone (d, r) = (d\<lparr>senders_gone := True\<rparr>, r)"

definition mux_run :: "mux_event list \<Rightarrow> mux_task \<Rightarrow> mux_task" where
  "mux_run es t = foldl (\<lambda>t e. mux_step e t) t es"

definition mux_client :: mux_task where
  "mux_client = (driver_new True, DriverPending)"

definition mux_server :: mux_task where
  "mux_server = (driver_new False, DriverPending)"

text \<open>
  \<open>MuxControl::open\<close> and \<open>MuxAcceptor::accept\<close>, for an opener whose request has the given
  name and an acceptor that has already taken \<open>n\<close> streams, seen at the end of a run.
\<close>

definition control_open :: "mux_task \<Rightarrow> nat \<Rightarrow> nat outcome" where
  "control_open t reply =
     (case t of (d, r) \<Rightarrow>
        (case map_of (replies d) reply of
           Some (Inr stream) \<Rightarrow> Done stream
         | Some (Inl e) \<Rightarrow> Failed (Protocol (''yamux open: '' @ e))
         | None \<Rightarrow> if r = DriverPending \<and> (reply \<in> set (open_queue d) \<or> pending_open d = Some reply)
                   then Stalled else Failed (Protocol ''mux driver stopped'')))"

definition acceptor_accept :: "mux_task \<Rightarrow> nat \<Rightarrow> nat option outcome" where
  "acceptor_accept t n =
     (case t of (d, r) \<Rightarrow>
        if n < length (delivered d) then Done (Some (delivered d ! n))
        else if r = DriverPending then Stalled else Done None)"


section \<open>First come, first served\<close>

definition in_flight :: "driver \<Rightarrow> nat list" where
  "in_flight d = map fst (replies d) @ (case pending_open d of None \<Rightarrow> [] | Some r \<Rightarrow> [r]) @ open_queue d"

definition ready_results :: "outbound list \<Rightarrow> (string + nat) list" where
  "ready_results os = concat (map (\<lambda>x. case x of OutReady r \<Rightarrow> [r] | OutPending \<Rightarrow> []) os)"

definition ready_streams :: "inbound list \<Rightarrow> nat list" where
  "ready_streams is = concat (map (\<lambda>x. case x of InStream s \<Rightarrow> [s] | _ \<Rightarrow> []) is)"

text \<open>The inbound streams that the driver has dealt with.\<close>

definition handled :: "driver \<Rightarrow> nat list" where
  "handled d = (if inbound_rx d then delivered d else dropped d)"

text \<open>What a step may change: it consumes from the front of the scripts and answers in order.\<close>

definition serves :: "driver \<Rightarrow> driver \<Rightarrow> bool" where
  "serves d d' \<longleftrightarrow>
     in_flight d' = in_flight d \<and>
     map snd (replies d') @ ready_results (out_script d') = map snd (replies d) @ ready_results (out_script d) \<and>
     handled d' @ ready_streams (in_script d') = handled d @ ready_streams (in_script d) \<and>
     inbound_rx d' = inbound_rx d \<and> (if inbound_rx d then dropped d' = dropped d else delivered d' = delivered d) \<and>
     senders_gone d' = senders_gone d \<and> (open_rx d' \<longrightarrow> open_rx d) \<and>
     (open_rx d \<and> \<not> open_rx d' \<longrightarrow> senders_gone d)"

named_theorems mux_simps

lemmas [mux_simps] = serves_def handled_def in_flight_def ready_results_def ready_streams_def

lemma serves_refl: "serves d d"
  by (simp add: serves_def)

lemma serves_trans: "serves d d' \<Longrightarrow> serves d' d'' \<Longrightarrow> serves d d''"
  by (auto simp: serves_def)

lemma serves_parts:
  "turn_outbound d = (p, d') \<Longrightarrow> serves d d'"
  "turn_inbound d = (r, p, d') \<Longrightarrow> serves d d'"
  "turn_requests d = (p, d') \<Longrightarrow> serves d d'"
proof -
  show "turn_outbound d = (p, d') \<Longrightarrow> serves d d'"
    by (cases "pending_open d"; cases "out_script d"; cases "hd (out_script d)")
       (auto simp: turn_outbound_def mux_simps)
  show "turn_inbound d = (r, p, d') \<Longrightarrow> serves d d'"
    by (cases "in_script d"; cases "hd (in_script d)"; cases "inbound_rx d") (auto simp: turn_inbound_def mux_simps)
  show "turn_requests d = (p, d') \<Longrightarrow> serves d d'"
    by (cases "pending_open d"; cases "open_queue d") (auto simp: turn_requests_def mux_simps split: if_splits)
qed

lemma turn_cases:
  assumes "driver_turn d = (r, d')"
  obtains p1 d1 q p2 d2 p3 d3 where "turn_outbound d = (p1, d1)" "turn_inbound d1 = (q, p2, d2)"
    "turn_requests d2 = (p3, d3)"
    "(\<exists>x. q = Some x \<and> r = Some x \<and> d' = d2) \<or> q = None \<and> d' = d3 \<and>
       r = (if p1 \<or> p2 \<or> p3 then None else Some DriverPending)"
proof -
  obtain p1 d1 where 1: "turn_outbound d = (p1, d1)" by fastforce
  obtain q p2 d2 where 2: "turn_inbound d1 = (q, p2, d2)" by (metis prod_cases3)
  obtain p3 d3 where 3: "turn_requests d2 = (p3, d3)" by fastforce
  show thesis
    using that[OF 1 2 3] assms by (auto simp: driver_turn_def 1 2 3 split: option.splits)
qed

lemma serves_turn: "driver_turn d = (r, d') \<Longrightarrow> serves d d'"
  by (erule turn_cases) (auto dest!: serves_parts intro: serves_trans)

lemma serves_poll: "driver_poll d = (r, d') \<Longrightarrow> serves d d'"
proof (induction d rule: driver_poll.induct)
  case (1 d)
  obtain q d1 where t: "driver_turn d = (q, d1)" by fastforce
  show ?case
  proof (cases q)
    case None
    with 1 t have "serves d1 d'" by (subst (asm) (2) driver_poll.simps) simp
    with serves_turn[OF t] show ?thesis by (rule serves_trans)
  next
    case (Some x)
    with "1.prems" t serves_turn[OF t] show ?thesis by (subst (asm) driver_poll.simps) simp
  qed
qed

text \<open>Replies are only added, and answering uses up no name twice.\<close>

lemma replies_parts:
  "turn_outbound d = (p, d') \<Longrightarrow> prefix (replies d) (replies d')"
  "turn_inbound d = (r, p, d') \<Longrightarrow> prefix (replies d) (replies d')"
  "turn_requests d = (p, d') \<Longrightarrow> prefix (replies d) (replies d')"
  by (auto simp: turn_outbound_def turn_inbound_def turn_requests_def
      split: option.splits list.splits outbound.splits inbound.splits if_splits)

lemma replies_turn: "driver_turn d = (r, d') \<Longrightarrow> prefix (replies d) (replies d')"
  by (erule turn_cases) (auto dest!: replies_parts intro: prefix_order.trans)

lemma replies_poll: "driver_poll d = (r, d') \<Longrightarrow> prefix (replies d) (replies d')"
proof (induction d rule: driver_poll.induct)
  case (1 d)
  obtain q d1 where t: "driver_turn d = (q, d1)" by fastforce
  show ?case
  proof (cases q)
    case None
    with 1 t have "prefix (replies d1) (replies d')" by (subst (asm) (2) driver_poll.simps) simp
    with replies_turn[OF t] show ?thesis using prefix_order.trans by blast
  next
    case (Some x)
    with "1.prems" t replies_turn[OF t] show ?thesis by (subst (asm) driver_poll.simps) simp
  qed
qed

lemma poll_idle:
  "driver_poll d = (DriverPending, d') \<Longrightarrow> pending_open d' = None \<Longrightarrow> open_rx d' \<Longrightarrow> open_queue d' = []"
proof (induction d rule: driver_poll.induct)
  case (1 d)
  obtain q d1 where t: "driver_turn d = (q, d1)" by fastforce
  show ?case
  proof (cases q)
    case None
    with 1 t show ?thesis by (subst (asm) (2) driver_poll.simps) simp
  next
    case (Some x)
    with "1.prems" t have "driver_turn d = (Some DriverPending, d')"
      by (subst (asm) driver_poll.simps) simp
    then show ?thesis
    proof (cases rule: turn_cases)
      case (1 p1 d1 q p2 d2 p3 d3)
      have "q \<noteq> Some DriverPending"
        using 1(2) by (auto simp: turn_inbound_def split: list.splits inbound.splits)
      with 1 have "turn_requests d2 = (False, d')" by (auto split: if_splits)
      with "1.prems" show ?thesis
        by (auto simp: turn_requests_def split: list.splits if_splits)
    qed
  qed
qed

definition requests :: "mux_event list \<Rightarrow> nat list" where
  "requests es = concat (map (\<lambda>e. case e of Request r \<Rightarrow> [r] | _ \<Rightarrow> []) es)"

text \<open>The requests that were made before the openers went away.\<close>

definition accepted :: "mux_event list \<Rightarrow> nat list" where
  "accepted es = requests (takeWhile (\<lambda>e. e \<noteq> SendersGone) es)"

definition outcomes :: "mux_event list \<Rightarrow> (string + nat) list" where
  "outcomes es = concat (map (\<lambda>e. case e of Wake os is \<Rightarrow> ready_results os | _ \<Rightarrow> []) es)"

definition arrivals :: "mux_event list \<Rightarrow> nat list" where
  "arrivals es = concat (map (\<lambda>e. case e of Wake os is \<Rightarrow> ready_streams is | _ \<Rightarrow> []) es)"

lemma events_snoc [simp]:
  "outcomes (es @ [Wake os is]) = outcomes es @ ready_results os"
  "arrivals (es @ [Wake os is]) = arrivals es @ ready_streams is"
  "outcomes (es @ [Request q]) = outcomes es" "arrivals (es @ [Request q]) = arrivals es"
  "outcomes (es @ [SendersGone]) = outcomes es" "arrivals (es @ [SendersGone]) = arrivals es"
  by (simp_all add: outcomes_def arrivals_def)

lemma accepted_snoc [simp]:
  "accepted (es @ [Wake os is]) = accepted es" "accepted (es @ [SendersGone]) = accepted es"
  "accepted (es @ [Request q]) = accepted es @ (if SendersGone \<in> set es then [] else [q])"
proof -
  have "takeWhile (\<lambda>e. e \<noteq> SendersGone) (es @ [x]) =
      takeWhile (\<lambda>e. e \<noteq> SendersGone) es @ (if SendersGone \<in> set es \<or> x = SendersGone then [] else [x])" for x
    by (induction es) auto
  then show "accepted (es @ [Wake os is]) = accepted es" "accepted (es @ [SendersGone]) = accepted es"
    "accepted (es @ [Request q]) = accepted es @ (if SendersGone \<in> set es then [] else [q])"
    by (simp_all add: accepted_def requests_def)
qed

lemma accepted_requests: "prefix (accepted es) (requests es)"
proof -
  have "requests es = accepted es @ requests (dropWhile (\<lambda>e. e \<noteq> SendersGone) es)"
    unfolding accepted_def requests_def concat_append[symmetric] map_append[symmetric] takeWhile_dropWhile_id ..
  then show ?thesis by simp
qed

lemma ready_append [simp]:
  "ready_results (xs @ ys) = ready_results xs @ ready_results ys"
  "ready_streams (us @ vs) = ready_streams us @ ready_streams vs"
  by (simp_all add: ready_results_def ready_streams_def)

text \<open>A driver against the history of its events; \<open>is_client\<close> is which end it serves.\<close>

definition accounted :: "bool \<Rightarrow> mux_event list \<Rightarrow> mux_task \<Rightarrow> bool" where
  "accounted is_client es t \<longleftrightarrow> (case t of (d, r) \<Rightarrow>
     prefix (in_flight d) (accepted es) \<and> (is_client \<and> r = DriverPending \<longrightarrow> in_flight d = accepted es) \<and>
     (is_client \<and> SendersGone \<notin> set es \<longrightarrow> open_rx d) \<and> (\<not> is_client \<longrightarrow> \<not> open_rx d \<and> in_flight d = []) \<and>
     senders_gone d = (SendersGone \<in> set es) \<and> inbound_rx d = (\<not> is_client) \<and>
     (if is_client then delivered d = [] else dropped d = []) \<and>
     prefix (map snd (replies d) @ ready_results (out_script d)) (outcomes es) \<and>
     prefix (handled d @ ready_streams (in_script d)) (arrivals es) \<and>
     (r = DriverPending \<longrightarrow> map snd (replies d) @ ready_results (out_script d) = outcomes es \<and>
        handled d @ ready_streams (in_script d) = arrivals es))"

lemma accounted_step:
  assumes "accounted c es t"
  shows "accounted c (es @ [e]) (mux_step e t)"
proof -
  obtain d r where t: "t = (d, r)" by (cases t)
  show ?thesis
  proof (cases e)
    case (Wake os "is")
    let ?d = "d\<lparr>out_script := out_script d @ os, in_script := in_script d @ is\<rparr>"
    obtain q d' where p: "driver_poll ?d = (q, d')" by fastforce
    show ?thesis
    proof (cases "r = DriverPending")
      case True
      have "in_flight ?d = in_flight d" "handled ?d = handled d" by (simp_all add: in_flight_def handled_def)
      with serves_poll[OF p] have s: "in_flight d' = in_flight d"
        "map snd (replies d') @ ready_results (out_script d') = map snd (replies d) @ ready_results (out_script d) @ ready_results os"
        "handled d' @ ready_streams (in_script d') = handled d @ ready_streams (in_script d) @ ready_streams is"
        "inbound_rx d' = inbound_rx d" "if inbound_rx d then dropped d' = dropped d else delivered d' = delivered d"
        "senders_gone d' = senders_gone d" "open_rx d' \<longrightarrow> open_rx d" "open_rx d \<and> \<not> open_rx d' \<longrightarrow> senders_gone d"
        by (auto simp: serves_def)
      have a: "map snd (replies d) @ ready_results (out_script d) = outcomes es"
        "handled d @ ready_streams (in_script d) = arrivals es"
        using assms True by (simp_all add: accounted_def t)
      from s(2,3) have "map snd (replies d') @ ready_results (out_script d') = outcomes es @ ready_results os"
        "handled d' @ ready_streams (in_script d') = arrivals es @ ready_streams is"
        unfolding a[symmetric] by simp_all
      with s assms True show ?thesis
        by (cases c) (simp_all add: accounted_def t Wake p, blast+)
    next
      case False
      with assms show ?thesis by (auto simp: accounted_def t Wake)
    qed
  next
    case (Request q)
    with assms show ?thesis
      by (cases c) (auto simp: accounted_def t in_flight_def handled_def prefix_prefix)
  next
    case SendersGone
    then show ?thesis using assms
      by (auto simp: accounted_def t in_flight_def handled_def)
  qed
qed

lemma accounted_run: "accounted c es' t \<Longrightarrow> accounted c (es' @ es) (mux_run es t)"
proof (induction es arbitrary: es' t)
  case Nil
  then show ?case by (simp add: mux_run_def)
next
  case (Cons e es)
  from Cons.IH[OF accounted_step[OF Cons.prems]] show ?case by (simp add: mux_run_def)
qed

lemma accounted_start: "accounted c [] (driver_new c, DriverPending)"
  by (simp add: accounted_def driver_new_def in_flight_def accepted_def requests_def outcomes_def arrivals_def
      handled_def ready_results_def ready_streams_def)

lemma map_of_zip_nth:
  "distinct xs \<Longrightarrow> map fst ps = take n xs \<Longrightarrow> k < length ps \<Longrightarrow> map_of ps (xs ! k) = Some (snd (ps ! k))"
proof -
  assume a: "distinct xs" "map fst ps = take n xs" "k < length ps"
  then have d: "distinct (map fst ps)" by simp
  have "length ps = length (take n xs)" using a(2) by (metis length_map)
  with a have "fst (ps ! k) = xs ! k" by (metis nth_map nth_take length_take min_less_iff_conj)
  with d a(3) show ?thesis by (metis map_of_is_SomeI nth_mem prod.collapse)
qed

text \<open>With results for every request, one wake-up answers them all.\<close>

definition well_supplied :: "driver \<Rightarrow> nat list \<Rightarrow> bool" where
  "well_supplied d ss \<longleftrightarrow>
     OutPending \<notin> set (out_script d) \<and>
     (case pending_open d of None \<Rightarrow> 0 | Some _ \<Rightarrow> 1) + length (open_queue d) \<le> length (out_script d) \<and>
     in_script d = map InStream ss \<and> open_rx d \<and> \<not> senders_gone d"

lemma turn_inbound_streams:
  assumes "in_script d = map InStream ss" "turn_inbound d = (q, p, d')"
  shows "q = None \<and> p = (ss \<noteq> []) \<and> in_script d' = map InStream (tl ss) \<and> handled d' @ tl ss = handled d @ ss \<and>
     out_script d' = out_script d \<and> open_queue d' = open_queue d \<and> pending_open d' = pending_open d \<and>
     open_rx d' = open_rx d \<and> senders_gone d' = senders_gone d"
  using assms by (cases ss) (auto simp: turn_inbound_def handled_def)

lemma turn_handled:
  "turn_outbound d = (p, d') \<Longrightarrow> handled d' = handled d" "turn_requests d = (p, d') \<Longrightarrow> handled d' = handled d"
  by (auto simp: turn_outbound_def turn_requests_def handled_def
      split: option.splits list.splits outbound.splits if_splits)

lemma turn_well_supplied:
  assumes "well_supplied d ss" "driver_turn d = (r, d')"
  shows "(r = None \<and> (\<exists>ss'. well_supplied d' ss' \<and> handled d' @ ss' = handled d @ ss)) \<or>
    (r = Some DriverPending \<and> pending_open d' = None \<and> open_queue d' = [] \<and> handled d' = handled d @ ss)"
  using assms(2)
proof (cases rule: turn_cases)
  case (1 p1 d1 q p2 d2 p3 d3)
  from assms(1) have rs: "OutPending \<notin> set (out_script d)"
    "(case pending_open d of None \<Rightarrow> 0 | Some _ \<Rightarrow> 1) + length (open_queue d) \<le> length (out_script d)"
    and "in_script d = map InStream ss" "open_rx d" "\<not> senders_gone d" by (auto simp: well_supplied_def)
  have d1: "pending_open d1 = None \<and> p1 = (pending_open d \<noteq> None) \<and> in_script d1 = map InStream ss \<and>
      open_rx d1 \<and> \<not> senders_gone d1 \<and> OutPending \<notin> set (out_script d1) \<and> length (open_queue d1) \<le> length (out_script d1)"
    using 1(1) rs \<open>in_script d = _\<close> \<open>open_rx d\<close> \<open>\<not> senders_gone d\<close>
    by (auto simp: turn_outbound_def split: option.splits list.splits outbound.splits)
  then have d2: "q = None \<and> p2 = (ss \<noteq> []) \<and> in_script d2 = map InStream (tl ss) \<and> handled d2 @ tl ss = handled d @ ss \<and>
      pending_open d2 = None \<and> open_rx d2 \<and> \<not> senders_gone d2 \<and> OutPending \<notin> set (out_script d2) \<and>
      length (open_queue d2) \<le> length (out_script d2)"
    using turn_inbound_streams[OF _ 1(2)] turn_handled(1)[OF 1(1)] by auto
  have d3: "p3 = (open_queue d2 \<noteq> []) \<and> well_supplied d3 (tl ss) \<and> handled d3 = handled d2 \<and>
      (\<not> p3 \<longrightarrow> pending_open d3 = None \<and> open_queue d3 = [])"
    using 1(3) d2 turn_handled(2)[OF 1(3)] by (auto simp: turn_requests_def well_supplied_def split: list.splits)
  from 1(4) d2 have "d' = d3" "r = (if p1 \<or> p2 \<or> p3 then None else Some DriverPending)" by auto
  then show ?thesis using d2 d3 by (cases ss) auto
qed

lemma poll_well_supplied:
  "well_supplied d ss \<Longrightarrow>
     \<exists>d'. driver_poll d = (DriverPending, d') \<and> pending_open d' = None \<and> open_queue d' = [] \<and>
       handled d' = handled d @ ss"
proof (induction d arbitrary: ss rule: driver_poll.induct)
  case (1 d)
  obtain r d1 where t: "driver_turn d = (r, d1)" by fastforce
  from turn_well_supplied[OF "1.prems" t] show ?case
  proof (elim disjE conjE exE)
    fix ss' assume "r = None" "well_supplied d1 ss'" "handled d1 @ ss' = handled d @ ss"
    with 1(1)[OF t[symmetric]] t show ?thesis by (subst driver_poll.simps) fastforce
  next
    assume "r = Some DriverPending" "pending_open d1 = None" "open_queue d1 = []" "handled d1 = handled d @ ss"
    with t show ?thesis by (subst driver_poll.simps) simp
  qed
qed

section \<open>What openers rely on\<close>

text \<open>
  The contract between the driver of a tunnel and its openers: requests are known in the order
  they were made, while the task takes any; a wake-up forgets none and only adds answers; and
  the answered requests are the first of those known.
\<close>

locale reply_service =
  fixes wake :: "'w \<Rightarrow> 't \<Rightarrow> 't"
    and request :: "'q \<Rightarrow> 't \<Rightarrow> 't"
    and takes :: "'t \<Rightarrow> bool"
    and known :: "'t \<Rightarrow> 'q list"
    and answers :: "'t \<Rightarrow> ('q \<times> 'r) list"
  assumes wake_known: "known (wake w t) = known t"
    and wake_answers: "prefix (answers t) (answers (wake w t))"
    and request_known: "known (request q t) = known t @ (if takes t then [q] else [])"
    and request_answers: "answers (request q t) = answers t"
    and answered_known: "prefix (map fst (answers t)) (known t)"
begin

lemma wake_keeps:
  "set (known t) \<subseteq> set (known (wake w t)) \<and> set (answers t) \<subseteq> set (answers (wake w t))"
  using wake_known[of w t] set_mono_prefix[OF wake_answers[of t w]] by simp

lemma request_keeps:
  "set (known t) \<subseteq> set (known (request q t)) \<and> set (answers t) \<subseteq> set (answers (request q t))"
  by (simp add: request_known request_answers)

lemma request_taken: "takes t \<Longrightarrow> q \<in> set (known (request q t))"
  by (simp add: request_known)

lemma request_distinct:
  "distinct (known t) \<Longrightarrow> q \<notin> set (known t) \<Longrightarrow> distinct (known (request q t))"
  by (simp add: request_known)

lemma request_members: "set (known (request q t)) \<subseteq> insert q (set (known t))"
  by (auto simp: request_known)

lemma answers_distinct: "distinct (known t) \<Longrightarrow> distinct (map fst (answers t))"
  using answered_known[of t] by (auto simp: prefix_def)

text \<open>An answer, once given, is the one answer to its request, and it stays.\<close>

lemma answer_lasts:
  assumes "distinct (known t)" "map_of (answers t) q = Some r"
  shows "map_of (answers (wake w t)) q = Some r"
proof -
  have "distinct (map fst (answers (wake w t)))" using assms(1) wake_known answers_distinct by metis
  moreover have "(q, r) \<in> set (answers (wake w t))"
    using map_of_SomeD[OF assms(2)] wake_keeps by blast
  ultimately show ?thesis by simp
qed

end

lemma wake_effect:
  "in_flight (fst (mux_step (Wake os is) t)) = in_flight (fst t) \<and>
   prefix (replies (fst t)) (replies (fst (mux_step (Wake os is) t))) \<and>
   senders_gone (fst (mux_step (Wake os is) t)) = senders_gone (fst t) \<and>
   (open_rx (fst t) \<and> \<not> senders_gone (fst t) \<longrightarrow> open_rx (fst (mux_step (Wake os is) t)))"
proof -
  obtain d r where t: "t = (d, r)" by (cases t)
  obtain r1 d1 where p: "driver_poll (d\<lparr>out_script := out_script d @ os, in_script := in_script d @ is\<rparr>) = (r1, d1)"
    by fastforce
  have t': "mux_step (Wake os is) (d, r) = (if r = DriverPending then (d1, r1) else (d, r))" by (simp add: p)
  have "in_flight (d\<lparr>out_script := xs, in_script := ys\<rparr>) = in_flight d" for xs ys
    by (simp add: in_flight_def)
  with serves_poll[OF p] have "in_flight d1 = in_flight d" "senders_gone d1 = senders_gone d"
    "open_rx d \<and> \<not> senders_gone d \<longrightarrow> open_rx d1"
    unfolding serves_def by auto
  moreover have "prefix (replies d) (replies d1)" using replies_poll[OF p] by simp
  ultimately show ?thesis unfolding t t' by simp
qed

text \<open>The results in a task, given and to come, are those its connection has yielded.\<close>

definition results_in :: "mux_task \<Rightarrow> (string + nat) list" where
  "results_in t = map snd (replies (fst t)) @ ready_results (out_script (fst t))"

lemma results_in_step:
  "snd t = DriverPending \<Longrightarrow> results_in (mux_step (Wake os is) t) = results_in t @ ready_results os"
  "results_in (mux_step (Request q) t) = results_in t"
proof -
  obtain d r where t: "t = (d, r)" by (cases t)
  show "results_in (mux_step (Request q) t) = results_in t" by (simp add: t results_in_def)
  assume "snd t = DriverPending"
  moreover obtain r1 d1 where p: "driver_poll (d\<lparr>out_script := out_script d @ os, in_script := in_script d @ is\<rparr>) = (r1, d1)"
    by fastforce
  ultimately show "results_in (mux_step (Wake os is) t) = results_in t @ ready_results os"
    using serves_poll[OF p] by (simp add: t results_in_def serves_def)
qed

definition takes_requests :: "mux_task \<Rightarrow> bool" where
  "takes_requests t \<longleftrightarrow> snd t = DriverPending \<and> open_rx (fst t) \<and> \<not> senders_gone (fst t)"

lemma request_effect:
  "in_flight (fst (mux_step (Request q) t)) = in_flight (fst t) @ (if takes_requests t then [q] else []) \<and>
   replies (fst (mux_step (Request q) t)) = replies (fst t) \<and>
   senders_gone (fst (mux_step (Request q) t)) = senders_gone (fst t) \<and>
   open_rx (fst (mux_step (Request q) t)) = open_rx (fst t)"
  by (cases t) (simp add: in_flight_def takes_requests_def)

interpretation tunnel: reply_service "\<lambda>(os, is). mux_step (Wake os is)" "\<lambda>q. mux_step (Request q)" takes_requests
    "\<lambda>t. in_flight (fst t)" "\<lambda>t. replies (fst t)"
proof unfold_locales
  fix w :: "outbound list \<times> inbound list" and t :: mux_task and q :: nat
  obtain os "is" where w: "w = (os, is)" by (cases w)
  show "in_flight (fst ((case w of (os, is) \<Rightarrow> mux_step (Wake os is)) t)) = in_flight (fst t)"
    "prefix (replies (fst t)) (replies (fst ((case w of (os, is) \<Rightarrow> mux_step (Wake os is)) t)))"
    using wake_effect[of os "is" t] by (simp_all add: w)
  show "in_flight (fst (mux_step (Request q) t)) = in_flight (fst t) @ (if takes_requests t then [q] else [])"
    "replies (fst (mux_step (Request q) t)) = replies (fst t)"
    using request_effect[of q t] by simp_all
  show "prefix (map fst (replies (fst t))) (in_flight (fst t))"
    by (simp add: in_flight_def)
qed

section \<open>Properties\<close>

text \<open>The requests a driver knows and has not answered.\<close>

definition waiting :: "driver \<Rightarrow> nat list" where
  "waiting d = (case pending_open d of None \<Rightarrow> [] | Some q \<Rightarrow> [q]) @ open_queue d"

lemma in_flight_waiting: "in_flight d = map fst (replies d) @ waiting d"
  by (simp add: in_flight_def waiting_def)

lemma answered_in_order:
  assumes "serves d d'" "prefix (replies d) (replies d')" "waiting d' = []"
  shows "replies d' = replies d @ zip (waiting d) (ready_results (out_script d))"
proof -
  from assms(2) obtain xs where xs: "replies d' = replies d @ xs" by (auto simp: prefix_def)
  with assms(1,3) have "map fst xs = waiting d" "map snd xs @ ready_results (out_script d') = ready_results (out_script d)"
    by (simp_all add: serves_def in_flight_waiting)
  then have "zip (waiting d) (ready_results (out_script d)) = zip (map fst xs) (map snd xs @ ready_results (out_script d'))"
    by simp
  also have "\<dots> = xs" by (simp add: zip_append2 zip_map_fst_snd)
  finally show ?thesis using xs by simp
qed





end
