(* ===== verification/Client_Tunnel.thy ===== *)
theory Client_Tunnel
  imports Noise_Channel Wire_Protocol Net_Addr Mux_Driver Rust_Strings
begin

text \<open>
  The client side of a tunnel, \<open>client.rs\<close>: sending the knock, connecting with retries, the
  handshake, the pool of supervised tunnels with its back-off and its round-robin choice, and
  the forwarding of one local connection. The operating system's answers (socket calls, time,
  randomness) are arguments; what the code asks of it is the list of events. Durations are
  milliseconds, the pool's counter is a 64-bit word that wraps.
\<close>

definition KNOCK_RETRY_ATTEMPTS :: nat where
  "KNOCK_RETRY_ATTEMPTS = 6"

definition KNOCK_RETRY_DELAY :: nat where
  "KNOCK_RETRY_DELAY = 150"

definition BACKOFF_INITIAL :: nat where
  "BACKOFF_INITIAL = 250"

definition BACKOFF_MAX :: nat where
  "BACKOFF_MAX = 15 * 1000"

definition KEEPALIVE_IDLE :: nat where
  "KEEPALIVE_IDLE = 20 * 1000"

definition OPEN_GRACE_ATTEMPTS :: nat where
  "OPEN_GRACE_ATTEMPTS = 20"

definition OPEN_GRACE_DELAY :: nat where
  "OPEN_GRACE_DELAY = 100"

definition CONNECT_EXCHANGE_TIMEOUT :: nat where
  "CONNECT_EXCHANGE_TIMEOUT = 10 * 1000"

definition ACCEPT_RETRY_DELAY :: nat where
  "ACCEPT_RETRY_DELAY = 100"

definition DEFAULT_FWMARK :: u32 where
  "DEFAULT_FWMARK = 0x6879"

record knock_settings =
  knock_port :: u16

record tunnel_params =
  tp_static_secret :: secret_key
  tp_server_pubkey :: public_key
  tp_psk :: psk
  tp_knock :: "knock_settings option"
  tp_fwmark :: "u32 option"

section \<open>Dialling\<close>

datatype os_event =
    UdpBind socket_addr
  | SetMark u32
  | SendTo bytes socket_addr
  | TcpConnect socket_addr
  | SetNodelay
  | SetKeepalive nat
  | Sleep nat

text \<open>A mark that cannot be set is only logged.\<close>

definition apply_mark :: "u32 option \<Rightarrow> os_event list" where
  "apply_mark fwmark = (case fwmark of None \<Rightarrow> [] | Some m \<Rightarrow> [SetMark m])"

definition any_addr :: "socket_addr \<Rightarrow> socket_addr" where
  "any_addr target =
     (if is_ipv4 target then SockV4 (Ipv4Addr 0 0 0 0) 0 else SockV6 (replicate 8 0) 0 0 0)"

text \<open>The environment of one dial: clock, nonce, and what the socket calls answer.\<close>

record dial_env =
  env_clock :: "u64 option"
  env_nonce :: bytes
  env_bind :: "io_error option"
  env_send :: "io_error option"
  env_connect :: "nat \<Rightarrow> io_error + conn"

definition send_knock ::
    "crypto \<Rightarrow> dial_env \<Rightarrow> socket_addr \<Rightarrow> psk \<Rightarrow> public_key \<Rightarrow> u16 \<Rightarrow> u32 option \<Rightarrow>
     (error + unit) \<times> os_event list" where
  "send_knock C env target p server_pub server_port fwmark =
     (let packet = seal C p server_pub server_port (env_clock env) (env_nonce env);
          bind = any_addr target in
      case env_bind env of
        Some e \<Rightarrow> (Inl (Io e), [UdpBind bind])
      | None \<Rightarrow>
          (case env_send env of
             Some e \<Rightarrow> (Inl (Io e), [UdpBind bind] @ apply_mark fwmark @ [SendTo packet target])
           | None \<Rightarrow> (Inr (), [UdpBind bind] @ apply_mark fwmark @ [SendTo packet target])))"

definition connect_once ::
    "dial_env \<Rightarrow> nat \<Rightarrow> socket_addr \<Rightarrow> u32 option \<Rightarrow> (io_error + conn) \<times> os_event list" where
  "connect_once env i addr fwmark = (env_connect env i, apply_mark fwmark @ [TcpConnect addr])"

text \<open>The retry loop; \<open>last.expect\<close> would panic if there had been no attempt.\<close>

fun connect_attempts ::
    "dial_env \<Rightarrow> socket_addr \<Rightarrow> u32 option \<Rightarrow> nat \<Rightarrow> nat list \<Rightarrow> io_error option \<Rightarrow>
     ((error + conn) \<times> os_event list) rust" where
  "connect_attempts env addr fwmark attempts [] prev =
     (case prev of None \<Rightarrow> Panic | Some e \<Rightarrow> Returns (Inl (Io e), []))"
| "connect_attempts env addr fwmark attempts (i # is) prev =
     (case connect_once env i addr fwmark of
        (Inr s, evs) \<Rightarrow> Returns (Inr s, evs)
      | (Inl e, evs) \<Rightarrow>
          rbind (connect_attempts env addr fwmark attempts is (Some e)) (\<lambda>(r, evs').
          Returns (r, evs @ (if i + 1 < attempts then [Sleep KNOCK_RETRY_DELAY] else []) @ evs')))"

definition connect_tcp ::
    "dial_env \<Rightarrow> socket_addr \<Rightarrow> bool \<Rightarrow> u32 option \<Rightarrow> ((error + conn) \<times> os_event list) rust" where
  "connect_tcp env addr knocked fwmark =
     (let attempts = (if knocked then KNOCK_RETRY_ATTEMPTS else 1) in
      connect_attempts env addr fwmark attempts [0..<attempts] None)"

definition dial_connected ::
    "('st, 'c) noise_lib \<Rightarrow> dial_env \<Rightarrow> socket_addr \<Rightarrow> tunnel_params \<Rightarrow>
     ('c noise_stream outcome \<times> os_event list) rust" where
  "dial_connected L env addr params =
     rbind (connect_tcp env addr (tp_knock params \<noteq> None) (tp_fwmark params)) (\<lambda>(r, evs).
     case r of
       Inl e \<Rightarrow> Returns (Failed e, evs)
     | Inr tcp \<Rightarrow>
         Returns (fst (connect L \<lparr>ch_static_secret = tp_static_secret params,
                     ch_server_pubkey = tp_server_pubkey params, ch_psk = tp_psk params\<rparr> tcp),
                  evs @ [SetNodelay, SetKeepalive KEEPALIVE_IDLE]))"

definition dial ::
    "crypto \<Rightarrow> ('st, 'c) noise_lib \<Rightarrow> dial_env \<Rightarrow> socket_addr \<Rightarrow> tunnel_params \<Rightarrow>
     ('c noise_stream outcome \<times> os_event list) rust" where
  "dial C L env addr params =
     (case tp_knock params of
        None \<Rightarrow> dial_connected L env addr params
      | Some k \<Rightarrow>
          let target = sock_new (sock_ip addr) (knock_port k) in
          (case send_knock C env target (tp_psk params) (tp_server_pubkey params) (sock_port addr)
                  (tp_fwmark params) of
             (Inl e, evs) \<Rightarrow> Returns (Failed e, evs)
           | (Inr _, evs) \<Rightarrow>
               rbind (dial_connected L env addr params) (\<lambda>(r, evs'). Returns (r, evs @ evs'))))"

section \<open>The pool\<close>

text \<open>The task that keeps one slot's tunnel up, by what it was spawned with.\<close>

record supervisor =
  sv_slot :: nat
  sv_addr :: socket_addr
  sv_params :: tunnel_params

record 'ctl pool =
  slots :: "'ctl option list"
  next_slot :: u64
  supervisors :: "supervisor list"

definition build_pool :: "socket_addr \<Rightarrow> tunnel_params \<Rightarrow> nat \<Rightarrow> 'ctl pool" where
  "build_pool addr params n =
     (let size = max n 1 in
      \<lparr>slots = replicate size None, next_slot = 0,
       supervisors = map (\<lambda>i. \<lparr>sv_slot = i, sv_addr = addr, sv_params = params\<rparr>) [0..<size]\<rparr>)"

text \<open>Dropping the pool aborts its supervisors.\<close>

definition pool_drop :: "'ctl pool \<Rightarrow> supervisor list" where
  "pool_drop p = supervisors p"

definition pool_size :: "'ctl pool \<Rightarrow> nat" where
  "pool_size p = length (slots p)"

definition live_slots :: "'ctl pool \<Rightarrow> nat" where
  "live_slots p = length (filter (\<lambda>s. s \<noteq> None) (slots p))"

text \<open>
  The pool as an opener sees it: \<open>attempt t i\<close> is the stream that slot \<open>i\<close> yields at the
  opener's \<open>t\<close>-th try, if the slot holds a control then and that opens. One round tries as
  many slots as there are, from the shared counter, which \<open>fetch_add\<close> wraps.
\<close>

fun open_round ::
    "nat \<Rightarrow> nat \<Rightarrow> (nat \<Rightarrow> nat \<Rightarrow> 's option) \<Rightarrow> u64 \<Rightarrow> nat \<Rightarrow> 's option \<times> u64 \<times> nat" where
  "open_round 0 len attempt n t = (None, n, t)"
| "open_round (Suc k) len attempt n t =
     (let i = unat n mod len in
      case attempt t i of
        Some s \<Rightarrow> (Some s, n + 1, Suc t)
      | None \<Rightarrow> open_round k len attempt (n + 1) (Suc t))"

fun open_rounds ::
    "nat \<Rightarrow> nat \<Rightarrow> (nat \<Rightarrow> nat \<Rightarrow> 's option) \<Rightarrow> u64 \<Rightarrow> nat \<Rightarrow> (error + 's) \<times> u64 \<times> nat" where
  "open_rounds 0 len attempt n t = (Inl (Protocol ''no live tunnel to server''), n, t)"
| "open_rounds (Suc r) len attempt n t =
     (case open_round len len attempt n t of
        (Some s, n', t') \<Rightarrow> (Inr s, n', t')
      | (None, n', t') \<Rightarrow> open_rounds r len attempt n' t')"

definition pool_open :: "'ctl pool \<Rightarrow> (nat \<Rightarrow> nat \<Rightarrow> 's option) \<Rightarrow> (error + 's) \<times> u64 \<times> nat" where
  "pool_open p attempt = open_rounds OPEN_GRACE_ATTEMPTS (pool_size p) attempt (next_slot p) 0"

text \<open>\<open>wait_connected\<close>, over what the pool looks like at each poll before the deadline.\<close>

primrec wait_connected :: "'ctl pool list \<Rightarrow> bool" where
  "wait_connected [] = False"
| "wait_connected (p # ps) = (if 0 < live_slots p then True else wait_connected ps)"

section \<open>Supervision\<close>

definition backoff_jitter :: "byte \<Rightarrow> byte \<Rightarrow> nat" where
  "backoff_jitter b0 b1 = unat (of_be16 [b1, b0]) mod 500"

datatype sup_event = SlotUp | SlotDown | Backoff nat

text \<open>One turn: whether the dial succeeded (the tunnel has then run and ended), two random bytes.\<close>

definition supervise_turn :: "nat \<Rightarrow> bool \<times> byte \<times> byte \<Rightarrow> sup_event list \<times> nat" where
  "supervise_turn backoff turn =
     (case turn of (dialled, b0, b1) \<Rightarrow>
        let backoff1 = (if dialled then BACKOFF_INITIAL else backoff);
            evs = (if dialled then [SlotUp, SlotDown] else []) in
        (evs @ [Backoff (backoff1 + backoff_jitter b0 b1)], min (backoff1 * 2) BACKOFF_MAX))"

fun supervise :: "nat \<Rightarrow> (bool \<times> byte \<times> byte) list \<Rightarrow> sup_event list \<times> nat" where
  "supervise backoff [] = ([], backoff)"
| "supervise backoff (turn # turns) =
     (case supervise_turn backoff turn of (evs, backoff1) \<Rightarrow>
      case supervise backoff1 turns of (evs', backoff2) \<Rightarrow> (evs @ evs', backoff2))"

section \<open>Forwarding\<close>

definition exchange :: "u16 \<Rightarrow> connect_response io" where
  "exchange p = io_bind (write_connect_request \<lparr>port = p\<rparr>) (\<lambda>_. read_connect_response)"

text \<open>\<open>forward_one\<close>: the result, the stream afterwards, and whether the relay was started.\<close>

definition forward_one :: "error + conn \<Rightarrow> bool \<Rightarrow> u16 \<Rightarrow> unit outcome \<times> conn option \<times> bool" where
  "forward_one opened late p =
     (case opened of
        Inl e \<Rightarrow> (Failed e, None, False)
      | Inr stream \<Rightarrow>
          (case exchange p stream of (r, stream1) \<Rightarrow>
             (if late \<or> r = Stalled
              then (Failed (Protocol (''connect to port '' @ nat_to_dec (unat p) @ '' timed out'')), Some stream1, False)
              else case r of
                Failed e \<Rightarrow> (Failed e, Some stream1, False)
              | Stalled \<Rightarrow> (Stalled, Some stream1, False)
              | Done RespOk \<Rightarrow> (Done (), Some stream1, True)
              | Done RespDenied \<Rightarrow> (Failed (EgressDenied (''port '' @ nat_to_dec (unat p))), Some stream1, False)
              | Done RespUnreachable \<Rightarrow>
                  (Failed (Protocol (''port '' @ nat_to_dec (unat p) @ '' unreachable'')), Some stream1, False))))"

datatype 'l accept_event = SpawnForward 'l u16 | AcceptSleep nat

fun run_forward :: "(io_error + 'l) list \<Rightarrow> u16 \<Rightarrow> 'l accept_event list" where
  "run_forward [] p = []"
| "run_forward (Inr local # as) p = SpawnForward local p # run_forward as p"
| "run_forward (Inl e # as) p = AcceptSleep ACCEPT_RETRY_DELAY # run_forward as p"


section \<open>Dialling: attempts and marks\<close>

definition failure :: "dial_env \<Rightarrow> nat \<Rightarrow> io_error" where
  "failure env i = (case env_connect env i of Inl e \<Rightarrow> e | Inr _ \<Rightarrow> OsError 0)"

lemma connect_attempts_result:
  assumes "is = [m..<attempts]" "m < attempts \<or> prev \<noteq> None"
  shows "\<exists>evs. connect_attempts env addr fwmark attempts is prev =
    Returns (case find (\<lambda>i. \<not> isl (env_connect env i)) is of
      Some i \<Rightarrow> Inr (projr (env_connect env i))
    | None \<Rightarrow> Inl (Io (if m < attempts then failure env (attempts - 1) else the prev)), evs)"
  using assms
proof (induction "is" arbitrary: m prev)
  case Nil
  from Nil.prems(1)[symmetric] have "\<not> m < attempts" by auto
  with Nil.prems(2) show ?case by (cases prev) auto
next
  case (Cons i "is")
  have m: "m < attempts" "i = m" "is = [Suc m..<attempts]"
    using Cons.prems(1)[symmetric] by (auto simp: upt_eq_Cons_conv)
  show ?case
  proof (cases "env_connect env i")
    case (Inr s)
    then show ?thesis by (simp add: connect_once_def)
  next
    case (Inl e)
    have some: "Suc m < attempts \<or> Some e \<noteq> None" by simp
    from Cons.IH[OF m(3) some, unfolded option.sel] obtain evs where
      "connect_attempts env addr fwmark attempts is (Some e) =
        Returns (case find (\<lambda>i. \<not> isl (env_connect env i)) is of
          Some i \<Rightarrow> Inr (projr (env_connect env i))
        | None \<Rightarrow> Inl (Io (if Suc m < attempts then failure env (attempts - 1) else e)), evs)" by (rule exE)
    moreover have "failure env (attempts - 1) = e" if "\<not> Suc m < attempts"
    proof -
      have "attempts - 1 = i" using m that by linarith
      then show ?thesis by (simp add: failure_def Inl)
    qed
    ultimately show ?thesis using Inl m(1) by (auto simp: connect_once_def split: option.split)
  qed
qed

definition marked :: "u32 option \<Rightarrow> os_event list \<Rightarrow> bool" where
  "marked fwmark evs \<longleftrightarrow>
     (\<forall>m. fwmark = Some m \<longrightarrow>
        (\<forall>i < length evs. (\<exists>a. evs ! i = TcpConnect a) \<or> (\<exists>b a. evs ! i = SendTo b a) \<longrightarrow>
           0 < i \<and> evs ! (i - 1) = SetMark m))"

lemma marked_append:
  assumes "marked f xs" "marked f ys"
  shows "marked f (xs @ ys)"
  unfolding marked_def
proof (intro allI impI)
  fix m i
  assume f: "f = Some m" and i: "i < length (xs @ ys)"
    and net: "(\<exists>a. (xs @ ys) ! i = TcpConnect a) \<or> (\<exists>b a. (xs @ ys) ! i = SendTo b a)"
  show "0 < i \<and> (xs @ ys) ! (i - 1) = SetMark m"
  proof (cases "i < length xs")
    case True
    with assms(1) f net show ?thesis by (auto simp: marked_def nth_append)
  next
    case False
    define j where "j = i - length xs"
    with False i have j: "i = length xs + j" "j < length ys" by auto
    with net have "(\<exists>a. ys ! j = TcpConnect a) \<or> (\<exists>b a. ys ! j = SendTo b a)"
      by (simp add: nth_append)
    with j assms(2) f have "0 < j \<and> ys ! (j - 1) = SetMark m"
      unfolding marked_def by blast
    moreover from this have "i - 1 = length xs + (j - 1)" using j(1) by simp
    then have "(xs @ ys) ! (i - 1) = ys ! (j - 1)" by (simp only: nth_append_length_plus)
    ultimately show ?thesis using j(1) by simp
  qed
qed

lemma marked_quiet: "(\<And>e. e \<in> set evs \<Longrightarrow> (\<forall>a. e \<noteq> TcpConnect a) \<and> (\<forall>b a. e \<noteq> SendTo b a)) \<Longrightarrow> marked f evs"
  by (auto simp: marked_def)

lemma marked_net:
  "marked f (apply_mark f @ [TcpConnect a])" "marked f (apply_mark f @ [SendTo b a])"
  by (auto simp: marked_def apply_mark_def nth_Cons split: option.splits nat.splits)

lemma marked_attempts:
  "connect_attempts env addr f n is prev = Returns (r, evs) \<Longrightarrow> marked f evs"
proof (induction env addr f n "is" prev arbitrary: r evs rule: connect_attempts.induct)
  case (1 env addr fwmark attempts prev)
  then show ?case by (auto intro: marked_quiet split: option.splits)
next
  case (2 env addr fwmark attempts i "is" prev)
  show ?case
  proof (cases "env_connect env i")
    case (Inr s)
    with "2.prems" show ?thesis by (auto simp: connect_once_def marked_net)
  next
    case (Inl e)
    let ?now = "apply_mark fwmark @ [TcpConnect addr]"
    have "connect_once env i addr fwmark = (Inl e, ?now)" by (simp add: connect_once_def Inl)
    moreover from this "2.prems" obtain r' evs' where
      rest: "connect_attempts env addr fwmark attempts is (Some e) = Returns (r', evs')"
      and evs: "evs = ?now @ (if i + 1 < attempts then [Sleep KNOCK_RETRY_DELAY] else []) @ evs'"
      by (auto simp: rbind_Returns_iff)
    ultimately have "marked fwmark evs'" using "2.IH"[of "Inl e" ?now e] by simp
    moreover have "marked fwmark (if i + 1 < attempts then [Sleep KNOCK_RETRY_DELAY] else [])"
      by (intro marked_quiet) auto
    ultimately show ?thesis unfolding evs by (intro marked_append marked_net)
  qed
qed

lemma connect_tcp_result:
  "\<exists>evs. connect_tcp env addr knocked f =
    Returns (case find (\<lambda>i. \<not> isl (env_connect env i)) [0..<if knocked then 6 else 1] of
      Some i \<Rightarrow> Inr (projr (env_connect env i))
    | None \<Rightarrow> Inl (Io (failure env ((if knocked then 6 else 1) - 1))), evs)"
proof -
  have n: "0 < (if knocked then 6 else 1 :: nat)" by simp
  from connect_attempts_result[OF refl, of 0 "if knocked then 6 else 1" None env addr f] n show ?thesis
    unfolding connect_tcp_def Let_def KNOCK_RETRY_ATTEMPTS_def by presburger
qed

lemma dial_connected_marked:
  assumes "dial_connected L env addr params = Returns (r, evs)"
  shows "marked (tp_fwmark params) evs"
proof -
  let ?tail = "[SetNodelay, SetKeepalive KEEPALIVE_IDLE]"
  from assms obtain x where x: "connect_tcp env addr (tp_knock params \<noteq> None) (tp_fwmark params) = Returns x"
    by (auto simp: dial_connected_def rbind_Returns_iff)
  obtain q evs1 where "x = (q, evs1)" by fastforce
  with x have t: "connect_tcp env addr (tp_knock params \<noteq> None) (tp_fwmark params) = Returns (q, evs1)" by simp
  have evs: "evs = evs1 \<or> evs = evs1 @ ?tail"
    using assms unfolding dial_connected_def t by (cases q) auto
  have "marked (tp_fwmark params) evs1"
    using t by (auto simp: connect_tcp_def Let_def dest: marked_attempts)
  moreover have "marked (tp_fwmark params) ?tail" by (rule marked_quiet) auto
  ultimately show ?thesis using evs marked_append by blast
qed

section \<open>The pool: every slot gets its turn\<close>

lemma open_round_sound:
  "open_round k len attempt n t = (Some s, n', t') \<Longrightarrow> \<exists>u i. t \<le> u \<and> attempt u i = Some s \<and> (0 < len \<longrightarrow> i < len)"
proof (induction k len attempt n t rule: open_round.induct)
  case (2 k len attempt n t)
  show ?case
  proof (cases "attempt t (unat n mod len)")
    case None
    with 2 show ?thesis by (fastforce simp: Let_def dest: Suc_leD)
  next
    case (Some x)
    with "2.prems" show ?thesis by (intro exI[of _ t] exI[of _ "unat n mod len"]) (auto simp: Let_def)
  qed
qed simp

lemma open_round_None:
  "open_round k len attempt n t = (None, n', t') \<Longrightarrow>
     n' = n + word_of_nat k \<and> t' = t + k \<and>
     (\<forall>j<k. attempt (t + j) (unat (n + word_of_nat j) mod len) = None)"
proof (induction k len attempt n t rule: open_round.induct)
  case (2 k len attempt n t)
  then have none: "attempt t (unat n mod len) = None"
    and rest: "open_round k len attempt (n + 1) (Suc t) = (None, n', t')"
    by (auto simp: Let_def split: option.splits)
  from "2.IH"[OF refl none rest] have IH: "n' = n + 1 + word_of_nat k" "t' = Suc t + k"
    "\<forall>j<k. attempt (Suc t + j) (unat (n + 1 + word_of_nat j) mod len) = None" by auto
  have "attempt (t + j) (unat (n + word_of_nat j) mod len) = None" if "j < Suc k" for j
  proof (cases j)
    case 0
    with none show ?thesis by simp
  next
    case (Suc i)
    with IH(3) that show ?thesis by (simp add: add.assoc)
  qed
  with IH(1,2) show ?case by (simp add: add.assoc)
qed simp

lemma open_round_time: "open_round k len attempt n t = (q, n', t') \<Longrightarrow> t' \<le> t + k"
proof (induction k len attempt n t rule: open_round.induct)
  case (2 k len attempt n t)
  then show ?case
    by (cases "attempt t (unat n mod len)") (fastforce simp: Let_def)+
qed simp

lemma round_covers:
  assumes "unat n + len \<le> 2 ^ 64" "i < len"
  shows "\<exists>j<len. unat (n + word_of_nat j :: u64) mod len = i"
proof -
  let ?r = "unat n mod len"
  define j where "j = (if ?r \<le> i then i - ?r else len + i - ?r)"
  have r: "?r < len" using assms(2) by simp
  have "?r + j = (if ?r \<le> i then i else len + i)" using r by (simp add: j_def)
  then have j: "j < len" "(?r + j) mod len = i"
    using r assms(2) by (auto simp: j_def)
  have "unat (word_of_nat j :: u64) = j"
    using j(1) assms(1) by (simp add: unat_of_nat)
  moreover have "unat n + j < 2 ^ 64" using j(1) assms(1) by simp
  ultimately have "unat (n + word_of_nat j) = unat n + j"
    by (simp add: unat_word_ariths)
  with j show ?thesis by (metis mod_add_left_eq)
qed

lemma open_round_misses:
  assumes "open_round len len attempt n t = (None, n', t')" "unat n + len \<le> 2 ^ 64" "i < len"
    and "\<And>u. attempt u i \<noteq> None"
  shows False
proof -
  obtain j where "j < len" "unat (n + word_of_nat j :: u64) mod len = i"
    using round_covers[OF assms(2,3)] by blast
  with open_round_None[OF assms(1)] assms(4) show False by metis
qed

lemma wrapped_counter:
  fixes n :: u64
  assumes "2 ^ 64 < unat n + len" "len \<le> 2 ^ 63"
  shows "unat (n + word_of_nat len) + len \<le> 2 ^ 64"
proof -
  have l: "unat (word_of_nat len :: u64) = len" using assms(2) by (simp add: unat_of_nat)
  have "unat n < 2 ^ 64" using unsigned_less[of n, where ?'a = nat] by simp
  then have "unat n + len - 2 ^ 64 < len" using assms(1) by linarith
  moreover have "unat (n + word_of_nat len) = (unat n + len) mod 2 ^ 64"
    using l by (simp add: unat_word_ariths)
  moreover have "(unat n + len) mod 2 ^ 64 = unat n + len - 2 ^ 64"
    using assms \<open>unat n < 2 ^ 64\<close> by (simp add: mod_if)
  ultimately show ?thesis using assms(2) by simp
qed


lemma open_rounds_sound:
  "open_rounds r len attempt n t = (Inr s, n', t') \<Longrightarrow> \<exists>u i. attempt u i = Some s \<and> (0 < len \<longrightarrow> i < len)"
proof (induction r len attempt n t rule: open_rounds.induct)
  case (2 r len attempt n t)
  obtain q n1 t1 where o: "open_round len len attempt n t = (q, n1, t1)" by (metis prod_cases3)
  show ?case
  proof (cases q)
    case None
    with 2 o show ?thesis by auto
  next
    case (Some x)
    with "2.prems" o open_round_sound[of len len attempt n t s n1 t1] show ?thesis by auto
  qed
qed simp

lemma open_round_live:
  assumes "open_round len len attempt n t = (Some s, n', t')"
  shows "open_rounds (Suc r) len attempt n t = (Inr s, n', t')"
  using assms by simp

lemma two_rounds:
  assumes "len \<le> 2 ^ 63" "i < len" "\<And>u. attempt u i \<noteq> None"
  shows "\<exists>s n' t'. open_rounds (Suc (Suc r)) len attempt n t = (Inr s, n', t') \<and> t' \<le> t + 2 * len"
proof -
  obtain q n1 t1 where o1: "open_round len len attempt n t = (q, n1, t1)" by (metis prod_cases3)
  note time1 = open_round_time[OF o1]
  show ?thesis
  proof (cases q)
    case (Some s)
    with o1 time1 show ?thesis by simp
  next
    case None
    with open_round_misses[of len attempt n t n1 t1 i] o1 assms(2,3) have "2 ^ 64 < unat n + len"
      by fastforce
    from wrapped_counter[OF this assms(1)] have fits: "unat n1 + len \<le> 2 ^ 64"
      using open_round_None[of len len attempt n t n1 t1] o1 None by simp
    obtain q2 n2 t2 where o2: "open_round len len attempt n1 t1 = (q2, n2, t2)" by (metis prod_cases3)
    have "q2 \<noteq> None"
    proof
      assume "q2 = None"
      with o2 open_round_misses[of len attempt n1 t1 n2 t2 i] fits assms(2,3) show False by simp
    qed
    with o1 None o2 time1 open_round_time[OF o2] show ?thesis by auto
  qed
qed

section \<open>The back-off schedule\<close>

definition streak :: "(bool \<times> byte \<times> byte) list \<Rightarrow> nat" where
  "streak turns = foldl (\<lambda>k (dialled, _). if dialled then 1 else Suc k) 0 turns"

lemma jitter_less: "backoff_jitter b0 b1 < 500"
  by (simp add: backoff_jitter_def)

lemma min_double: "min (min (250 * 2 ^ k) 15000 * 2) 15000 = min (250 * 2 ^ Suc k) (15000 :: nat)"
  by (simp add: min_def)

lemma supervise_append:
  "supervise b (xs @ ys) =
     (case supervise b xs of (evs, b1) \<Rightarrow> case supervise b1 ys of (evs', b2) \<Rightarrow> (evs @ evs', b2))"
  by (induction b xs rule: supervise.induct) (auto split: prod.splits)

lemma supervise_backoff:
  "snd (supervise BACKOFF_INITIAL turns) = min (250 * 2 ^ streak turns) 15000"
proof (induction turns rule: rev_induct)
  case Nil
  then show ?case by (simp add: BACKOFF_INITIAL_def streak_def)
next
  case (snoc turn turns)
  obtain d b0 b1 where turn: "turn = (d, b0, b1)" by (cases turn) auto
  obtain evs b where s: "supervise BACKOFF_INITIAL turns = (evs, b)" by fastforce
  with snoc have b: "b = min (250 * 2 ^ streak turns) 15000" by simp
  have "snd (supervise BACKOFF_INITIAL (turns @ [turn])) = snd (supervise_turn b turn)"
    by (simp add: supervise_append s split: prod.splits)
  also have "\<dots> = min (250 * 2 ^ (if d then 1 else Suc (streak turns))) 15000"
    using min_double[of "streak turns"]
    by (simp add: turn supervise_turn_def b BACKOFF_INITIAL_def BACKOFF_MAX_def Let_def)
  finally show ?case by (simp add: streak_def turn)
qed


lemma supervise_sleeps:
  "i < length turns \<Longrightarrow> \<exists>pre post. fst (supervise BACKOFF_INITIAL turns) =
     pre @ [Backoff ((if fst (turns ! i) then 250 else min (250 * 2 ^ streak (take i turns)) 15000) +
              backoff_jitter (fst (snd (turns ! i))) (snd (snd (turns ! i))))] @ post \<and>
     length (filter (\<lambda>e. \<exists>d. e = Backoff d) pre) = i"
proof -
  assume i: "i < length turns"
  obtain d b0 b1 where turn: "turns ! i = (d, b0, b1)" by (cases "turns ! i") auto
  have split: "turns = take i turns @ [turns ! i] @ drop (Suc i) turns"
    using i by (simp add: id_take_nth_drop[symmetric])
  obtain evs b where s: "supervise BACKOFF_INITIAL (take i turns) = (evs, b)" by fastforce
  with supervise_backoff[of "take i turns"] have b: "b = min (250 * 2 ^ streak (take i turns)) 15000" by simp
  obtain evs2 b2 where s2: "supervise (snd (supervise_turn b (turns ! i))) (drop (Suc i) turns) = (evs2, b2)"
    by fastforce
  have "fst (supervise BACKOFF_INITIAL turns) = evs @ fst (supervise_turn b (turns ! i)) @ evs2"
    by (subst split, simp only: supervise_append s)
      (use s2 in \<open>auto split: prod.splits\<close>)
  moreover have "length (filter (\<lambda>e. \<exists>d. e = Backoff d) (fst (supervise c xs))) = length xs" for c xs
    by (induction c xs rule: supervise.induct)
      (auto simp: supervise_turn_def Let_def split: prod.splits if_splits)
  from this[of BACKOFF_INITIAL "take i turns"] have "length (filter (\<lambda>e. \<exists>d. e = Backoff d) evs) = i"
    using s i by simp
  ultimately show ?thesis
    by (intro exI[of _ "evs @ (if d then [SlotUp, SlotDown] else [])"] exI[of _ evs2])
       (auto simp: turn supervise_turn_def Let_def b BACKOFF_INITIAL_def)
qed

section \<open>Properties\<close>

text \<open>
  Dialling never panics (the retry loop always makes an attempt), and when a firewall
  mark is configured every datagram and every connection attempt of the dial goes out on a
  socket that was marked immediately before, so that the tunnel's own traffic bypasses the
  TUN routes.
\<close>

theorem dial_marked:
  "\<exists>r evs. dial C L env addr params = Returns (r, evs) \<and> marked (tp_fwmark params) evs"
proof -
  have connected: "\<exists>r evs. dial_connected L env addr params = Returns (r, evs) \<and> marked (tp_fwmark params) evs"
  proof -
    obtain q evs where "connect_tcp env addr (tp_knock params \<noteq> None) (tp_fwmark params) = Returns (q, evs)"
      using connect_tcp_result by blast
    then have "\<exists>r evs. dial_connected L env addr params = Returns (r, evs)"
      by (cases q) (auto simp: dial_connected_def)
    then show ?thesis using dial_connected_marked by blast
  qed
  have bind: "marked f ([UdpBind a] @ apply_mark f @ [SendTo b t])" "marked f [UdpBind a]" for f a b t
    by (intro marked_append[OF marked_quiet marked_net(2)], auto intro: marked_quiet)
  show ?thesis
  proof (cases "tp_knock params")
    case None
    with connected show ?thesis by (simp add: dial_def)
  next
    case (Some k)
    let ?target = "sock_new (sock_ip addr) (knock_port k)"
    obtain q evs where k: "send_knock C env ?target (tp_psk params) (tp_server_pubkey params) (sock_port addr)
        (tp_fwmark params) = (q, evs)" by fastforce
    then have m: "marked (tp_fwmark params) evs"
      using bind by (auto simp: send_knock_def Let_def split: option.splits)
    from connected obtain r evs2 where
      "dial_connected L env addr params = Returns (r, evs2)" "marked (tp_fwmark params) evs2" by blast
    with Some k m marked_append[OF m] show ?thesis
      by (cases q) (auto simp: dial_def Let_def)
  qed
qed

text \<open>
  As long as some slot of the pool opens streams, opening one through the pool succeeds,
  wherever the shared counter stands, also when it wraps around, with at most two tries per
  slot; the stream comes from a slot of the pool.
\<close>

theorem pool_open_finds_live:
  assumes "i < pool_size p" "pool_size p \<le> 2 ^ 63" "\<And>u. attempt u i \<noteq> None"
  shows "\<exists>s n' t'. pool_open p attempt = (Inr s, n', t') \<and> t' \<le> 2 * pool_size p \<and>
    (\<exists>u j. j < pool_size p \<and> attempt u j = Some s)"
proof -
  have "OPEN_GRACE_ATTEMPTS = Suc (Suc 18)" by (simp add: OPEN_GRACE_ATTEMPTS_def)
  then obtain s n' t' where o: "pool_open p attempt = (Inr s, n', t')" "t' \<le> 2 * pool_size p"
    using two_rounds[OF assms(2,1), of attempt 18 "next_slot p" 0] assms(3) by (auto simp: pool_open_def)
  with open_rounds_sound[of OPEN_GRACE_ATTEMPTS "pool_size p" attempt "next_slot p" 0 s n' t'] assms(1)
  show ?thesis by (auto simp: pool_open_def)
qed

theorem pool_open_finds_live_witness:
  "\<exists>s n' t'. pool_open \<lparr>slots = [None, Some True, None], next_slot = - 1, supervisors = []\<rparr>
      (\<lambda>u j. if j = 1 then Some (u :: nat) else None) = (Inr s, n', t') \<and> t' \<le> 6"
  using pool_open_finds_live[of 1 "\<lparr>slots = [None, Some True, None], next_slot = - 1, supervisors = []\<rparr>"
      "\<lambda>u j. if j = 1 then Some (u :: nat) else None"]
  by (auto simp: pool_size_def)

text \<open>
  The supervisor's \<open>i\<close>-th pause is its back-off plus a jitter of less than half a second,
  where the back-off is 250 ms after a tunnel that was up and otherwise doubles with every
  failure since the start or the last tunnel, never beyond 15 s.
\<close>

theorem backoff_schedule:
  assumes "i < length turns"
  shows "\<exists>pre post jitter. fst (supervise BACKOFF_INITIAL turns) =
      pre @ [Backoff ((if fst (turns ! i) then 250 else min (250 * 2 ^ streak (take i turns)) 15000) + jitter)] @ post \<and>
    length (filter (\<lambda>e. \<exists>d. e = Backoff d) pre) = i \<and> jitter < 500"
  using supervise_sleeps[OF assms] jitter_less by blast

theorem backoff_schedule_witness:
  "\<exists>pre post jitter. fst (supervise BACKOFF_INITIAL [(False, 0, 0), (False, 1, 2), (True, 0, 0), (False, 3, 1)]) =
      pre @ [Backoff (500 + jitter)] @ post \<and>
    length (filter (\<lambda>e. \<exists>d. e = Backoff d) pre) = 3 \<and> jitter < 500"
proof -
  have "(3 :: nat) < length [(False, 0 :: byte, 0 :: byte), (False, 1, 2), (True, 0, 0), (False, 3, 1)]" by simp
  from backoff_schedule[OF this] show ?thesis by (simp add: streak_def numeral_3_eq_3)
qed

end
