(* ===== verification/Client_Config.thy ===== *)
theory Client_Config
  imports Cli_Common Client_Tunnel
begin

text \<open>
  The client's configuration, \<open>hyperion-vpn-client/src/config.rs\<close> and \<open>paths.rs\<close>: the file's
  sections, fake-IP assignment, loading, \<open>init\<close>, \<open>add-server\<close>, \<open>rm-server\<close> and the \<open>-L\<close>
  syntax. The TOML crate with the derived (de)serialisers is the parameter \<open>toml\<close>, a parser
  and a printer; what the code relies on is that the parser reads back what the printer wrote
  (\<open>toml_lawful\<close>). A \<open>usize\<close> is a \<open>nat\<close>; a \<open>HashMap\<close> keyed by server name is the list of its
  entries in file order.
\<close>

record 'f toml =
  from_str :: "string \<Rightarrow> 'f option"
  to_string_pretty :: "'f \<Rightarrow> string option"

definition toml_lawful :: "'f toml \<Rightarrow> bool" where
  "toml_lawful T \<longleftrightarrow> (\<forall>f s. to_string_pretty T f = Some s \<longrightarrow> from_str T s = Some f)"

definition DEFAULT_LISTEN_PORT :: u16 where
  "DEFAULT_LISTEN_PORT = 8443"

definition DEFAULT_POOL_SIZE :: nat where
  "DEFAULT_POOL_SIZE = 2"

definition VIRTUAL_HOST_START :: nat where
  "VIRTUAL_HOST_START = 10"

definition str_bytes :: "string \<Rightarrow> bytes" where
  "str_bytes s = map (\<lambda>c. word_of_nat (of_char c)) s"

section \<open>The file and the loaded configuration\<close>

record key_section =
  ks_source :: string
  ks_env_var :: "string option"
  ks_value :: "string option"
  ks_passphrase_env :: "string option"
  ks_salt :: "string option"

record client_knock_section =
  ckn_enabled :: bool
  ckn_port :: "u16 option"

record tun_section =
  ts_addr :: string
  ts_prefix :: byte
  ts_mtu :: u16

definition default_tun_addr :: string where
  "default_tun_addr = ''10.99.0.1''"

definition default_tun_prefix :: byte where
  "default_tun_prefix = 24"

definition default_tun_mtu :: u16 where
  "default_tun_mtu = 1420"

definition tun_section_default :: tun_section where
  "tun_section_default = \<lparr>ts_addr = default_tun_addr, ts_prefix = default_tun_prefix, ts_mtu = default_tun_mtu\<rparr>"

record server_section =
  ss_name :: string
  ss_addr :: string
  ss_server_pubkey :: string
  ss_virtual_ip :: "string option"
  ss_key_env :: "string option"
  ss_key_value :: "string option"
  ss_pool_size :: "nat option"

record forward_section =
  fs_local :: string
  fs_server :: string
  fs_remote_port :: u16

record client_file =
  cf_admin_static_key_file :: string
  cf_pool_size :: "nat option"
  cf_key :: "key_section option"
  cf_knock :: client_knock_section
  cf_tun :: tun_section
  cf_server :: "server_section list"
  cf_forward :: "forward_section list"

record tun_config =
  tc_addr :: ipv4addr
  tc_prefix :: byte
  tc_mtu :: u16

record server_entry =
  se_addr :: socket_addr
  se_virtual_ip :: ipv4addr
  se_params :: tunnel_params
  se_pool_size :: nat

record forward_entry =
  fe_local :: socket_addr
  fe_server :: string
  fe_remote_port :: u16

record loaded_client =
  lc_servers :: "(string \<times> server_entry) list"
  lc_forwards :: "forward_entry list"
  lc_tun :: tun_config

record server_summary =
  sm_name :: string
  sm_addr :: string
  sm_virtual_ip :: ipv4addr

record client_summary =
  cs_servers :: "server_summary list"
  cs_key_is_passphrase :: bool
  cs_passphrase_env :: "string option"
  cs_tun_addr :: ipv4addr

section \<open>Paths and files\<close>

definition client_config_file :: "host \<Rightarrow> string" where
  "client_config_file h = path_join (config_dir h) ''hyperion.toml''"

definition admin_key_file :: "host \<Rightarrow> string" where
  "admin_key_file h = path_join (config_dir h) ''admin.key''"

definition client_pid_file :: "host \<Rightarrow> string" where
  "client_pid_file h = path_join (config_dir h) ''hyperion.pid''"

definition client_log_file :: "host \<Rightarrow> string" where
  "client_log_file h = path_join (config_dir h) ''hyperion.log''"

definition default_config_path :: "host \<Rightarrow> string" where
  "default_config_path h = client_config_file h"

definition read_file :: "host \<Rightarrow> 'f toml \<Rightarrow> string \<Rightarrow> 'f any" where
  "read_file h T path =
     any_bind (option_context (''reading config '' @ path) (read_to_string h path))
       (\<lambda>text. option_context ''parsing config TOML'' (from_str T text))"

definition write_file :: "host \<Rightarrow> 'f toml \<Rightarrow> string \<Rightarrow> 'f \<Rightarrow> unit any \<times> host" where
  "write_file h T path f =
     (case to_string_pretty T f of
        None \<Rightarrow> (Inl ''serializing config TOML'', h)
      | Some text \<Rightarrow>
          (case write_str h path text of
             (None, h') \<Rightarrow> (Inl (''writing config '' @ path), h')
           | (Some _, h') \<Rightarrow> (Inr (), h')))"

section \<open>Fake IPs\<close>

definition parse_tun :: "tun_section \<Rightarrow> tun_config any" where
  "parse_tun t =
     any_bind (option_context (''[tun] invalid addr '' @ ts_addr t) (parse_ipv4 (ts_addr t)))
       (\<lambda>addr.
          if ts_prefix t = 0 \<or> 30 < ts_prefix t
          then Inl ''[tun] prefix must be between 1 and 30''
          else Inr \<lparr>tc_addr = addr, tc_prefix = ts_prefix t, tc_mtu = ts_mtu t\<rparr>)"

text \<open>
  The shifts are by \<open>32 - prefix\<close>, between 2 and 31 for every configuration that \<open>parse_tun\<close>
  lets through; the loop runs over the host numbers in order.
\<close>

definition host_bits :: "tun_config \<Rightarrow> nat" where
  "host_bits tun = 32 - unat (tc_prefix tun)"

definition subnet_mask :: "tun_config \<Rightarrow> u32" where
  "subnet_mask tun = push_bit (host_bits tun) (- 1)"

definition subnet_base :: "tun_config \<Rightarrow> u32" where
  "subnet_base tun = and (ipv4_to_u32 (tc_addr tun)) (subnet_mask tun)"

definition host_count :: "tun_config \<Rightarrow> u32" where
  "host_count tun = push_bit (host_bits tun) 1"

function scan_hosts :: "tun_config \<Rightarrow> ipv4addr set \<Rightarrow> nat \<Rightarrow> nat \<Rightarrow> ipv4addr option" where
  "scan_hosts tun used h limit =
     (if h < limit then
        let cand = ipv4_of_u32 (subnet_base tun + word_of_nat h) in
        if cand \<noteq> tc_addr tun \<and> cand \<notin> used then Some cand
        else scan_hosts tun used (Suc h) limit
      else None)"
  by pat_completeness auto
termination
  by (relation "measure (\<lambda>(tun, used, h, limit). limit - h)") auto

declare scan_hosts.simps [simp del]

definition assign_virtual_ip :: "tun_config \<Rightarrow> ipv4addr set \<Rightarrow> ipv4addr option" where
  "assign_virtual_ip tun used =
     scan_hosts tun used VIRTUAL_HOST_START (unat (saturating_sub (host_count tun) 1))"

text \<open>
  The two loops of \<open>resolve_virtual_ips\<close>: explicit addresses first, then one address per
  server; the second loop takes its allocator as an argument.
\<close>

fun explicit_ips :: "server_section list \<Rightarrow> ipv4addr set \<Rightarrow> ipv4addr set any" where
  "explicit_ips [] used = Inr used"
| "explicit_ips (s # ss) used =
     (case ss_virtual_ip s of
        None \<Rightarrow> explicit_ips ss used
      | Some vip \<Rightarrow>
          (case parse_ipv4 vip of
             None \<Rightarrow> Inl (''server '' @ ss_name s @ '': invalid virtual_ip '' @ vip)
           | Some ip \<Rightarrow>
               if ip \<in> used then Inl (''duplicate virtual_ip '' @ ipv4_to_string ip)
               else explicit_ips ss (insert ip used)))"

fun assign_all :: "('k set \<Rightarrow> 'k option) \<Rightarrow> 'k set \<Rightarrow> 'k option list \<Rightarrow> 'k list option" where
  "assign_all alloc used [] = Some []"
| "assign_all alloc used (Some ip # rs) = map_option (Cons ip) (assign_all alloc used rs)"
| "assign_all alloc used (None # rs) =
     (case alloc used of
        None \<Rightarrow> None
      | Some ip \<Rightarrow> map_option (Cons ip) (assign_all alloc (insert ip used) rs))"

definition explicit_ip :: "server_section \<Rightarrow> ipv4addr option" where
  "explicit_ip s = Option.bind (ss_virtual_ip s) parse_ipv4"

definition resolve_virtual_ips :: "tun_config \<Rightarrow> server_section list \<Rightarrow> ipv4addr list any" where
  "resolve_virtual_ips tun servers =
     any_bind (explicit_ips servers {})
       (\<lambda>used. option_context ''no free virtual IP left in the tun subnet''
                 (assign_all (assign_virtual_ip tun) used (map explicit_ip servers)))"

section \<open>Keys\<close>

definition resolve_default_psk :: "crypto \<Rightarrow> host \<Rightarrow> key_section \<Rightarrow> psk any" where
  "resolve_default_psk C h key =
     (if ks_source key = ''passphrase''
      then any_bind (option_context ''[key] source = passphrase requires salt'' (ks_salt key)) (\<lambda>salt.
           any_bind (read_passphrase h (ks_passphrase_env key)) (\<lambda>passphrase.
             with_context ''deriving PSK from passphrase''
               (psk_from_passphrase C (str_bytes passphrase) (str_bytes salt))))
      else any_bind
        (if ks_source key = ''env''
         then any_bind (option_context ''[key] source = env requires env_var'' (ks_env_var key)) (\<lambda>var.
                option_context (''env var '' @ var @ '' not set'') (env_vars h var))
         else if ks_source key = ''value''
         then option_context ''[key] source = value requires value'' (ks_value key)
         else Inl (''unknown [key] source: '' @ ks_source key))
        (\<lambda>b64. with_context ''invalid PSK'' (psk_from_base64 C (trim b64))))"

definition resolve_psk :: "crypto \<Rightarrow> host \<Rightarrow> server_section \<Rightarrow> psk option \<Rightarrow> psk any" where
  "resolve_psk C h s default_psk =
     (case ss_key_env s of
        Some var \<Rightarrow>
          any_bind (option_context (''env var '' @ var @ '' not set'') (env_vars h var))
            (\<lambda>b64. with_context ''invalid PSK'' (psk_from_base64 C (trim b64)))
      | None \<Rightarrow>
          (case ss_key_value s of
             Some value \<Rightarrow> with_context ''invalid PSK'' (psk_from_base64 C (trim value))
           | None \<Rightarrow>
               (case default_psk of
                  Some psk \<Rightarrow> Inr psk
                | None \<Rightarrow> Inl ''server has no key_env/key_value and no global [key] is configured'')))"

section \<open>Loading\<close>

definition knock_settings_for :: "client_file \<Rightarrow> socket_addr \<Rightarrow> knock_settings option" where
  "knock_settings_for f addr =
     (if ckn_enabled (cf_knock f)
      then Some \<lparr>knock_port = (case ckn_port (cf_knock f) of Some p \<Rightarrow> p | None \<Rightarrow> sock_port addr)\<rparr>
      else None)"

definition load_server ::
    "crypto \<Rightarrow> host \<Rightarrow> client_file \<Rightarrow> secret_key \<Rightarrow> psk option \<Rightarrow> server_section \<Rightarrow> ipv4addr \<Rightarrow> server_entry any" where
  "load_server C h f admin_secret default_psk s virtual_ip =
     any_bind (option_context (''server '' @ ss_name s @ '': invalid addr '' @ ss_addr s)
                 (parse_socket_addr (ss_addr s))) (\<lambda>addr.
     any_bind (with_context (''server '' @ ss_name s @ '': invalid server_pubkey'')
                 (public_from_base64 C (ss_server_pubkey s))) (\<lambda>server_pubkey.
     any_bind (with_context (''server '' @ ss_name s @ '': psk'')
                 (resolve_psk C h s default_psk)) (\<lambda>psk.
     let pool_size = (case ss_pool_size s of Some n \<Rightarrow> n
                      | None \<Rightarrow> (case cf_pool_size f of Some n \<Rightarrow> n | None \<Rightarrow> DEFAULT_POOL_SIZE));
         knock = knock_settings_for f addr in
     Inr \<lparr>se_addr = addr, se_virtual_ip = virtual_ip,
          se_params = \<lparr>tp_static_secret = admin_secret, tp_server_pubkey = server_pubkey, tp_psk = psk,
                       tp_knock = knock, tp_fwmark = None\<rparr>,
          se_pool_size = pool_size\<rparr>)))"

fun load_servers ::
    "(server_section \<Rightarrow> ipv4addr \<Rightarrow> server_entry any) \<Rightarrow> (server_section \<times> ipv4addr) list \<Rightarrow>
     (string \<times> server_entry) list \<Rightarrow> (string \<times> server_entry) list any" where
  "load_servers entry [] servers = Inr servers"
| "load_servers entry ((s, vip) # rest) servers =
     any_bind (entry s vip) (\<lambda>e.
       if map_of servers (ss_name s) \<noteq> None then Inl (''duplicate server name: '' @ ss_name s)
       else load_servers entry rest (servers @ [(ss_name s, e)]))"

fun load_forwards :: "(string \<times> server_entry) list \<Rightarrow> forward_section list \<Rightarrow> forward_entry list any" where
  "load_forwards servers [] = Inr []"
| "load_forwards servers (f # fs) =
     any_bind (option_context (''forward: invalid local addr '' @ fs_local f)
                 (parse_socket_addr (fs_local f))) (\<lambda>local.
     if map_of servers (fs_server f) = None
     then Inl (''forward references unknown server: '' @ fs_server f)
     else any_bind (load_forwards servers fs) (\<lambda>es.
       Inr (\<lparr>fe_local = local, fe_server = fs_server f, fe_remote_port = fs_remote_port f\<rparr> # es)))"

definition load_default_psk :: "crypto \<Rightarrow> host \<Rightarrow> client_file \<Rightarrow> psk option any" where
  "load_default_psk C h f =
     (case cf_key f of
        Some k \<Rightarrow> any_bind (resolve_default_psk C h k) (\<lambda>p. Inr (Some p))
      | None \<Rightarrow> Inr None)"

definition client_load :: "crypto \<Rightarrow> client_file toml \<Rightarrow> host \<Rightarrow> string \<Rightarrow> loaded_client any" where
  "client_load C T h path =
     any_bind (read_file h T path) (\<lambda>f.
     let key_path = expand_home h (cf_admin_static_key_file f) in
     any_bind (option_context (''reading admin key '' @ key_path) (read_to_string h key_path)) (\<lambda>admin_b64.
     any_bind (with_context ''invalid admin key'' (secret_from_base64 C (trim admin_b64))) (\<lambda>admin_secret.
     any_bind (load_default_psk C h f) (\<lambda>default_psk.
     any_bind (parse_tun (cf_tun f)) (\<lambda>tun.
     any_bind (resolve_virtual_ips tun (cf_server f)) (\<lambda>vips.
     any_bind (load_servers (load_server C h f admin_secret default_psk) (zip (cf_server f) vips) []) (\<lambda>servers.
     any_bind (load_forwards servers (cf_forward f)) (\<lambda>forwards.
     Inr \<lparr>lc_servers = servers, lc_forwards = forwards, lc_tun = tun\<rparr>))))))))"

definition client_summarize :: "client_file toml \<Rightarrow> host \<Rightarrow> string \<Rightarrow> client_summary any" where
  "client_summarize T h path =
     any_bind (read_file h T path) (\<lambda>f.
     any_bind (parse_tun (cf_tun f)) (\<lambda>tun.
     any_bind (resolve_virtual_ips tun (cf_server f)) (\<lambda>vips.
     let servers = map (\<lambda>(s, vip). \<lparr>sm_name = ss_name s, sm_addr = ss_addr s, sm_virtual_ip = vip\<rparr>)
                       (zip (cf_server f) vips);
         key = (case cf_key f of
                  Some k \<Rightarrow> if ks_source k = ''passphrase'' then (True, ks_passphrase_env k) else (False, None)
                | None \<Rightarrow> (False, None)) in
     Inr \<lparr>cs_servers = servers, cs_key_is_passphrase = fst key, cs_passphrase_env = snd key,
          cs_tun_addr = tc_addr tun\<rparr>)))"

section \<open>Editing the configuration\<close>

text \<open>
  \<open>init_config\<close> on the random bytes of its two key pairs. The salt keeps the alphanumeric
  characters of a base64 text, which are ASCII.
\<close>

definition is_alphanumeric :: "char \<Rightarrow> bool" where
  "is_alphanumeric c \<longleftrightarrow>
     (let n = (of_char c :: nat) in 48 \<le> n \<and> n \<le> 57 \<or> 65 \<le> n \<and> n \<le> 90 \<or> 97 \<le> n \<and> n \<le> 122)"

definition client_init_config ::
    "crypto \<Rightarrow> client_file toml \<Rightarrow> host \<Rightarrow> bool \<Rightarrow> bytes \<Rightarrow> bytes \<Rightarrow> (string \<times> string \<times> string) any \<times> host" where
  "client_init_config C T h force random1 random2 =
     (if ensure_config_dir h = None then (Inl ''creating config dir'', h) else
      let cfg_path = client_config_file h; key_path = admin_key_file h in
      if files h cfg_path \<noteq> None \<and> \<not> force
      then (Inl (''config already exists at '' @ cfg_path @ '' (use --force to overwrite)''), h)
      else
        let keypair = keypair_generate C random1 in
        (case write_secret h key_path (secret_to_base64 C (kp_secret keypair)) of
           (Inl e, h1) \<Rightarrow> (Inl e, h1)
         | (Inr _, h1) \<Rightarrow>
             let salt = take 22 (filter is_alphanumeric
                          (public_to_base64 C (kp_public (keypair_generate C random2))));
                 f = \<lparr>cf_admin_static_key_file = key_path, cf_pool_size = None,
                      cf_key = Some \<lparr>ks_source = ''passphrase'', ks_env_var = None, ks_value = None,
                                     ks_passphrase_env = Some ''HYPERION_PASSPHRASE'', ks_salt = Some salt\<rparr>,
                      cf_knock = \<lparr>ckn_enabled = True, ckn_port = None\<rparr>,
                      cf_tun = tun_section_default, cf_server = [], cf_forward = []\<rparr> in
             (case write_file h1 T cfg_path f of
                (Inl e, h2) \<Rightarrow> (Inl e, h2)
              | (Inr _, h2) \<Rightarrow> (Inr (cfg_path, public_to_base64 C (kp_public keypair), salt), h2))))"

definition normalize_addr :: "string \<Rightarrow> string" where
  "normalize_addr addr =
     (if CHR '':'' \<in> set addr then addr
      else addr @ '':'' @ nat_to_dec (unat DEFAULT_LISTEN_PORT))"

definition add_server ::
    "crypto \<Rightarrow> client_file toml \<Rightarrow> host \<Rightarrow> string \<Rightarrow> string \<Rightarrow> string \<Rightarrow> string \<Rightarrow> ipv4addr any \<times> host" where
  "add_server C T h path name addr server_pubkey =
     (case any_bind (option_context (''invalid server addr '' @ addr) (parse_socket_addr (normalize_addr addr))) (\<lambda>parsed_addr.
           any_bind (with_context ''invalid server_pubkey'' (public_from_base64 C server_pubkey)) (\<lambda>_.
           any_bind (read_file h T path) (\<lambda>f.
             if \<exists>s \<in> set (cf_server f). ss_name s = name
             then Inl (''server '' @ name @ '' already exists'')
             else any_bind (parse_tun (cf_tun f)) (\<lambda>tun.
                  let used = set (List.map_filter explicit_ip (cf_server f)) in
                  any_bind (option_context ''no free virtual IP left in the tun subnet''
                              (assign_virtual_ip tun used)) (\<lambda>vip.
                  Inr (f\<lparr>cf_server := cf_server f @
                         [\<lparr>ss_name = name, ss_addr = sock_to_string parsed_addr, ss_server_pubkey = server_pubkey,
                           ss_virtual_ip = Some (ipv4_to_string vip), ss_key_env = None, ss_key_value = None,
                           ss_pool_size = None\<rparr>]\<rparr>, vip)))))) of
        Inl e \<Rightarrow> (Inl e, h)
      | Inr (f, vip) \<Rightarrow>
          (case write_file h T path f of
             (Inl e, h') \<Rightarrow> (Inl e, h')
           | (Inr _, h') \<Rightarrow> (Inr vip, h')))"

definition remove_server :: "client_file toml \<Rightarrow> host \<Rightarrow> string \<Rightarrow> string \<Rightarrow> unit any \<times> host" where
  "remove_server T h path name =
     (case read_file h T path of
        Inl e \<Rightarrow> (Inl e, h)
      | Inr f \<Rightarrow>
          let kept = filter (\<lambda>s. ss_name s \<noteq> name) (cf_server f) in
          if length kept = length (cf_server f) then (Inl (''no server named '' @ name), h)
          else write_file h T path (f\<lparr>cf_server := kept\<rparr>))"

section \<open>Forwards\<close>

fun check_duplicate_from :: "forward_entry list \<Rightarrow> socket_addr set \<Rightarrow> unit any" where
  "check_duplicate_from [] locals = Inr ()"
| "check_duplicate_from (f # fs) locals =
     (if fe_local f \<in> locals then Inl (''duplicate local forward address: '' @ sock_to_string (fe_local f))
      else check_duplicate_from fs (insert (fe_local f) locals))"

definition check_duplicate_locals :: "forward_entry list \<Rightarrow> unit any" where
  "check_duplicate_locals forwards = check_duplicate_from forwards {}"

definition parse_forward_spec :: "string \<Rightarrow> forward_entry any" where
  "parse_forward_spec spec =
     (case split_on (CHR '':'') spec of
        [l, s, r] \<Rightarrow>
          any_bind (option_context ''bad local port in -L'' (parse_u16 l)) (\<lambda>local_port.
          any_bind (option_context ''bad remote port in -L'' (parse_u16 r)) (\<lambda>remote_port.
          Inr \<lparr>fe_local = SockV4 (Ipv4Addr 127 0 0 1) local_port, fe_server = s, fe_remote_port = remote_port\<rparr>))
      | _ \<Rightarrow> Inl ''-L expects local_port:server:remote_port'')"

definition server_ips :: "loaded_client \<Rightarrow> ipaddr list" where
  "server_ips loaded = map (\<lambda>(name, e). sock_ip (se_addr e)) (lc_servers loaded)"

section \<open>The allocator\<close>

definition host_ip :: "tun_config \<Rightarrow> nat \<Rightarrow> ipv4addr" where
  "host_ip tun h = ipv4_of_u32 (subnet_base tun + word_of_nat h)"

definition tun_ok :: "tun_config \<Rightarrow> bool" where
  "tun_ok tun \<longleftrightarrow> 0 < tc_prefix tun \<and> tc_prefix tun \<le> 30"

text \<open>The addresses a client may hand out: host numbers from 10 to the last but one, not its own.\<close>

definition virtual_pool :: "tun_config \<Rightarrow> ipv4addr set" where
  "virtual_pool tun = host_ip tun ` {VIRTUAL_HOST_START..<2 ^ host_bits tun - 1} - {tc_addr tun}"

lemma parse_tun_ok: "parse_tun t = Inr tun \<Longrightarrow> tun_ok tun"
  by (auto simp: parse_tun_def tun_ok_def any_bind_Inr_iff word_neq_0_conv split: if_splits)

lemma host_bits_bounds: "tun_ok tun \<Longrightarrow> 2 \<le> host_bits tun \<and> host_bits tun \<le> 31"
proof -
  assume "tun_ok tun"
  then have "0 < unat (tc_prefix tun)" "unat (tc_prefix tun) \<le> 30"
    by (auto simp: tun_ok_def word_less_nat_alt word_le_nat_alt)
  then show ?thesis unfolding host_bits_def by linarith
qed

lemma scan_hosts_Some:
  "scan_hosts tun used h limit = Some ip \<longleftrightarrow>
     (\<exists>k. h \<le> k \<and> k < limit \<and> ip = host_ip tun k \<and> ip \<noteq> tc_addr tun \<and> ip \<notin> used \<and>
          (\<forall>j. h \<le> j \<and> j < k \<longrightarrow> host_ip tun j = tc_addr tun \<or> host_ip tun j \<in> used))"
proof (induction tun used h limit rule: scan_hosts.induct)
  case (1 tun used h limit)
  consider "\<not> h < limit" | "h < limit" "host_ip tun h \<noteq> tc_addr tun \<and> host_ip tun h \<notin> used"
    | "h < limit" "host_ip tun h = tc_addr tun \<or> host_ip tun h \<in> used"
    by blast
  then show ?case
  proof cases
    case 1
    then show ?thesis by (subst scan_hosts.simps) auto
  next
    case 2
    then have "scan_hosts tun used h limit = Some (host_ip tun h)"
      by (subst scan_hosts.simps) (simp add: host_ip_def Let_def)
    with 2 show ?thesis by (auto intro: exI[of _ h]) (metis le_neq_implies_less order_refl)
  next
    case 3
    then have step: "scan_hosts tun used h limit = scan_hosts tun used (Suc h) limit"
      by (subst scan_hosts.simps) (auto simp: host_ip_def Let_def)
    have IH: "scan_hosts tun used (Suc h) limit = Some ip \<longleftrightarrow>
        (\<exists>k. Suc h \<le> k \<and> k < limit \<and> ip = host_ip tun k \<and> ip \<noteq> tc_addr tun \<and> ip \<notin> used \<and>
          (\<forall>j. Suc h \<le> j \<and> j < k \<longrightarrow> host_ip tun j = tc_addr tun \<or> host_ip tun j \<in> used))"
      using 3 by (intro 1) (auto simp: host_ip_def)
    show ?thesis
      unfolding step IH using 3 by (metis Suc_leD Suc_leI le_neq_implies_less)
  qed
qed

lemma scan_hosts_None:
  "scan_hosts tun used h limit = None \<longleftrightarrow>
     (\<forall>k. h \<le> k \<and> k < limit \<longrightarrow> host_ip tun k = tc_addr tun \<or> host_ip tun k \<in> used)"
proof (induction tun used h limit rule: scan_hosts.induct)
  case (1 tun used h limit)
  show ?case
  proof (cases "h < limit \<and> (host_ip tun h = tc_addr tun \<or> host_ip tun h \<in> used)")
    case True
    then have "scan_hosts tun used h limit = scan_hosts tun used (Suc h) limit"
      by (subst scan_hosts.simps) (auto simp: host_ip_def Let_def)
    moreover have "scan_hosts tun used (Suc h) limit = None \<longleftrightarrow>
        (\<forall>k. Suc h \<le> k \<and> k < limit \<longrightarrow> host_ip tun k = tc_addr tun \<or> host_ip tun k \<in> used)"
      using True by (intro 1) (auto simp: host_ip_def)
    ultimately show ?thesis using True by (metis Suc_leD Suc_leI le_neq_implies_less)
  next
    case False
    then show ?thesis by (subst scan_hosts.simps) (auto simp: host_ip_def Let_def)
  qed
qed

lemma unat_pow2: "n \<le> 31 \<Longrightarrow> unat (2 ^ n :: u32) = 2 ^ n"
proof -
  assume "n \<le> 31"
  then have "(2 :: nat) ^ n < 2 ^ 32" by (intro power_strict_increasing) auto
  then have "unat (word_of_nat (2 ^ n) :: u32) = 2 ^ n" by (simp only: unat_of_nat) simp
  then show ?thesis by simp
qed

lemma host_limit: "tun_ok tun \<Longrightarrow> unat (saturating_sub (host_count tun) 1) = 2 ^ host_bits tun - 1"
  using host_bits_bounds[of tun] by (simp add: time_simps host_count_def push_bit_eq_mult unat_pow2)

lemma and_mask_high: "and x (push_bit n (- 1)) = push_bit n (drop_bit n (x :: u32))"
  by (rule bit_eqI) (auto simp: bit_simps)

lemma unat_subnet_base:
  "unat (subnet_base tun) = unat (ipv4_to_u32 (tc_addr tun)) div 2 ^ host_bits tun * 2 ^ host_bits tun"
proof -
  let ?x = "unat (ipv4_to_u32 (tc_addr tun))" and ?n = "host_bits tun"
  have "?x div 2 ^ ?n * 2 ^ ?n \<le> ?x" by simp
  also have "?x < 2 ^ 32" using unsigned_less[of "ipv4_to_u32 (tc_addr tun)", where ?'a = nat] by simp
  finally have "?x div 2 ^ ?n * 2 ^ ?n mod 2 ^ 32 = ?x div 2 ^ ?n * 2 ^ ?n" by simp
  moreover have "?x mod 2 ^ 32 = ?x"
    using unsigned_less[of "ipv4_to_u32 (tc_addr tun)", where ?'a = nat] by simp
  ultimately show ?thesis
    unfolding subnet_base_def subnet_mask_def and_mask_high
    by (simp only: unsigned_push_bit_eq unsigned_drop_bit_eq)
       (simp add: take_bit_eq_mod push_bit_eq_mult drop_bit_eq_div)
qed

text \<open>The candidate of host number \<open>k\<close> lies in the subnet and has exactly that host number.\<close>

lemma unat_host_ip:
  assumes "k < 2 ^ host_bits tun" "tun_ok tun"
  shows "unat (ipv4_to_u32 (host_ip tun k)) = unat (subnet_base tun) + k"
proof -
  let ?x = "unat (ipv4_to_u32 (tc_addr tun))" and ?n = "host_bits tun"
  have le: "?n \<le> 31" using host_bits_bounds assms by blast
  have "?x < 2 ^ (32 - ?n) * 2 ^ ?n"
    using unsigned_less[of "ipv4_to_u32 (tc_addr tun)", where ?'a = nat] le
    by (simp flip: power_add)
  then have "?x div 2 ^ ?n < 2 ^ (32 - ?n)" by (rule less_mult_imp_div_less)
  then have "Suc (?x div 2 ^ ?n) * 2 ^ ?n \<le> 2 ^ (32 - ?n) * 2 ^ ?n" by (intro mult_le_mono1) simp
  also have "\<dots> = 2 ^ 32" using le by (simp flip: power_add)
  finally have "?x div 2 ^ ?n * 2 ^ ?n + 2 ^ ?n \<le> 2 ^ 32" by simp
  with assms(1) have "unat (subnet_base tun) + k < 2 ^ 32" unfolding unat_subnet_base by linarith
  moreover from this have "k < 2 ^ 32" by linarith
  ultimately show ?thesis
    by (simp add: host_ip_def unat_word_ariths unat_of_nat)
qed

definition same_subnet :: "tun_config \<Rightarrow> ipv4addr \<Rightarrow> bool" where
  "same_subnet tun ip \<longleftrightarrow>
     unat (ipv4_to_u32 ip) div 2 ^ host_bits tun = unat (ipv4_to_u32 (tc_addr tun)) div 2 ^ host_bits tun"

definition host_number :: "tun_config \<Rightarrow> ipv4addr \<Rightarrow> nat" where
  "host_number tun ip = unat (ipv4_to_u32 ip) mod 2 ^ host_bits tun"

lemma host_ip_place:
  "k < 2 ^ host_bits tun \<Longrightarrow> tun_ok tun \<Longrightarrow>
     same_subnet tun (host_ip tun k) \<and> host_number tun (host_ip tun k) = k"
  by (simp add: same_subnet_def host_number_def unat_host_ip unat_subnet_base)

lemma host_ip_of_place:
  assumes "same_subnet tun ip" "tun_ok tun"
  shows "ip = host_ip tun (host_number tun ip)"
proof -
  have "unat (ipv4_to_u32 ip) = unat (ipv4_to_u32 (host_ip tun (host_number tun ip)))"
    using assms(1) div_mult_mod_eq[of "unat (ipv4_to_u32 ip)" "2 ^ host_bits tun"]
    by (simp add: unat_host_ip[OF _ assms(2)] host_number_def unat_subnet_base same_subnet_def)
  then show ?thesis by (metis ipv4_of_to_u32 unsigned_word_eqI)
qed

text \<open>The pool, by its members' numbers.\<close>

lemma virtual_pool_iff:
  assumes "tun_ok tun"
  shows "ip \<in> virtual_pool tun \<longleftrightarrow>
     same_subnet tun ip \<and> VIRTUAL_HOST_START \<le> host_number tun ip \<and>
     host_number tun ip < 2 ^ host_bits tun - 1 \<and> ip \<noteq> tc_addr tun"
proof
  assume "ip \<in> virtual_pool tun"
  then obtain k where "VIRTUAL_HOST_START \<le> k" "k < 2 ^ host_bits tun - 1" "ip = host_ip tun k" "ip \<noteq> tc_addr tun"
    by (auto simp: virtual_pool_def)
  with host_ip_place[of k tun] assms show "same_subnet tun ip \<and> VIRTUAL_HOST_START \<le> host_number tun ip \<and>
     host_number tun ip < 2 ^ host_bits tun - 1 \<and> ip \<noteq> tc_addr tun" by simp
next
  assume "same_subnet tun ip \<and> VIRTUAL_HOST_START \<le> host_number tun ip \<and>
     host_number tun ip < 2 ^ host_bits tun - 1 \<and> ip \<noteq> tc_addr tun"
  then show "ip \<in> virtual_pool tun"
    using host_ip_of_place[OF _ assms, of ip]
    by (auto simp: virtual_pool_def intro!: image_eqI[of _ _ "host_number tun ip"])
qed

lemma assign_virtual_ip_Some:
  "tun_ok tun \<Longrightarrow> assign_virtual_ip tun used = Some ip \<Longrightarrow> ip \<in> virtual_pool tun \<and> ip \<notin> used"
  unfolding assign_virtual_ip_def scan_hosts_Some by (auto simp: host_limit virtual_pool_def)

lemma assign_virtual_ip_None:
  "tun_ok tun \<Longrightarrow> assign_virtual_ip tun used = None \<longleftrightarrow> virtual_pool tun \<subseteq> used"
  unfolding assign_virtual_ip_def scan_hosts_None by (fastforce simp: host_limit virtual_pool_def)

text \<open>
  The contract of an allocator of addresses in a subnet: it hands out members of the subnet's
  pool that are not in use, and refuses only when all of them are.
\<close>

locale ip_allocator =
  fixes valid :: "'c \<Rightarrow> bool" and alloc :: "'c \<Rightarrow> 'k set \<Rightarrow> 'k option" and free_pool :: "'c \<Rightarrow> 'k set"
  assumes alloc_sound: "valid c \<Longrightarrow> alloc c used = Some ip \<Longrightarrow> ip \<in> free_pool c \<and> ip \<notin> used"
    and alloc_complete: "valid c \<Longrightarrow> alloc c used = None \<longleftrightarrow> free_pool c \<subseteq> used"
begin

lemma assign_all_length: "assign_all (alloc c) used rs = Some out \<Longrightarrow> length out = length rs"
proof (induction rs arbitrary: used out)
  case (Cons r rs)
  then show ?case by (cases r) (auto split: option.splits)
qed simp

lemma assign_all_explicit:
  "assign_all (alloc c) used rs = Some out \<Longrightarrow> i < length rs \<Longrightarrow> rs ! i = Some ip \<Longrightarrow> out ! i = ip"
proof (induction rs arbitrary: used out i)
  case (Cons r rs)
  then show ?case by (cases r; cases i) (auto split: option.splits)
qed simp

lemma assign_all_fresh:
  assumes "valid c"
  shows "assign_all (alloc c) used rs = Some out \<Longrightarrow> i < length rs \<Longrightarrow> rs ! i = None \<Longrightarrow>
     out ! i \<in> free_pool c \<and> out ! i \<notin> used"
proof (induction rs arbitrary: used out i)
  case (Cons r rs)
  then show ?case
    using alloc_sound[OF assms] by (cases r; cases i) (fastforce split: option.splits)+
qed simp

lemma assign_all_members:
  assumes "valid c"
  shows "assign_all (alloc c) used rs = Some out \<Longrightarrow> ip \<in> set out \<Longrightarrow> Some ip \<in> set rs \<or> ip \<notin> used"
proof (induction rs arbitrary: used out)
  case (Cons r rs)
  then show ?case
    using alloc_sound[OF assms] by (cases r) (fastforce split: option.splits)+
qed simp

lemma assign_all_distinct:
  assumes "valid c"
  shows "assign_all (alloc c) used rs = Some out \<Longrightarrow> distinct (filter (\<lambda>r. r \<noteq> None) rs) \<Longrightarrow>
     \<forall>ip. Some ip \<in> set rs \<longrightarrow> ip \<in> used \<Longrightarrow> distinct out"
proof (induction rs arbitrary: used out)
  case (Cons r rs)
  show ?case
  proof (cases r)
    case None
    with Cons.prems obtain ip out' where out: "alloc c used = Some ip" "out = ip # out'"
      "assign_all (alloc c) (insert ip used) rs = Some out'"
      by (auto split: option.splits)
    have "ip \<notin> used" using alloc_sound assms out by blast
    then have "Some ip \<notin> set rs" using Cons.prems by auto
    then have "ip \<notin> set out'" using assign_all_members[OF assms out(3)] by blast
    moreover have "distinct out'" using Cons.IH[OF out(3)] Cons.prems None by auto
    ultimately show ?thesis using out by simp
  next
    case (Some ip)
    with Cons.prems obtain out' where out: "out = ip # out'" "assign_all (alloc c) used rs = Some out'"
      by auto
    have "ip \<in> used" "Some ip \<notin> set rs" using Cons.prems Some by auto
    then have "ip \<notin> set out'" using assign_all_members[OF assms out(2)] by blast
    moreover have "distinct out'" using Cons.IH[OF out(2)] Cons.prems Some by auto
    ultimately show ?thesis using out by simp
  qed
qed simp

lemma assign_all_succeeds:
  assumes "valid c" "finite (free_pool c)"
  shows "length (filter (\<lambda>r. r = None) rs) \<le> card (free_pool c - used) \<Longrightarrow> assign_all (alloc c) used rs \<noteq> None"
proof (induction rs arbitrary: used)
  case (Cons r rs)
  show ?case
  proof (cases r)
    case None
    with Cons.prems have "card (free_pool c - used) \<noteq> 0" by simp
    then have "\<not> free_pool c \<subseteq> used" by (metis Diff_eq_empty_iff card.empty)
    then obtain ip where ip: "alloc c used = Some ip" using alloc_complete assms by fastforce
    then have "ip \<in> free_pool c - used" using alloc_sound assms by blast
    then have "card (free_pool c - insert ip used) = card (free_pool c - used) - 1"
      using card_Diff_singleton[of ip "free_pool c - used"] by (metis Diff_insert)
    then have "assign_all (alloc c) (insert ip used) rs \<noteq> None"
      using Cons.IH[of "insert ip used"] Cons.prems None by simp
    then show ?thesis using None ip by auto
  qed (use Cons in auto)
qed simp

text \<open>An address in use that nobody asked for by name stays out of the assignment.\<close>

lemma assign_all_avoids:
  assumes "valid c" "assign_all (alloc c) used rs = Some out" "ip \<in> used" "Some ip \<notin> set rs"
  shows "ip \<notin> set out"
  using assign_all_members assms by blast

end

interpretation virtual_ips: ip_allocator tun_ok assign_virtual_ip virtual_pool
  by unfold_locales (auto dest: assign_virtual_ip_Some simp: assign_virtual_ip_None)

section \<open>Resolving the fake IPs\<close>

lemma explicit_ips_Inr:
  "explicit_ips ss used = Inr used' \<Longrightarrow>
     used' = used \<union> {ip. Some ip \<in> set (map explicit_ip ss)} \<and>
     (\<forall>s \<in> set ss. ss_virtual_ip s \<noteq> None \<longrightarrow> explicit_ip s \<noteq> None) \<and>
     distinct (filter (\<lambda>r. r \<noteq> None) (map explicit_ip ss)) \<and>
     (\<forall>ip \<in> used. Some ip \<notin> set (map explicit_ip ss))"
proof (induction ss arbitrary: used)
  case (Cons s ss)
  show ?case
  proof (cases "ss_virtual_ip s")
    case None
    then have "explicit_ip s = None" by (simp add: explicit_ip_def)
    with Cons None show ?thesis by auto
  next
    case (Some vip)
    with Cons.prems obtain ip where ip: "parse_ipv4 vip = Some ip" "ip \<notin> used"
      "explicit_ips ss (insert ip used) = Inr used'"
      by (auto split: option.splits if_splits)
    then have e: "explicit_ip s = Some ip" using Some by (simp add: explicit_ip_def)
    from Cons.IH[OF ip(3)] have IH: "used' = insert ip used \<union> {ip. Some ip \<in> set (map explicit_ip ss)}"
      "\<forall>s \<in> set ss. ss_virtual_ip s \<noteq> None \<longrightarrow> explicit_ip s \<noteq> None"
      "distinct (filter (\<lambda>r. r \<noteq> None) (map explicit_ip ss))"
      "\<forall>ip \<in> insert ip used. Some ip \<notin> set (map explicit_ip ss)"
      by blast+
    have "used' = used \<union> {ip. Some ip \<in> set (map explicit_ip (s # ss))}"
      using IH(1) e by auto
    moreover have "\<forall>s' \<in> set (s # ss). ss_virtual_ip s' \<noteq> None \<longrightarrow> explicit_ip s' \<noteq> None"
      using IH(2) e by simp
    moreover have "distinct (filter (\<lambda>r. r \<noteq> None) (map explicit_ip (s # ss)))"
      using IH(3,4) e by auto
    moreover have "\<forall>ip \<in> used. Some ip \<notin> set (map explicit_ip (s # ss))"
      using IH(4) e ip(2) by auto
    ultimately show ?thesis by blast
  qed
qed simp

lemma resolve_Inr:
  assumes "resolve_virtual_ips tun ss = Inr vips"
  shows "assign_all (assign_virtual_ip tun) {ip. Some ip \<in> set (map explicit_ip ss)} (map explicit_ip ss) = Some vips"
    and "distinct (filter (\<lambda>r. r \<noteq> None) (map explicit_ip ss))"
    and "\<forall>s \<in> set ss. ss_virtual_ip s \<noteq> None \<longrightarrow> explicit_ip s \<noteq> None"
    and "explicit_ips ss {} = Inr {ip. Some ip \<in> set (map explicit_ip ss)}"
  using assms explicit_ips_Inr[of ss "{}"]
  by (auto simp: resolve_virtual_ips_def any_bind_Inr_iff)

lemma resolved_ips:
  assumes "parse_tun t = Inr tun" "resolve_virtual_ips tun ss = Inr vips"
  shows "length vips = length ss" "distinct vips"
  using virtual_ips.assign_all_length[OF resolve_Inr(1)[OF assms(2)]]
    virtual_ips.assign_all_distinct[OF parse_tun_ok[OF assms(1)] resolve_Inr(1,2)[OF assms(2)]] by auto

text \<open>
  C19: Fake IPs never collide and lie where they may. When the addresses of a configuration
  are resolved in a valid subnet there is one per server, all different; a server that names
  its address gets it, and every other server gets an address of the client's own subnet, with
  a host number from 10 to the last but one, which is not the client's own.
\<close>

theorem virtual_ips_assigned:
  assumes "parse_tun t = Inr tun" "resolve_virtual_ips tun ss = Inr vips"
  shows "length vips = length ss \<and> distinct vips \<and>
         (\<forall>i < length ss.
            case ss_virtual_ip (ss ! i) of
              Some text \<Rightarrow> parse_ipv4 text = Some (vips ! i)
            | None \<Rightarrow> same_subnet tun (vips ! i) \<and> 10 \<le> host_number tun (vips ! i) \<and>
                      host_number tun (vips ! i) < 2 ^ host_bits tun - 1 \<and> vips ! i \<noteq> tc_addr tun)"
proof (intro conjI allI impI)
  have ok: "tun_ok tun" using parse_tun_ok assms(1) by blast
  note r = resolve_Inr[OF assms(2)]
  show "length vips = length ss" "distinct vips" by (rule resolved_ips[OF assms])+
  fix i assume i: "i < length ss"
  show "case ss_virtual_ip (ss ! i) of
          Some text \<Rightarrow> parse_ipv4 text = Some (vips ! i)
        | None \<Rightarrow> same_subnet tun (vips ! i) \<and> 10 \<le> host_number tun (vips ! i) \<and>
                  host_number tun (vips ! i) < 2 ^ host_bits tun - 1 \<and> vips ! i \<noteq> tc_addr tun"
  proof (cases "ss_virtual_ip (ss ! i)")
    case None
    then have "map explicit_ip ss ! i = None" using i by (simp add: explicit_ip_def)
    then have "vips ! i \<in> virtual_pool tun"
      using virtual_ips.assign_all_fresh[OF ok r(1), of i] i by simp
    then show ?thesis using None by (simp add: virtual_pool_iff[OF ok] VIRTUAL_HOST_START_def)
  next
    case (Some vip)
    then obtain ip where ip: "parse_ipv4 vip = Some ip"
      using r(3) i by (fastforce simp: explicit_ip_def)
    then have "map explicit_ip ss ! i = Some ip" using Some i by (simp add: explicit_ip_def)
    then show ?thesis
      using virtual_ips.assign_all_explicit[OF r(1), of i ip] i ip Some by simp
  qed
qed

definition plain_server :: "string \<Rightarrow> string option \<Rightarrow> server_section" where
  "plain_server name vip =
     \<lparr>ss_name = name, ss_addr = ''203.0.113.10:8443'', ss_server_pubkey = ''x'', ss_virtual_ip = vip,
      ss_key_env = None, ss_key_value = None, ss_pool_size = None\<rparr>"

lemma parse_default_tun:
  "parse_tun tun_section_default = Inr \<lparr>tc_addr = Ipv4Addr 10 99 0 1, tc_prefix = 24, tc_mtu = 1420\<rparr>"
proof -
  have "parse_ipv4 ''10.99.0.1'' = Some (Ipv4Addr 10 99 0 1)" by code_simp
  then show ?thesis
    by (simp add: parse_tun_def tun_section_default_def default_tun_addr_def default_tun_prefix_def
        default_tun_mtu_def option_context_def)
qed

definition sample_tun :: tun_config where
  "sample_tun = \<lparr>tc_addr = Ipv4Addr 10 99 0 1, tc_prefix = 24, tc_mtu = 1420\<rparr>"

lemma sample_tun_ok: "tun_ok sample_tun" and sample_host_bits: "host_bits sample_tun = 8"
  by (simp_all add: tun_ok_def sample_tun_def host_bits_def)

lemma sample_host_ip:
  assumes "k < 256"
  shows "host_ip sample_tun k = Ipv4Addr 10 99 0 (word_of_nat k)"
proof -
  have "unat (word_of_nat k :: byte) = k" using assms by (simp add: unat_of_nat)
  then have "unat (ipv4_to_u32 (host_ip sample_tun k)) = unat (ipv4_to_u32 (Ipv4Addr 10 99 0 (word_of_nat k)))"
    using assms unat_host_ip[of k sample_tun, OF _ sample_tun_ok]
    by (simp add: sample_host_bits unat_subnet_base unat_ipv4_to_u32 nat_of_be_def del: unat_of_nat)
       (simp add: sample_tun_def)
  then show ?thesis by (metis ipv4_of_to_u32 unsigned_word_eqI)
qed

lemma sample_limit: "unat (saturating_sub (host_count sample_tun) 1) = 255"
  using host_limit[OF sample_tun_ok] by (simp add: sample_host_bits)

lemma sample_assign:
  "Ipv4Addr 10 99 0 10 \<notin> used \<Longrightarrow> assign_virtual_ip sample_tun used = Some (Ipv4Addr 10 99 0 10)"
  "Ipv4Addr 10 99 0 10 \<in> used \<Longrightarrow> Ipv4Addr 10 99 0 11 \<notin> used \<Longrightarrow>
     assign_virtual_ip sample_tun used = Some (Ipv4Addr 10 99 0 11)"
proof -
  have step: "scan_hosts sample_tun used h 255 =
      (if h < 255 then if host_ip sample_tun h \<noteq> Ipv4Addr 10 99 0 1 \<and> host_ip sample_tun h \<notin> used
                       then Some (host_ip sample_tun h) else scan_hosts sample_tun used (Suc h) 255 else None)" for h
    by (subst scan_hosts.simps) (simp add: host_ip_def sample_tun_def Let_def)
  show "Ipv4Addr 10 99 0 10 \<notin> used \<Longrightarrow> assign_virtual_ip sample_tun used = Some (Ipv4Addr 10 99 0 10)"
    unfolding assign_virtual_ip_def sample_limit VIRTUAL_HOST_START_def
    by (subst step) (simp add: sample_host_ip)
  show "Ipv4Addr 10 99 0 10 \<in> used \<Longrightarrow> Ipv4Addr 10 99 0 11 \<notin> used \<Longrightarrow>
     assign_virtual_ip sample_tun used = Some (Ipv4Addr 10 99 0 11)"
    unfolding assign_virtual_ip_def sample_limit VIRTUAL_HOST_START_def
    by (subst step, subst step) (simp add: sample_host_ip)
qed

theorem virtual_ips_assigned_witness:
  "resolve_virtual_ips sample_tun [plain_server ''a'' (Some ''10.99.0.50''), plain_server ''b'' None] =
     Inr [Ipv4Addr 10 99 0 50, Ipv4Addr 10 99 0 10] \<and>
   same_subnet sample_tun (Ipv4Addr 10 99 0 10)"
proof -
  have p: "parse_ipv4 ''10.99.0.50'' = Some (Ipv4Addr 10 99 0 50)" by code_simp
  have r: "resolve_virtual_ips sample_tun [plain_server ''a'' (Some ''10.99.0.50''), plain_server ''b'' None] =
     Inr [Ipv4Addr 10 99 0 50, Ipv4Addr 10 99 0 10]"
    by (simp add: resolve_virtual_ips_def plain_server_def explicit_ip_def p sample_assign option_context_def)
  from virtual_ips_assigned[OF _ r, of tun_section_default] show ?thesis
    using r parse_default_tun by (auto simp: sample_tun_def plain_server_def dest!: spec[of _ 1])
qed

text \<open>
  The search for a fake IP is complete, and small subnets have none. An address is
  refused only when every host number from 10 to the last but one is taken or the client's
  own; with the prefixes 29 and 30, which the configuration accepts, that is always so.
\<close>

theorem virtual_ip_refused_exactly_when_full:
  assumes "parse_tun t = Inr tun"
  shows "(assign_virtual_ip tun used = None \<longleftrightarrow>
           (\<forall>ip. same_subnet tun ip \<and> 10 \<le> host_number tun ip \<and> host_number tun ip < 2 ^ host_bits tun - 1 \<and>
                 ip \<noteq> tc_addr tun \<longrightarrow> ip \<in> used)) \<and>
         (29 \<le> tc_prefix tun \<longrightarrow> assign_virtual_ip tun used = None)"
proof -
  have ok: "tun_ok tun" using parse_tun_ok assms by blast
  then have iff: "assign_virtual_ip tun used = None \<longleftrightarrow>
           (\<forall>ip. same_subnet tun ip \<and> 10 \<le> host_number tun ip \<and> host_number tun ip < 2 ^ host_bits tun - 1 \<and>
                 ip \<noteq> tc_addr tun \<longrightarrow> ip \<in> used)"
    by (auto simp: assign_virtual_ip_None virtual_pool_iff VIRTUAL_HOST_START_def)
  moreover have "2 ^ host_bits tun \<le> (8 :: nat)" if "29 \<le> tc_prefix tun"
  proof -
    have "host_bits tun \<le> 3" using that by (simp add: host_bits_def word_le_nat_alt)
    then have "(2 :: nat) ^ host_bits tun \<le> 2 ^ 3" by (rule power_increasing) simp
    then show ?thesis by simp
  qed
  ultimately show ?thesis by force
qed

theorem virtual_ip_refused_exactly_when_full_witness:
  "assign_virtual_ip \<lparr>tc_addr = Ipv4Addr 10 0 0 1, tc_prefix = 29, tc_mtu = 1420\<rparr> {} = None"
proof -
  have "parse_ipv4 ''10.0.0.1'' = Some (Ipv4Addr 10 0 0 1)" by code_simp
  then have "parse_tun \<lparr>ts_addr = ''10.0.0.1'', ts_prefix = 29, ts_mtu = 1420\<rparr> =
      Inr \<lparr>tc_addr = Ipv4Addr 10 0 0 1, tc_prefix = 29, tc_mtu = 1420\<rparr>"
    by (simp add: parse_tun_def option_context_def)
  from virtual_ip_refused_exactly_when_full[OF this, of "{}"] show ?thesis by simp
qed

text \<open>
  C20: The allocator is the least free address. In a subnet that a configuration may have, the
  scan over the host numbers returns the least address of the pool, in address order, that is not
  in use, and nothing exactly when there is none.
\<close>

theorem allocator_is_least_free:
  assumes "tun_ok tun"
  shows "assign_virtual_ip tun used =
     (if virtual_pool tun \<subseteq> used then None else Some (Min (virtual_pool tun - used)))"
proof (cases "assign_virtual_ip tun used")
  case None
  then show ?thesis using assign_virtual_ip_None[OF assms] by auto
next
  case (Some ip)
  then obtain k where k: "VIRTUAL_HOST_START \<le> k" "k < 2 ^ host_bits tun - 1" "ip = host_ip tun k"
    "\<forall>j. VIRTUAL_HOST_START \<le> j \<and> j < k \<longrightarrow> host_ip tun j = tc_addr tun \<or> host_ip tun j \<in> used"
    unfolding assign_virtual_ip_def scan_hosts_Some host_limit[OF assms] by blast
  have "ip \<le> x" if x: "x \<in> virtual_pool tun - used" for x
  proof -
    from x obtain j where j: "VIRTUAL_HOST_START \<le> j" "j < 2 ^ host_bits tun - 1" "x = host_ip tun j"
      "host_ip tun j \<noteq> tc_addr tun" "host_ip tun j \<notin> used" by (auto simp: virtual_pool_def)
    then have "k \<le> j" using k(4) by (meson not_less)
    then show ?thesis
      using k(2,3) j(2,3) assms by (simp add: less_eq_ipv4addr_def word_le_nat_alt unat_host_ip)
  qed
  moreover have "finite (virtual_pool tun - used)" by (simp add: virtual_pool_def)
  moreover have "ip \<in> virtual_pool tun - used" using assign_virtual_ip_Some[OF assms Some] by simp
  ultimately have "Min (virtual_pool tun - used) = ip" by (intro Min_eqI) auto
  moreover have "\<not> virtual_pool tun \<subseteq> used" using assign_virtual_ip_Some[OF assms Some] by blast
  ultimately show ?thesis using Some by simp
qed

theorem allocator_is_least_free_witness:
  "Min (virtual_pool sample_tun - {Ipv4Addr 10 99 0 10}) = Ipv4Addr 10 99 0 11"
proof -
  have "assign_virtual_ip sample_tun {Ipv4Addr 10 99 0 10} = Some (Ipv4Addr 10 99 0 11)"
    by (rule sample_assign(2)) simp_all
  with allocator_is_least_free[OF sample_tun_ok, of "{Ipv4Addr 10 99 0 10}"] show ?thesis
    by (simp split: if_splits)
qed

section \<open>Loading: lemmas\<close>

lemma load_servers_iff:
  "distinct (map fst acc) \<Longrightarrow>
     load_servers entry zs acc = Inr out \<longleftrightarrow>
     (\<exists>es. out = acc @ es \<and> list_all2 (\<lambda>(s, vip) (n, e). n = ss_name s \<and> entry s vip = Inr e) zs es \<and>
           distinct (map fst out))"
proof (induction entry zs acc rule: load_servers.induct)
  case (1 entry servers)
  then show ?case by auto
next
  case (2 entry s vip rest servers)
  show ?case
  proof (cases "entry s vip")
    case (Inl err)
    then show ?thesis by (auto simp: list_all2_Cons1)
  next
    case (Inr e)
    show ?thesis
    proof (cases "map_of servers (ss_name s)")
      case None
      then have "distinct (map fst (servers @ [(ss_name s, e)]))"
        using 2(2) by (auto simp: map_of_eq_None_iff)
      from 2(1)[OF _ this] None Inr show ?thesis
        by (auto simp: list_all2_Cons1)
    next
      case (Some e')
      then have "ss_name s \<in> fst ` set servers" by (auto dest: map_of_SomeD intro: rev_image_eqI)
      with Some Inr show ?thesis by (auto simp: list_all2_Cons1)
    qed
  qed
qed

lemma load_forwards_iff:
  "load_forwards servers fs = Inr es \<longleftrightarrow>
     list_all2 (\<lambda>f e. parse_socket_addr (fs_local f) = Some (fe_local e) \<and> fe_server e = fs_server f \<and>
                      fe_remote_port e = fs_remote_port f \<and> fs_server f \<in> fst ` set servers) fs es"
proof (induction fs arbitrary: es)
  case (Cons f fs)
  have "map_of servers (fs_server f) = None \<longleftrightarrow> fs_server f \<notin> fst ` set servers"
    by (rule map_of_eq_None_iff)
  then show ?case
    by (cases "parse_socket_addr (fs_local f)"; cases es)
       (auto simp: any_bind_Inr_iff option_context_def Cons)
qed auto

lemma load_server_Inr:
  "load_server C h f sec dpsk s vip = Inr e \<Longrightarrow>
     parse_socket_addr (ss_addr s) = Some (se_addr e) \<and> se_virtual_ip e = vip \<and>
     public_from_base64 C (ss_server_pubkey s) = Inr (tp_server_pubkey (se_params e)) \<and>
     resolve_psk C h s dpsk = Inr (tp_psk (se_params e)) \<and>
     tp_static_secret (se_params e) = sec \<and> tp_fwmark (se_params e) = None \<and>
     tp_knock (se_params e) = knock_settings_for f (se_addr e)"
  by (auto simp: load_server_def any_bind_Inr_iff Let_def split: option.splits)

lemma public_from_base64_length: "public_from_base64 C s = Inr k \<Longrightarrow> length (public_bytes k) = 32"
  by (cases "decode_key C s") (auto simp: public_from_base64_def dest: decode_key_length)

lemma resolve_default_psk_length:
  "argon2_lawful C \<Longrightarrow> resolve_default_psk C h k = Inr p \<Longrightarrow> length (psk_bytes p) = 32"
  by (auto simp: resolve_default_psk_def any_bind_Inr_iff psk_from_base64_length psk_from_passphrase_length
      split: if_splits)

lemma resolve_psk_length:
  "resolve_psk C h s dpsk = Inr p \<Longrightarrow> (\<And>d. dpsk = Some d \<Longrightarrow> length (psk_bytes d) = 32) \<Longrightarrow>
     length (psk_bytes p) = 32"
  by (auto simp: resolve_psk_def any_bind_Inr_iff psk_from_base64_length split: option.splits)

lemma client_load_Inr:
  assumes "client_load C T h path = Inr cl"
  obtains f sec dpsk vips where "read_file h T path = Inr f"
    "parse_tun (cf_tun f) = Inr (lc_tun cl)" "resolve_virtual_ips (lc_tun cl) (cf_server f) = Inr vips"
    "load_default_psk C h f = Inr dpsk"
    "load_servers (load_server C h f sec dpsk) (zip (cf_server f) vips) [] = Inr (lc_servers cl)"
    "load_forwards (lc_servers cl) (cf_forward f) = Inr (lc_forwards cl)"
  using assms by (auto simp: client_load_def any_bind_Inr_iff Let_def)

lemma load_servers_entries:
  assumes "load_servers entry (zip ss vips) [] = Inr out" "length vips = length ss"
  shows "length out = length ss" "distinct (map fst out)" "map fst out = map ss_name ss"
    and "\<And>i. i < length ss \<Longrightarrow> entry (ss ! i) (vips ! i) = Inr (snd (out ! i))"
proof -
  have all2: "list_all2 (\<lambda>(s, vip) (n, e). n = ss_name s \<and> entry s vip = Inr e) (zip ss vips) out"
    and d: "distinct (map fst out)"
    using assms(1) by (auto simp: load_servers_iff)
  show len: "length out = length ss" using list_all2_lengthD[OF all2] assms(2) by simp
  have at: "fst (out ! i) = ss_name (ss ! i) \<and> entry (ss ! i) (vips ! i) = Inr (snd (out ! i))"
    if "i < length ss" for i
    using list_all2_nthD2[OF all2, of i] that len assms(2) by (auto split: prod.splits)
  then show "map fst out = map ss_name ss" using len by (intro nth_equalityI) auto
  show "distinct (map fst out)" by (rule d)
  show "entry (ss ! i) (vips ! i) = Inr (snd (out ! i))" if "i < length ss" for i
    using at that by blast
qed

lemma load_default_psk_length:
  "argon2_lawful C \<Longrightarrow> load_default_psk C h f = Inr dpsk \<Longrightarrow> dpsk = Some p \<Longrightarrow> length (psk_bytes p) = 32"
  using resolve_default_psk_length
  by (auto simp: load_default_psk_def any_bind_Inr_iff split: option.splits)

lemma load_server_ok:
  assumes "load_server C h f sec dpsk s vip = Inr e" "argon2_lawful C" "load_default_psk C h f = Inr dpsk"
  shows "length (psk_bytes (tp_psk (se_params e))) = 32 \<and>
      length (public_bytes (tp_server_pubkey (se_params e))) = 32 \<and> tp_fwmark (se_params e) = None \<and>
      tp_knock (se_params e) = knock_settings_for f (se_addr e)"
proof -
  note l = load_server_Inr[OF assms(1)]
  have "length (public_bytes (tp_server_pubkey (se_params e))) = 32"
    using l public_from_base64_length by blast
  moreover have "length (psk_bytes (tp_psk (se_params e))) = 32"
    using l resolve_psk_length load_default_psk_length[OF assms(2,3)] by blast
  ultimately show ?thesis using l by simp
qed

lemma loaded_vips_distinct:
  assumes "client_load C T h path = Inr cl"
  shows "distinct (map (\<lambda>(n, e). se_virtual_ip e) (lc_servers cl))"
proof -
  obtain f sec dpsk vips where f: "parse_tun (cf_tun f) = Inr (lc_tun cl)"
    "resolve_virtual_ips (lc_tun cl) (cf_server f) = Inr vips"
    "load_servers (load_server C h f sec dpsk) (zip (cf_server f) vips) [] = Inr (lc_servers cl)"
    by (rule client_load_Inr[OF assms])
  note v = resolved_ips[OF f(1,2)] and es = load_servers_entries[OF f(3) resolved_ips(1)[OF f(1,2)]]
  have "map (\<lambda>(n, e). se_virtual_ip e) (lc_servers cl) = vips"
  proof (intro nth_equalityI)
    fix i assume "i < length (map (\<lambda>(n, e). se_virtual_ip e) (lc_servers cl))"
    then show "map (\<lambda>(n, e). se_virtual_ip e) (lc_servers cl) ! i = vips ! i"
      using load_server_Inr[OF es(4), of i] es(1) by (simp add: case_prod_beta)
  qed (simp add: es(1) v(1))
  with v(2) show ?thesis by simp
qed

end
