(* ===== verification/Client_Admin.thy ===== *)
theory Client_Admin
  imports Client_Config
begin

text \<open>
  What the editing commands of the client do to its configuration file (\<open>init\<close>, \<open>add-server\<close>,
  \<open>rm-server\<close> of \<open>hyperion-vpn-client/src/config.rs\<close>), and the \<open>-L\<close> and \<open>[[forward]]\<close>
  checks: lemmas and properties over the definitions of \<open>Client_Config\<close>.
\<close>

section \<open>Files on the host\<close>

lemma same_machine_dir: "same_machine h h' \<Longrightarrow> config_dir h' = config_dir h"
  by (simp add: same_machine_def config_dir_def cong: option.case_cong)

lemma write_str_iff:
  "write_str h path contents = (Some (), h') \<longleftrightarrow>
     openable h path \<and> storable h path \<and>
     h' = h\<lparr>files := (files h)(path \<mapsto> contents),
            modes := (modes h)(path \<mapsto>
              (if files h path = None then default_mode h
               else case modes h path of Some m \<Rightarrow> m | None \<Rightarrow> default_mode h))\<rparr>"
  by (auto simp: write_str_def open_truncate_def write_all_def split: option.splits)

lemma write_file_Inr:
  "write_file h T path f = (Inr (), h') \<Longrightarrow>
     \<exists>text. to_string_pretty T f = Some text \<and> files h' = (files h)(path \<mapsto> text) \<and>
            openable h path \<and> storable h path \<and> same_machine h h'"
  by (auto simp: write_file_def write_str_iff same_machine_def split: option.splits prod.splits)

lemma write_file_ok:
  "openable h path \<Longrightarrow> storable h path \<Longrightarrow> to_string_pretty T f = Some contents \<Longrightarrow>
     \<exists>h'. write_file h T path f = (Inr (), h')"
  using write_str_iff[of h path contents] by (fastforce simp: write_file_def split: prod.splits)

lemma read_file_written:
  "toml_lawful T \<Longrightarrow> write_file h T path f = (Inr (), h') \<Longrightarrow> read_file h' T path = Inr f"
  by (auto dest!: write_file_Inr simp: read_file_def read_to_string_def toml_lawful_def option_context_def)

lemma write_secret_Inr:
  "write_secret h path contents = (Inr (), h') \<Longrightarrow>
     files h' = (files h)(path \<mapsto> contents @ newline) \<and> same_machine h h'"
  by (auto simp: write_secret_def write_secret_states_def open_truncate_def write_all_def same_machine_def
      split: option.splits if_splits)

section \<open>Adding and removing servers\<close>

lemma explicit_used: "set (List.map_filter explicit_ip ss) = {ip. Some ip \<in> set (map explicit_ip ss)}"
  by (induction ss) (auto simp: map_filter_simps split: option.splits)

lemma explicit_ip_printed: "ss_virtual_ip s = Some (ipv4_to_string ip) \<Longrightarrow> explicit_ip s = Some ip"
  by (simp add: explicit_ip_def parse_ipv4_print)

lemma add_server_Inr:
  assumes "add_server C T h path name addr pk = (Inr vip, h')" "read_file h T path = Inr f"
  obtains s tun parsed where "parse_socket_addr (normalize_addr addr) = Some parsed"
    "\<exists>k. public_from_base64 C pk = Inr k"
    "s = \<lparr>ss_name = name, ss_addr = sock_to_string parsed, ss_server_pubkey = pk,
          ss_virtual_ip = Some (ipv4_to_string vip), ss_key_env = None, ss_key_value = None, ss_pool_size = None\<rparr>"
    "name \<notin> set (map ss_name (cf_server f))" "parse_tun (cf_tun f) = Inr tun"
    "assign_virtual_ip tun {ip. Some ip \<in> set (map explicit_ip (cf_server f))} = Some vip"
    "write_file h T path (f\<lparr>cf_server := cf_server f @ [s]\<rparr>) = (Inr (), h')"
  using assms
  by (auto simp: add_server_def any_bind_Inr_iff explicit_used Let_def split: sum.splits prod.splits if_splits)

lemma add_server_ok:
  assumes "parse_socket_addr (normalize_addr addr) = Some parsed" "public_from_base64 C pk = Inr k"
    and "read_file h T path = Inr f" "name \<notin> set (map ss_name (cf_server f))" "parse_tun (cf_tun f) = Inr tun"
    and "assign_virtual_ip tun {ip. Some ip \<in> set (map explicit_ip (cf_server f))} = Some vip"
    and "to_string_pretty T (f\<lparr>cf_server := cf_server f @
           [\<lparr>ss_name = name, ss_addr = sock_to_string parsed, ss_server_pubkey = pk,
             ss_virtual_ip = Some (ipv4_to_string vip), ss_key_env = None, ss_key_value = None, ss_pool_size = None\<rparr>]\<rparr>) = Some t"
    and "openable h path" "storable h path"
  shows "\<exists>h'. add_server C T h path name addr pk = (Inr vip, h') \<and>
    read_file h' T path = option_context ''parsing config TOML'' (from_str T t)"
proof -
  let ?s = "\<lparr>ss_name = name, ss_addr = sock_to_string parsed, ss_server_pubkey = pk,
             ss_virtual_ip = Some (ipv4_to_string vip), ss_key_env = None, ss_key_value = None, ss_pool_size = None\<rparr>"
  obtain h' where w: "write_file h T path (f\<lparr>cf_server := cf_server f @ [?s]\<rparr>) = (Inr (), h')"
    using write_file_ok[OF assms(8,9,7)] by blast
  have "\<not> (\<exists>s \<in> set (cf_server f). ss_name s = name)" using assms(4) by auto
  then have "add_server C T h path name addr pk = (Inr vip, h')"
    using w assms(1-6) by (simp add: add_server_def option_context_def with_context_def explicit_used del: set_map)
  moreover have "read_file h' T path = option_context ''parsing config TOML'' (from_str T t)"
    using write_file_Inr[OF w] assms(7) by (auto simp: read_file_def read_to_string_def option_context_def)
  ultimately show ?thesis by blast
qed

text \<open>
  C24: Adding a server and removing it again. After a successful \<open>add-server\<close> the file
  holds what it held and, last, one server of that new name, with the parsed address printed
  back and a fake IP of the subnet that no server had named; \<open>rm-server\<close> then succeeds and
  leaves exactly the old configuration.
\<close>

theorem add_then_remove_server:
  assumes "toml_lawful T" "read_file h T path = Inr f" "to_string_pretty T f \<noteq> None"
    and "add_server C T h path name addr pk = (Inr vip, h')"
  shows "\<exists>s tun. read_file h' T path = Inr (f\<lparr>cf_server := cf_server f @ [s]\<rparr>) \<and>
           ss_name s = name \<and> name \<notin> set (map ss_name (cf_server f)) \<and>
           parse_tun (cf_tun f) = Inr tun \<and> explicit_ip s = Some vip \<and> same_subnet tun vip \<and> vip \<noteq> tc_addr tun \<and>
           Some vip \<notin> set (map explicit_ip (cf_server f)) \<and>
           Some (ss_addr s) = map_option sock_to_string (parse_socket_addr (normalize_addr addr)) \<and>
           (\<exists>h''. remove_server T h' path name = (Inr (), h'') \<and> read_file h'' T path = Inr f)"
proof -
  obtain s tun parsed where a: "parse_socket_addr (normalize_addr addr) = Some parsed"
    "s = \<lparr>ss_name = name, ss_addr = sock_to_string parsed, ss_server_pubkey = pk,
          ss_virtual_ip = Some (ipv4_to_string vip), ss_key_env = None, ss_key_value = None, ss_pool_size = None\<rparr>"
    "name \<notin> set (map ss_name (cf_server f))" "parse_tun (cf_tun f) = Inr tun"
    "assign_virtual_ip tun {ip. Some ip \<in> set (map explicit_ip (cf_server f))} = Some vip"
    "write_file h T path (f\<lparr>cf_server := cf_server f @ [s]\<rparr>) = (Inr (), h')"
    by (rule add_server_Inr[OF assms(4,2)])
  have read: "read_file h' T path = Inr (f\<lparr>cf_server := cf_server f @ [s]\<rparr>)"
    by (rule read_file_written[OF assms(1) a(6)])
  have ok: "tun_ok tun" using parse_tun_ok a(4) by blast
  from assign_virtual_ip_Some[OF ok a(5)]
  have vip: "same_subnet tun vip" "vip \<noteq> tc_addr tun" "Some vip \<notin> set (map explicit_ip (cf_server f))"
    by (auto simp: virtual_pool_iff[OF ok])
  have "openable h' path" "storable h' path"
    using write_file_Inr[OF a(6)] by (auto simp: same_machine_def)
  moreover obtain t where "to_string_pretty T f = Some t" using assms(3) by auto
  ultimately obtain h'' where w: "write_file h' T path f = (Inr (), h'')"
    using write_file_ok[of h' path T f t] by blast
  have kept: "filter (\<lambda>s. ss_name s \<noteq> name) (cf_server f @ [s]) = cf_server f"
    using a(2,3) by (auto simp: filter_id_conv)
  have "remove_server T h' path name = (Inr (), h'')"
    using w by (simp add: remove_server_def read kept Let_def del: filter_append)
  moreover have "read_file h'' T path = Inr f" by (rule read_file_written[OF assms(1) w])
  ultimately show ?thesis
    using a vip read explicit_ip_printed[of s vip] by (intro exI[of _ s] exI[of _ tun]) simp
qed

text \<open>A codec for a table of files, on which the witnesses compute.\<close>

definition table_toml :: "('f \<times> string) list \<Rightarrow> 'f toml" where
  "table_toml tbl = \<lparr>from_str = map_of (map (\<lambda>(f, s). (s, f)) tbl), to_string_pretty = map_of tbl\<rparr>"

lemma table_toml_lawful: "distinct (map snd tbl) \<Longrightarrow> toml_lawful (table_toml tbl)"
proof -
  assume d: "distinct (map snd tbl)"
  have eq: "map fst (map (\<lambda>(f, s). (s, f)) tbl) = map snd tbl" by (induction tbl) auto
  have "map_of (map (\<lambda>(f, s). (s, f)) tbl) s = Some f" if "map_of tbl f = Some s" for f s
  proof (rule map_of_is_SomeI)
    show "distinct (map fst (map (\<lambda>(f, s). (s, f)) tbl))" unfolding eq by (rule d)
    show "(s, f) \<in> set (map (\<lambda>(f, s). (s, f)) tbl)" using map_of_SomeD[OF that] by force
  qed
  then show ?thesis by (simp add: toml_lawful_def table_toml_def)
qed

definition sample_key :: string where
  "sample_key = public_to_base64 toy_crypto (PublicKey (replicate 32 0))"

definition sample_file :: "server_section list \<Rightarrow> client_file" where
  "sample_file ss =
     \<lparr>cf_admin_static_key_file = ''k'', cf_pool_size = None,
      cf_key = Some \<lparr>ks_source = ''passphrase'', ks_env_var = None, ks_value = None,
                     ks_passphrase_env = Some ''P'', ks_salt = Some ''saltsalt''\<rparr>,
      cf_knock = \<lparr>ckn_enabled = True, ckn_port = None\<rparr>, cf_tun = tun_section_default,
      cf_server = ss, cf_forward = []\<rparr>"

definition sample_old :: server_section where
  "sample_old = (plain_server ''b'' None)\<lparr>ss_server_pubkey := sample_key\<rparr>"

definition sample_new :: server_section where
  "sample_new =
     \<lparr>ss_name = ''a'', ss_addr = ''203.0.113.11:8443'', ss_server_pubkey = sample_key,
      ss_virtual_ip = Some ''10.99.0.10'', ss_key_env = None, ss_key_value = None, ss_pool_size = None\<rparr>"

definition sample_toml :: "client_file toml" where
  "sample_toml = table_toml [(sample_file [sample_old], ''1''), (sample_file [sample_old, sample_new], ''2'')]"

definition client_host :: host where
  "client_host = sample_host\<lparr>files := [''c'' \<mapsto> ''1''], env_vars := [''P'' \<mapsto> ''pw'']\<rparr>"

lemma sample_toml_lawful: "toml_lawful sample_toml"
  by (simp add: sample_toml_def table_toml_lawful)

lemma sample_to_string:
  "to_string_pretty sample_toml (sample_file [sample_old]) = Some ''1''"
  "to_string_pretty sample_toml (sample_file [sample_old, sample_new]) = Some ''2''"
  by (simp_all add: sample_toml_def table_toml_def sample_file_def)

lemma sample_read: "read_file client_host sample_toml ''c'' = Inr (sample_file [sample_old])"
  by (simp add: read_file_def client_host_def read_to_string_def option_context_def sample_toml_def table_toml_def)

lemma sample_pubkey: "public_from_base64 toy_crypto sample_key = Inr (PublicKey (replicate 32 0))"
  unfolding sample_key_def by (rule public_reads_back[OF toy_b64_lawful]) (simp add: KEY_LEN_def)

lemma sample_print:
  "sock_to_string (SockV4 (Ipv4Addr 203 0 113 11) 8443) = ''203.0.113.11:8443''"
  "ipv4_to_string (Ipv4Addr 10 99 0 10) = ''10.99.0.10''"
  by (simp_all add: nat_to_dec_small nat_to_dec_step decimal_digits)

lemma sample_addr:
  "parse_socket_addr (normalize_addr ''203.0.113.11'') = Some (SockV4 (Ipv4Addr 203 0 113 11) 8443)"
proof -
  have "normalize_addr ''203.0.113.11'' = ''203.0.113.11:8443''"
    by (simp add: normalize_addr_def DEFAULT_LISTEN_PORT_def nat_to_dec_small nat_to_dec_step decimal_digits)
  then show ?thesis by (simp only: sample_print(1) [symmetric] parse_socket_addr_v4_print)
qed

lemma sample_add:
  "\<exists>h'. add_server toy_crypto sample_toml client_host ''c'' ''a'' ''203.0.113.11'' sample_key =
      (Inr (Ipv4Addr 10 99 0 10), h') \<and>
      read_file h' sample_toml ''c'' = Inr (sample_file [sample_old, sample_new])"
proof -
  have step: "sample_file [sample_old]\<lparr>cf_server := [sample_old, sample_new]\<rparr> = sample_file [sample_old, sample_new]"
    by (simp add: sample_file_def)
  have new: "\<lparr>ss_name = ''a'', ss_addr = sock_to_string (SockV4 (Ipv4Addr 203 0 113 11) 8443), ss_server_pubkey = sample_key,
      ss_virtual_ip = Some (ipv4_to_string (Ipv4Addr 10 99 0 10)), ss_key_env = None, ss_key_value = None,
      ss_pool_size = None\<rparr> = sample_new"
    unfolding sample_print by (simp add: sample_new_def)
  have f: "cf_server (sample_file ss) = ss" "cf_tun (sample_file ss) = tun_section_default" for ss
    by (simp_all add: sample_file_def)
  have old: "explicit_ip sample_old = None" "ss_name sample_old = ''b''"
    by (simp_all add: explicit_ip_def sample_old_def plain_server_def)
  have reread: "from_str sample_toml ''2'' = Some (sample_file [sample_old, sample_new])"
    by (simp add: sample_toml_def table_toml_def)
  have "\<exists>h'. add_server toy_crypto sample_toml client_host ''c'' ''a'' ''203.0.113.11'' sample_key =
      (Inr (Ipv4Addr 10 99 0 10), h') \<and>
      read_file h' sample_toml ''c'' = option_context ''parsing config TOML'' (from_str sample_toml ''2'')"
  proof (rule add_server_ok[OF sample_addr sample_pubkey sample_read])
    show "parse_tun (cf_tun (sample_file [sample_old])) = Inr sample_tun"
      by (simp add: f parse_default_tun sample_tun_def)
    show "to_string_pretty sample_toml (sample_file [sample_old]\<lparr>cf_server := cf_server (sample_file [sample_old]) @
       [\<lparr>ss_name = ''a'', ss_addr = sock_to_string (SockV4 (Ipv4Addr 203 0 113 11) 8443), ss_server_pubkey = sample_key,
      ss_virtual_ip = Some (ipv4_to_string (Ipv4Addr 10 99 0 10)), ss_key_env = None, ss_key_value = None,
      ss_pool_size = None\<rparr>]\<rparr>) = Some ''2''"
      unfolding new f by (simp add: step sample_to_string)
  qed (simp_all add: f old sample_assign client_host_def sample_host_def)
  then show ?thesis by (simp add: reread option_context_def)
qed

theorem add_then_remove_server_witness:
  "\<exists>h' h''. add_server toy_crypto sample_toml client_host ''c'' ''a'' ''203.0.113.11'' sample_key =
      (Inr (Ipv4Addr 10 99 0 10), h') \<and>
    remove_server sample_toml h' ''c'' ''a'' = (Inr (), h'') \<and>
    read_file h'' sample_toml ''c'' = Inr (sample_file [sample_old])"
proof -
  obtain h' where h': "add_server toy_crypto sample_toml client_host ''c'' ''a'' ''203.0.113.11'' sample_key =
      (Inr (Ipv4Addr 10 99 0 10), h')"
    using sample_add by blast
  have "to_string_pretty sample_toml (sample_file [sample_old]) \<noteq> None" by (simp add: sample_to_string)
  from add_then_remove_server[OF sample_toml_lawful sample_read this h'] h' show ?thesis by blast
qed

section \<open>Adding a server can move another one\<close>

lemma assign_all_first:
  "assign_all alloc used rs = Some out \<Longrightarrow> i < length rs \<Longrightarrow> rs ! i = None \<Longrightarrow> \<forall>j < i. rs ! j \<noteq> None \<Longrightarrow>
     alloc used = Some (out ! i)"
proof (induction rs arbitrary: out i)
  case (Cons r rs)
  show ?case
  proof (cases i)
    case 0
    with Cons.prems show ?thesis by (auto split: option.splits)
  next
    case (Suc k)
    with Cons.prems have "r \<noteq> None" by fastforce
    then obtain ip where "r = Some ip" by blast
    moreover have "\<forall>j < k. rs ! j \<noteq> None" using Cons.prems Suc by fastforce
    ultimately show ?thesis using Cons Suc by auto
  qed
qed simp

text \<open>
  C38: The fake IP of an existing server can be taken by a new one. When a configuration has a
  server without an explicit address, the first such server's fake IP is exactly the one that
  \<open>add-server\<close> gives to the new server, and from then on the old server resolves to another
  address.
\<close>

theorem add_server_takes_over_fake_ip:
  assumes "toml_lawful T" "read_file h T path = Inr f"
    and "i < length (cf_server f)" "ss_virtual_ip (cf_server f ! i) = None"
    and "\<forall>j < i. ss_virtual_ip (cf_server f ! j) \<noteq> None"
    and "client_summarize T h path = Inr sm1"
    and "add_server C T h path name addr pk = (Inr vip, h')"
    and "client_summarize T h' path = Inr sm2"
  shows "sm_name (cs_servers sm1 ! i) = sm_name (cs_servers sm2 ! i) \<and>
         vip = sm_virtual_ip (cs_servers sm1 ! i) \<and>
         sm_virtual_ip (cs_servers sm2 ! i) \<noteq> sm_virtual_ip (cs_servers sm1 ! i)"
proof -
  obtain s tun parsed where a:
    "s = \<lparr>ss_name = name, ss_addr = sock_to_string parsed, ss_server_pubkey = pk,
          ss_virtual_ip = Some (ipv4_to_string vip), ss_key_env = None, ss_key_value = None, ss_pool_size = None\<rparr>"
    "parse_tun (cf_tun f) = Inr tun"
    "assign_virtual_ip tun {ip. Some ip \<in> set (map explicit_ip (cf_server f))} = Some vip"
    "write_file h T path (f\<lparr>cf_server := cf_server f @ [s]\<rparr>) = (Inr (), h')"
    by (rule add_server_Inr[OF assms(7,2)])
  note read = read_file_written[OF assms(1) a(4)]
  obtain vips where v: "resolve_virtual_ips tun (cf_server f) = Inr vips"
    "cs_servers sm1 = map (\<lambda>(s, vip). \<lparr>sm_name = ss_name s, sm_addr = ss_addr s, sm_virtual_ip = vip\<rparr>)
       (zip (cf_server f) vips)"
    using assms(6) assms(2) a(2) by (auto simp: client_summarize_def any_bind_Inr_iff Let_def)
  obtain vips' where v': "resolve_virtual_ips tun (cf_server f @ [s]) = Inr vips'"
    "cs_servers sm2 = map (\<lambda>(s, vip). \<lparr>sm_name = ss_name s, sm_addr = ss_addr s, sm_virtual_ip = vip\<rparr>)
       (zip (cf_server f @ [s]) vips')"
    using assms(8) read a(2) by (auto simp: client_summarize_def any_bind_Inr_iff Let_def)
  have ok: "tun_ok tun" using parse_tun_ok a(2) by blast
  have len: "length vips = length (cf_server f)" "length vips' = Suc (length (cf_server f))"
    using resolved_ips(1)[OF a(2) v(1)] resolved_ips(1)[OF a(2) v'(1)] by simp_all
  have "\<forall>j < i. map explicit_ip (cf_server f) ! j \<noteq> None"
    using resolve_Inr(3)[OF v(1)] assms(3,5) by auto
  then have "vip = vips ! i"
    using assign_all_first[OF resolve_Inr(1)[OF v(1)], of i] a(3) assms(3,4)
    by (simp add: explicit_ip_def)
  moreover have "map explicit_ip (cf_server f @ [s]) ! i = None"
    using assms(3,4) by (simp add: nth_append explicit_ip_def)
  then have "vips' ! i \<notin> {ip. Some ip \<in> set (map explicit_ip (cf_server f @ [s]))}"
    using virtual_ips.assign_all_fresh[OF ok resolve_Inr(1)[OF v'(1)], of i] assms(3) by simp
  then have "vips' ! i \<noteq> vip" using explicit_ip_printed[of s vip] a(1) by auto
  ultimately show ?thesis using v(2) v'(2) len assms(3) by (simp add: nth_append)
qed

theorem add_server_takes_over_fake_ip_witness:
  "\<exists>h' sm1 sm2. client_summarize sample_toml client_host ''c'' = Inr sm1 \<and>
     add_server toy_crypto sample_toml client_host ''c'' ''a'' ''203.0.113.11'' sample_key =
       (Inr (Ipv4Addr 10 99 0 10), h') \<and>
     client_summarize sample_toml h' ''c'' = Inr sm2 \<and>
     sm_virtual_ip (cs_servers sm2 ! 0) \<noteq> sm_virtual_ip (cs_servers sm1 ! 0)"
proof -
  obtain h' where h': "add_server toy_crypto sample_toml client_host ''c'' ''a'' ''203.0.113.11'' sample_key =
      (Inr (Ipv4Addr 10 99 0 10), h')"
    "read_file h' sample_toml ''c'' = Inr (sample_file [sample_old, sample_new])"
    using sample_add by blast
  have tun: "parse_tun tun_section_default = Inr sample_tun"
    by (simp add: parse_default_tun sample_tun_def)
  have f: "cf_server (sample_file ss) = ss" "cf_tun (sample_file ss) = tun_section_default" for ss
    by (simp_all add: sample_file_def)
  have e: "ss_virtual_ip sample_old = None" "ss_virtual_ip sample_new = Some ''10.99.0.10''"
    "parse_ipv4 ''10.99.0.10'' = Some (Ipv4Addr 10 99 0 10)"
    by (simp add: sample_old_def plain_server_def, simp add: sample_new_def, code_simp)
  have r: "resolve_virtual_ips sample_tun [sample_old] = Inr [Ipv4Addr 10 99 0 10]"
    "resolve_virtual_ips sample_tun [sample_old, sample_new] = Inr [Ipv4Addr 10 99 0 11, Ipv4Addr 10 99 0 10]"
    by (simp_all add: resolve_virtual_ips_def e explicit_ip_def sample_assign option_context_def)
  from h'(2) obtain sm1 sm2 where s: "client_summarize sample_toml client_host ''c'' = Inr sm1"
    "client_summarize sample_toml h' ''c'' = Inr sm2"
    by (simp add: client_summarize_def sample_read f tun r Let_def)
  have "sm_virtual_ip (cs_servers sm2 ! 0) \<noteq> sm_virtual_ip (cs_servers sm1 ! 0)"
    using add_server_takes_over_fake_ip[OF sample_toml_lawful sample_read _ _ _ s(1) h'(1) s(2), of 0]
    by (simp add: f e)
  with s h'(1) show ?thesis by blast
qed

section \<open>Forwards\<close>

lemma length_split_on: "length (split_on sep s) = Suc (length (filter (\<lambda>c. c = sep) s))"
  by (induction s) (auto split: list.splits)

lemma dec_no_colon: "CHR '':'' \<notin> set (nat_to_dec n)"
proof
  assume "CHR '':'' \<in> set (nat_to_dec n)"
  then have "is_digit 10 CHR '':''" using nat_to_radix_digits[of 10 n] by simp
  then show False by (simp add: is_digit_def to_digit_def)
qed

lemma length_split_three:
  "length (split_on CHR '':'' (nat_to_dec l @ '':'' @ s @ '':'' @ nat_to_dec r)) = 3 \<longleftrightarrow> CHR '':'' \<notin> set s"
  by (auto simp: length_split_on filter_empty_conv dec_no_colon)

lemma parse_forward_spec_ports:
  assumes "CHR '':'' \<notin> set name"
  shows "parse_forward_spec (nat_to_dec (unat lp) @ '':'' @ name @ '':'' @ nat_to_dec (unat rp)) =
     Inr \<lparr>fe_local = SockV4 (Ipv4Addr 127 0 0 1) lp, fe_server = name, fe_remote_port = rp\<rparr>"
proof -
  have "split_on CHR '':'' (nat_to_dec (unat lp) @ '':'' @ name @ '':'' @ nat_to_dec (unat rp)) =
      [nat_to_dec (unat lp), name, nat_to_dec (unat rp)]"
    using assms by (simp add: split_on_append_sep split_on_no_sep dec_no_colon)
  then show ?thesis by (simp add: parse_forward_spec_def parse_u16_dec option_context_def)
qed

text \<open>
  The \<open>-L\<close> syntax. A local port, a server name and a remote port, printed with colons
  between them, are read back as exactly that forward on the loopback address, except that a
  name with a colon in it is refused.
\<close>

theorem forward_spec_roundtrip:
  "parse_forward_spec (nat_to_dec (unat lp) @ '':'' @ name @ '':'' @ nat_to_dec (unat rp)) =
     (if CHR '':'' \<in> set name then Inl ''-L expects local_port:server:remote_port''
      else Inr \<lparr>fe_local = SockV4 (Ipv4Addr 127 0 0 1) lp, fe_server = name, fe_remote_port = rp\<rparr>)"
proof (cases "CHR '':'' \<in> set name")
  case True
  let ?ps = "split_on CHR '':'' (nat_to_dec (unat lp) @ '':'' @ name @ '':'' @ nat_to_dec (unat rp))"
  have "length ?ps \<noteq> 3" using True length_split_three by blast
  then have "parse_forward_spec (nat_to_dec (unat lp) @ '':'' @ name @ '':'' @ nat_to_dec (unat rp)) =
      Inl ''-L expects local_port:server:remote_port''"
    unfolding parse_forward_spec_def by (auto split: list.splits)
  with True show ?thesis by simp
next
  case False
  show ?thesis unfolding if_not_P[OF False] by (rule parse_forward_spec_ports[OF False])
qed

lemma check_duplicate_from_iff:
  "check_duplicate_from fs locals = Inr () \<longleftrightarrow>
     distinct (map fe_local fs) \<and> fe_local ` set fs \<inter> locals = {}"
  by (induction fs arbitrary: locals) auto

text \<open>
  No two forwards listen on one address. The check passes exactly when the local
  addresses are pairwise different.
\<close>

theorem duplicate_locals_refused:
  "check_duplicate_locals forwards = Inr () \<longleftrightarrow> distinct (map fe_local forwards)"
  by (simp add: check_duplicate_locals_def check_duplicate_from_iff)

section \<open>Initialisation\<close>

lemma passphrase_psk:
  assumes "env_vars h ''HYPERION_PASSPHRASE'' = Some pw" "MIN_SALT_LEN \<le> length salt"
    and "argon2 C (str_bytes pw) (str_bytes salt) PSK_LEN = Some key"
  shows "any_bind (read_passphrase h (Some ''HYPERION_PASSPHRASE'')) (\<lambda>passphrase.
           with_context msg (psk_from_passphrase C (str_bytes passphrase) (str_bytes salt))) = Inr (Psk key)"
  using assms by (simp add: read_passphrase_def psk_from_passphrase_def with_context_def str_bytes_def)

lemma expand_home_machine: "same_machine h h' \<Longrightarrow> expand_home h' p = expand_home h p"
  by (simp add: expand_home_def home_dir_def same_machine_def cong: option.case_cong)

lemma client_init_Inr:
  assumes "client_init_config C T h force random1 random2 = (Inr (path, pub, salt), h')"
  obtains h1 f where "path = client_config_file h"
    "write_secret h (admin_key_file h) (secret_to_base64 C (SecretKey random1)) = (Inr (), h1)"
    "f = \<lparr>cf_admin_static_key_file = admin_key_file h, cf_pool_size = None,
          cf_key = Some \<lparr>ks_source = ''passphrase'', ks_env_var = None, ks_value = None,
                         ks_passphrase_env = Some ''HYPERION_PASSPHRASE'', ks_salt = Some salt\<rparr>,
          cf_knock = \<lparr>ckn_enabled = True, ckn_port = None\<rparr>, cf_tun = tun_section_default,
          cf_server = [], cf_forward = []\<rparr>"
    "pub = public_to_base64 C (PublicKey (x25519_pubkey C random1))"
    "write_file h1 T path f = (Inr (), h')"
    "force \<or> files h path = None"
  using assms
  by (auto simp: client_init_config_def Let_def keypair_generate_def split: sum.splits prod.splits if_splits)

lemma path_join_file:
  "q \<noteq> [] \<Longrightarrow> hd q \<noteq> CHR ''/'' \<Longrightarrow> \<exists>sep. path_join p q = p @ sep @ q \<and> sep \<in> {'''', ''/''}"
  by (auto simp: path_join_def)

lemma path_join_inject: "hd q \<noteq> CHR ''/'' \<Longrightarrow> hd q' \<noteq> CHR ''/'' \<Longrightarrow> path_join p q = path_join p q' \<longleftrightarrow> q = q'"
  by (auto simp: path_join_def)

text \<open>The key survives the writing of the configuration: the two files have different names.\<close>

lemma client_init_reads_back:
  assumes "client_init_config C T h force random1 random2 = (Inr (path, pub, salt), h')"
    and "toml_lawful T" "b64_lawful C" "length random1 = KEY_LEN"
  shows "\<exists>f. read_file h' T path = Inr f \<and> cf_admin_static_key_file f = admin_key_file h \<and>
          cf_server f = [] \<and> cf_forward f = [] \<and> cf_tun f = tun_section_default \<and>
          cf_knock f = \<lparr>ckn_enabled = True, ckn_port = None\<rparr> \<and> cf_pool_size f = None \<and>
          cf_key f = Some \<lparr>ks_source = ''passphrase'', ks_env_var = None, ks_value = None,
                         ks_passphrase_env = Some ''HYPERION_PASSPHRASE'', ks_salt = Some salt\<rparr> \<and>
          (\<exists>b64. files h' (admin_key_file h) = Some b64 \<and> secret_from_base64 C (trim b64) = Inr (SecretKey random1)) \<and>
          pub = public_to_base64 C (secret_public_key C (SecretKey random1)) \<and> same_machine h h'"
proof -
  obtain h1 f where i: "path = client_config_file h"
    "write_secret h (admin_key_file h) (secret_to_base64 C (SecretKey random1)) = (Inr (), h1)"
    "f = \<lparr>cf_admin_static_key_file = admin_key_file h, cf_pool_size = None,
          cf_key = Some \<lparr>ks_source = ''passphrase'', ks_env_var = None, ks_value = None,
                         ks_passphrase_env = Some ''HYPERION_PASSPHRASE'', ks_salt = Some salt\<rparr>,
          cf_knock = \<lparr>ckn_enabled = True, ckn_port = None\<rparr>, cf_tun = tun_section_default,
          cf_server = [], cf_forward = []\<rparr>"
    "pub = public_to_base64 C (PublicKey (x25519_pubkey C random1))"
    "write_file h1 T path f = (Inr (), h')"
    by (rule client_init_Inr[OF assms(1)])
  note s = write_secret_Inr[OF i(2)]
  obtain contents where c: "files h' = (files h1)(path \<mapsto> contents)" "same_machine h1 h'"
    using write_file_Inr[OF i(5)] by blast
  have "admin_key_file h \<noteq> path"
    using path_join_inject[of "''admin.key''" "''hyperion.toml''" "config_dir h"]
    by (simp add: i(1) admin_key_file_def client_config_file_def)
  then have "files h' (admin_key_file h) = Some (secret_to_base64 C (SecretKey random1) @ newline)"
    using c(1) s by simp
  moreover have "same_machine h h'" using s c(2) same_machine_trans by blast
  ultimately show ?thesis
    using i(3,4) read_file_written[OF assms(2) i(5)] secret_reads_back[OF assms(3,4)]
    by (intro exI[of _ f]) (simp add: secret_public_key_def)
qed

end
