(* ===== verification/Server_Relay.thy ===== *)
theory Server_Relay
  imports Noise_Channel Wire_Protocol Net_Addr Mux_Driver
begin

text \<open>
  The server side of a tunnel, \<open>server.rs\<close>: the egress policy, the handler of one
  multiplexed stream, and the connection task (handshake under a deadline, then one handler
  per inbound stream). What the handlers do to the network beside their own stream is a
  list of events: the connection attempts they make and the relays they start. Which local
  ports answer is a parameter.
\<close>

section \<open>Egress\<close>

record egress =
  ports :: "u16 list"

definition deny_all :: egress where
  "deny_all = \<lparr>ports = []\<rparr>"

definition egress_new :: "u16 list \<Rightarrow> egress" where
  "egress_new ps = \<lparr>ports = remdups ps\<rparr>"

definition permits :: "egress \<Rightarrow> u16 \<Rightarrow> bool" where
  "permits e p \<longleftrightarrow> p \<in> set (ports e)"

lemma permits_new [simp]: "permits (egress_new ps) p \<longleftrightarrow> p \<in> set ps"
  by (simp add: permits_def egress_new_def)

lemma permits_deny_all [simp]: "\<not> permits deny_all p"
  by (simp add: permits_def deny_all_def)

record server_config =
  static_secret :: secret_key
  server_psk :: psk
  allowed_admins :: "public_key list"
  config_egress :: egress
  handshake_timeout :: nat

section \<open>One stream\<close>

datatype net_event = Dial socket_addr | Relay socket_addr

definition loopback :: "u16 \<Rightarrow> socket_addr" where
  "loopback p = SockV4 (Ipv4Addr 127 0 0 1) p"

text \<open>The events come in the order they happen; \<open>answers\<close> says which addresses accept.\<close>

definition handle_stream ::
    "egress \<Rightarrow> (socket_addr \<Rightarrow> bool) \<Rightarrow> conn \<Rightarrow> unit outcome \<times> conn \<times> net_event list" where
  "handle_stream e answers c =
     (case read_connect_request c of
        (Failed err, c1) \<Rightarrow> (Failed err, c1, [])
      | (Stalled, c1) \<Rightarrow> (Stalled, c1, [])
      | (Done req, c1) \<Rightarrow>
          if \<not> permits e (port req)
          then (case write_connect_response RespDenied c1 of (r, c2) \<Rightarrow> (r, c2, []))
          else if answers (loopback (port req))
          then (case write_connect_response RespOk c1 of
                  (Done _, c2) \<Rightarrow> (Done (), c2, [Dial (loopback (port req)), Relay (loopback (port req))])
                | (r, c2) \<Rightarrow> (r, c2, [Dial (loopback (port req))]))
          else (case write_connect_response RespUnreachable c1 of
                  (r, c2) \<Rightarrow> (r, c2, [Dial (loopback (port req))])))"

definition stream_response :: "egress \<Rightarrow> (socket_addr \<Rightarrow> bool) \<Rightarrow> u16 \<Rightarrow> connect_response" where
  "stream_response e answers p =
     (if \<not> permits e p then RespDenied else if answers (loopback p) then RespOk else RespUnreachable)"

definition stream_events :: "egress \<Rightarrow> (socket_addr \<Rightarrow> bool) \<Rightarrow> u16 \<Rightarrow> net_event list" where
  "stream_events e answers p =
     (case stream_response e answers p of
        RespDenied \<Rightarrow> []
      | RespOk \<Rightarrow> [Dial (loopback p), Relay (loopback p)]
      | RespUnreachable \<Rightarrow> [Dial (loopback p)])"

lemma handle_stream_request:
  assumes "incoming c = be16 p @ rest" "sends_ok c"
  shows "handle_stream e answers c =
    (Done (), c\<lparr>incoming := rest, sent := sent c @ [code (stream_response e answers p)]\<rparr>, stream_events e answers p)"
proof -
  have "read_connect_request c = (Done \<lparr>port = p\<rparr>, c\<lparr>incoming := rest\<rparr>)"
    using assms(1) by (intro request.get_put) simp_all
  with assms(2) show ?thesis
    by (simp add: handle_stream_def response.wr_ok stream_response_def stream_events_def)
qed

lemma handle_stream_events:
  assumes "handle_stream e answers c = (r, c', evs)" "ev \<in> set evs"
  obtains p rest where "incoming c = be16 p @ rest" "permits e p" "ev = Dial (loopback p) \<or> ev = Relay (loopback p)"
    "evs = stream_events e answers p \<or> evs = [Dial (loopback p)]"
proof -
  from assms obtain req c1 where get: "read_connect_request c = (Done req, c1)"
    by (auto simp: handle_stream_def split: prod.splits outcome.splits)
  with request.get_sound[OF get] have inc: "incoming c = be16 (port req) @ incoming c1" by simp
  show thesis
    using assms get that[OF inc]
    by (auto simp: handle_stream_def stream_events_def stream_response_def
        split: prod.splits outcome.splits if_splits)
qed

section \<open>One connection\<close>

text \<open>
  The result of the handshake under its deadline: \<open>late\<close> says that the deadline passed before
  the peer's bytes were in. After it, the multiplexer over the encrypted stream hands over
  inbound streams until the tunnel ends (the events \<open>es\<close>, the names turned into byte streams
  by \<open>stream_of\<close>); the accept loop has taken the first \<open>n\<close> of them by then, and each gets a
  handler of its own, started in that order, whose errors are only logged.
\<close>

definition timeout_accept ::
    "bool \<Rightarrow> ('st, 'c) noise_lib \<Rightarrow> server_config \<Rightarrow> ('c noise_stream \<times> public_key) io" where
  "timeout_accept late L cfg c =
     (case accept L \<lparr>sh_static_secret = static_secret cfg, sh_psk = server_psk cfg,
                     sh_allowed_admins = allowed_admins cfg\<rparr> c of
        (Stalled, c') \<Rightarrow> (Failed Handshake, c')
      | (r, c') \<Rightarrow> (if late then Failed Handshake else r, c'))"

definition serve_connection ::
    "bool \<Rightarrow> ('st, 'c) noise_lib \<Rightarrow> server_config \<Rightarrow> mux_event list \<Rightarrow> nat \<Rightarrow>
     ('c noise_stream \<Rightarrow> nat \<Rightarrow> conn) \<Rightarrow> (socket_addr \<Rightarrow> bool) \<Rightarrow> conn \<Rightarrow> unit outcome \<times> conn \<times> net_event list list" where
  "serve_connection late L cfg es n stream_of answers c =
     (case timeout_accept late L cfg c of
        (Failed e, c') \<Rightarrow> (Failed e, c', [])
      | (Stalled, c') \<Rightarrow> (Stalled, c', [])
      | (Done (noise, admin), c') \<Rightarrow>
          (Done (), c',
           map (\<lambda>s. snd (snd (handle_stream (config_egress cfg) answers (stream_of noise s))))
             (take n (delivered (fst (mux_run es mux_server))))))"

lemma timeout_accept_no_stall: "fst (timeout_accept late L cfg c) \<noteq> Stalled"
  by (auto simp: timeout_accept_def split: prod.splits outcome.splits)

section \<open>Properties\<close>

text \<open>
  A stream that carries a complete request on a working connection is answered with
  exactly one byte: denied when the port is not on the egress list, OK when the local service
  answers, unreachable otherwise; the bytes after the request stay for the relay, and the
  relay is started after the OK and to that port only.
\<close>

theorem stream_answered:
  assumes "incoming c = be16 p @ rest" "sends_ok c"
  shows "handle_stream e answers c =
    (Done (), c\<lparr>incoming := rest, sent := sent c @ [code (stream_response e answers p)]\<rparr>,
     stream_events e answers p)"
  using assms by (rule handle_stream_request)

theorem stream_answered_witness:
  "handle_stream (egress_new [22, 5432]) (\<lambda>_. True)
     \<lparr>incoming = [0, 22, 104, 105], incoming_end = EndOpen, sent = [], send_limit = None, flush_fails = None\<rparr> =
   (Done (), \<lparr>incoming = [104, 105], incoming_end = EndOpen, sent = [0], send_limit = None, flush_fails = None\<rparr>,
    [Dial (loopback 22), Relay (loopback 22)])"
proof -
  let ?c = "\<lparr>incoming = [0, 22, 104, 105], incoming_end = EndOpen, sent = [], send_limit = None, flush_fails = None\<rparr>"
  have "incoming ?c = be16 22 @ [104, 105]" by code_simp
  from stream_answered[OF this, of "egress_new [22, 5432]" "\<lambda>_. True"] show ?thesis
    by (simp add: sends_ok_def stream_response_def stream_events_def)
qed

text \<open>
  C9: whatever bytes arrive on a connection and on the streams inside it, the server connects
  nowhere but to 127.0.0.1 and there only to ports of the egress list, and it does so only
  after a handshake within the deadline with a peer whose static key is on the allow-list.
\<close>

theorem server_reaches_only_permitted:
  assumes "serve_connection late L cfg es n stream_of answers c = (r, c', evs)"
    and "ev \<in> set (concat evs)"
  shows "(\<exists>p. permits (config_egress cfg) p \<and> (ev = Dial (loopback p) \<or> ev = Relay (loopback p))) \<and>
    \<not> late \<and> (\<exists>msg1 c1 st x rs. read_handshake_msg c = (Done msg1, c1) \<and>
      hs_read L (hs_init L False prologue (secret_bytes (static_secret cfg)) None (psk_bytes (server_psk cfg))) msg1
        = Some (st, x) \<and> hs_get_rs L st = Some rs \<and> PublicKey rs \<in> set (allowed_admins cfg))"
proof -
  let ?sh = "\<lparr>sh_static_secret = static_secret cfg, sh_psk = server_psk cfg, sh_allowed_admins = allowed_admins cfg\<rparr>"
  from assms obtain noise admin where t: "timeout_accept late L cfg c = (Done (noise, admin), c')"
    and evs: "evs = map (\<lambda>s. snd (snd (handle_stream (config_egress cfg) answers (stream_of noise s))))
      (take n (delivered (fst (mux_run es mux_server))))"
    by (auto simp: serve_connection_def split: prod.splits outcome.splits)
  from t have "\<not> late" and acc: "accept L ?sh c = (Done (noise, admin), c')"
    by (auto simp: timeout_accept_def split: prod.splits outcome.splits if_splits)
  from evs assms(2) obtain s where s: "ev \<in> set (snd (snd (handle_stream (config_egress cfg) answers (stream_of noise s))))" by auto
  obtain r2 c2 evs2 where h: "handle_stream (config_egress cfg) answers (stream_of noise s) = (r2, c2, evs2)" by (metis prod_cases3)
  from s h have "ev \<in> set evs2" by simp
  from handle_stream_events[OF h this] have
    "\<exists>p. permits (config_egress cfg) p \<and> (ev = Dial (loopback p) \<or> ev = Relay (loopback p))" by metis
  moreover from acc have "\<exists>msg1 c1 st x rs. read_handshake_msg c = (Done msg1, c1) \<and>
      hs_read L (hs_init L False prologue (secret_bytes (static_secret cfg)) None (psk_bytes (server_psk cfg))) msg1
        = Some (st, x) \<and> hs_get_rs L st = Some rs \<and> PublicKey rs \<in> set (allowed_admins cfg)"
  proof (cases rule: accept_cases)
    case silent
    then show ?thesis by blast
  next
    case (known msg1 c1 st x rs)
    then show ?thesis by auto
  qed
  ultimately show ?thesis using \<open>\<not> late\<close> by blast
qed

definition sample_config :: server_config where
  "sample_config = \<lparr>static_secret = SecretKey (replicate 32 2), server_psk = Psk (replicate 32 3),
     allowed_admins = [PublicKey (replicate 32 1)], config_egress = egress_new [22], handshake_timeout = 10\<rparr>"

theorem server_reaches_only_permitted_witness:
  "\<exists>p. permits (egress_new [22]) p \<and> Dial (loopback 22) = Dial (loopback p)"
proof -
  let ?s = "idle_conn [0, 22]"
  have run: "serve_connection False toy_noise sample_config [Wake [] [InStream 4]] 5 (\<lambda>_ _. ?s) (\<lambda>_. False)
      (idle_conn (handshake_frame sample_hello)) =
      (Done (), idle_conn []\<lparr>sent := [0, 1, 9]\<rparr>, [[Dial (loopback 22)]])" by code_simp
  have "Dial (loopback 22) \<in> set (concat [[Dial (loopback 22)]])" by simp
  from server_reaches_only_permitted[OF run this] show ?thesis by (auto simp: sample_config_def)
qed

end
