(* ===== verification/Server_Config.thy ===== *)
theory Server_Config
  imports Client_Admin Server_Relay
begin

text \<open>
  The server's configuration, \<open>hyperion-vpn-server/src/config.rs\<close> and \<open>paths.rs\<close>: the sections
  of the file with their defaults, \<open>summarize\<close>, \<open>init\<close> and loading. The TOML codec, the files
  and the helpers are those of \<open>Client_Config\<close> and \<open>Cli_Common\<close>.
\<close>

section \<open>The file and the loaded configuration\<close>

record server_knock_section =
  skn_enabled :: bool
  skn_knock_port :: "u16 option"
  skn_window_secs :: "u64 option"

definition server_knock_default :: server_knock_section where
  "server_knock_default = \<lparr>skn_enabled = False, skn_knock_port = None, skn_window_secs = None\<rparr>"

record firewall_section =
  fws_table :: string
  fws_set :: string
  fws_ttl_secs :: u64

definition default_table :: string where
  "default_table = ''hyperion''"

definition default_set :: string where
  "default_set = ''knock_allow''"

definition default_ttl :: u64 where
  "default_ttl = 60"

definition firewall_section_default :: firewall_section where
  "firewall_section_default = \<lparr>fws_table = default_table, fws_set = default_set, fws_ttl_secs = default_ttl\<rparr>"

record key_source =
  sk_source :: string
  sk_env_var :: "string option"
  sk_file :: "string option"
  sk_value :: "string option"
  sk_passphrase_env :: "string option"
  sk_salt :: "string option"

record identity =
  id_static_key_file :: string
  id_admin_pubkeys :: "string list"

record egress_section =
  eg_allow :: "u16 list"

definition egress_section_default :: egress_section where
  "egress_section_default = \<lparr>eg_allow = []\<rparr>"

record limits =
  lim_handshake_timeout_ms :: u64

definition default_handshake_ms :: u64 where
  "default_handshake_ms = 3000"

definition limits_default :: limits where
  "limits_default = \<lparr>lim_handshake_timeout_ms = default_handshake_ms\<rparr>"

record server_file =
  sf_listen :: string
  sf_key :: key_source
  sf_identity :: identity
  sf_egress :: egress_section
  sf_limits :: limits
  sf_knock :: server_knock_section
  sf_firewall :: firewall_section

record knock_runtime =
  kr_knock_port :: u16
  kr_tunnel_port :: u16
  kr_psk :: psk
  kr_server_pub :: public_key
  kr_window_secs :: u64
  kr_table :: string
  kr_set :: string
  kr_ttl_secs :: u64

record loaded_config =
  ld_listen :: socket_addr
  ld_server :: server_config
  ld_knock :: "knock_runtime option"

record server_side_summary =
  ssm_listen :: string
  ssm_knock_enabled :: bool
  ssm_egress :: "u16 list"
  ssm_admin_count :: nat
  ssm_key_is_passphrase :: bool
  ssm_passphrase_env :: "string option"

section \<open>Paths, summary\<close>

definition server_config_file :: "host \<Rightarrow> string" where
  "server_config_file h = path_join (config_dir h) ''server.toml''"

definition server_key_file :: "host \<Rightarrow> string" where
  "server_key_file h = path_join (config_dir h) ''server.key''"

definition server_pid_file :: "host \<Rightarrow> string" where
  "server_pid_file h = path_join (config_dir h) ''hyperion-server.pid''"

definition server_log_file :: "host \<Rightarrow> string" where
  "server_log_file h = path_join (config_dir h) ''hyperion-server.log''"

definition server_default_config_path :: "host \<Rightarrow> string" where
  "server_default_config_path h = server_config_file h"

definition server_read_file :: "host \<Rightarrow> server_file toml \<Rightarrow> string \<Rightarrow> server_file any" where
  "server_read_file h T path =
     any_bind (option_context (''reading config '' @ path) (read_to_string h path))
       (\<lambda>contents. option_context ''parsing config TOML'' (from_str T contents))"

definition server_summarize :: "server_file toml \<Rightarrow> host \<Rightarrow> string \<Rightarrow> server_side_summary any" where
  "server_summarize T h path =
     any_bind (server_read_file h T path) (\<lambda>f.
     let key = (if sk_source (sf_key f) = ''passphrase'' then (True, sk_passphrase_env (sf_key f)) else (False, None)) in
     Inr \<lparr>ssm_listen = sf_listen f, ssm_knock_enabled = skn_enabled (sf_knock f),
          ssm_egress = eg_allow (sf_egress f), ssm_admin_count = length (id_admin_pubkeys (sf_identity f)),
          ssm_key_is_passphrase = fst key, ssm_passphrase_env = snd key\<rparr>)"

section \<open>Initialisation\<close>

definition server_init_config ::
    "crypto \<Rightarrow> server_file toml \<Rightarrow> host \<Rightarrow> string \<Rightarrow> string \<Rightarrow> u16 list \<Rightarrow> string \<Rightarrow> bool \<Rightarrow> bytes \<Rightarrow>
     (string \<times> string) any \<times> host" where
  "server_init_config C T h salt admin_key allow_ports listen force random =
     (if ensure_config_dir h = None then (Inl ''creating config dir'', h) else
      let cfg_path = server_config_file h; key_path = server_key_file h in
      if files h cfg_path \<noteq> None \<and> \<not> force
      then (Inl (''config already exists at '' @ cfg_path @ '' (use --force to overwrite)''), h)
      else
        (case option_context (''invalid listen address '' @ listen) (parse_socket_addr listen) of
           Inl e \<Rightarrow> (Inl e, h)
         | Inr _ \<Rightarrow>
        (case with_context ''invalid admin pubkey'' (public_from_base64 C admin_key) of
           Inl e \<Rightarrow> (Inl e, h)
         | Inr _ \<Rightarrow>
        let keypair = keypair_generate C random in
        (case write_secret h key_path (secret_to_base64 C (kp_secret keypair)) of
           (Inl e, h1) \<Rightarrow> (Inl e, h1)
         | (Inr _, h1) \<Rightarrow>
             let f = \<lparr>sf_listen = listen,
                      sf_key = \<lparr>sk_source = ''passphrase'', sk_env_var = None, sk_file = None, sk_value = None,
                                sk_passphrase_env = Some ''HYPERION_PASSPHRASE'', sk_salt = Some salt\<rparr>,
                      sf_identity = \<lparr>id_static_key_file = key_path, id_admin_pubkeys = [admin_key]\<rparr>,
                      sf_egress = \<lparr>eg_allow = allow_ports\<rparr>,
                      sf_limits = limits_default,
                      sf_knock = \<lparr>skn_enabled = True, skn_knock_port = None, skn_window_secs = None\<rparr>,
                      sf_firewall = firewall_section_default\<rparr> in
             (case to_string_pretty T f of
                None \<Rightarrow> (Inl ''serializing config'', h1)
              | Some contents \<Rightarrow>
                  (case write_str h1 cfg_path contents of
                     (None, h2) \<Rightarrow> (Inl (''writing config '' @ cfg_path), h2)
                   | (Some _, h2) \<Rightarrow> (Inr (cfg_path, public_to_base64 C (kp_public keypair)), h2)))))))"

section \<open>Loading\<close>

definition load_psk :: "crypto \<Rightarrow> host \<Rightarrow> key_source \<Rightarrow> psk any" where
  "load_psk C h key =
     (if sk_source key = ''passphrase''
      then any_bind (option_context ''key.source = passphrase requires key.salt'' (sk_salt key)) (\<lambda>salt.
           any_bind (read_passphrase h (sk_passphrase_env key)) (\<lambda>passphrase.
             with_context ''deriving PSK from passphrase''
               (psk_from_passphrase C (str_bytes passphrase) (str_bytes salt))))
      else any_bind
        (if sk_source key = ''env''
         then any_bind (option_context ''key.source = env requires key.env_var'' (sk_env_var key)) (\<lambda>var.
                option_context (''env var '' @ var @ '' not set'') (env_vars h var))
         else if sk_source key = ''file''
         then any_bind (option_context ''key.source = file requires key.file'' (sk_file key)) (\<lambda>file.
                let path = expand_home h file in
                option_context (''reading psk file '' @ path) (read_to_string h path))
         else if sk_source key = ''value''
         then option_context ''key.source = value requires key.value'' (sk_value key)
         else Inl (''unknown key.source: '' @ sk_source key))
        (\<lambda>b64. with_context ''invalid PSK'' (psk_from_base64 C (trim b64))))"

fun load_admins :: "crypto \<Rightarrow> string list \<Rightarrow> public_key list any" where
  "load_admins C [] = Inr []"
| "load_admins C (pk # pks) =
     any_bind (with_context ''invalid admin pubkey'' (public_from_base64 C pk)) (\<lambda>k.
     any_bind (load_admins C pks) (\<lambda>ks. Inr (k # ks)))"

definition knock_runtime_for :: "server_file \<Rightarrow> socket_addr \<Rightarrow> psk \<Rightarrow> public_key \<Rightarrow> knock_runtime option" where
  "knock_runtime_for f listen psk server_pub =
     (if skn_enabled (sf_knock f)
      then Some \<lparr>kr_knock_port = (case skn_knock_port (sf_knock f) of Some p \<Rightarrow> p | None \<Rightarrow> sock_port listen),
                 kr_tunnel_port = sock_port listen, kr_psk = psk, kr_server_pub = server_pub,
                 kr_window_secs = (case skn_window_secs (sf_knock f) of Some w \<Rightarrow> w | None \<Rightarrow> 30),
                 kr_table = fws_table (sf_firewall f), kr_set = fws_set (sf_firewall f),
                 kr_ttl_secs = fws_ttl_secs (sf_firewall f)\<rparr>
      else None)"

definition server_load :: "crypto \<Rightarrow> server_file toml \<Rightarrow> host \<Rightarrow> string \<Rightarrow> loaded_config any" where
  "server_load C T h path =
     any_bind (server_read_file h T path) (\<lambda>f.
     any_bind (option_context (''invalid listen address: '' @ sf_listen f) (parse_socket_addr (sf_listen f))) (\<lambda>listen.
     any_bind (load_psk C h (sf_key f)) (\<lambda>psk.
     let key_path = expand_home h (id_static_key_file (sf_identity f)) in
     any_bind (option_context (''reading static key '' @ key_path) (read_to_string h key_path)) (\<lambda>secret_b64.
     any_bind (with_context ''invalid static key'' (secret_from_base64 C (trim secret_b64))) (\<lambda>secret.
     let server_pub = secret_public_key C secret in
     any_bind (load_admins C (id_admin_pubkeys (sf_identity f))) (\<lambda>admins.
     if admins = [] then Inl (''identity.admin_pubkeys is empty '' @ em_dash @ '' no admin could authenticate'')
     else
       let knock = knock_runtime_for f listen psk server_pub in
       Inr \<lparr>ld_listen = listen,
            ld_server = \<lparr>static_secret = secret, server_psk = psk, allowed_admins = admins,
                         config_egress = egress_new (eg_allow (sf_egress f)),
                         handshake_timeout = unat (lim_handshake_timeout_ms (sf_limits f))\<rparr>,
            ld_knock = knock\<rparr>))))))"

section \<open>Lemmas\<close>

lemma load_admins_iff:
  "load_admins C pks = Inr ks \<longleftrightarrow> list_all2 (\<lambda>pk k. public_from_base64 C pk = Inr k) pks ks"
proof (induction pks arbitrary: ks)
  case (Cons pk pks)
  then show ?case by (cases ks) (auto simp: any_bind_Inr_iff)
qed auto

lemma load_psk_length: "argon2_lawful C \<Longrightarrow> load_psk C h k = Inr p \<Longrightarrow> length (psk_bytes p) = 32"
  by (auto simp: load_psk_def any_bind_Inr_iff psk_from_base64_length psk_from_passphrase_length
      split: if_splits)

lemma server_load_Inr:
  assumes "server_load C T h path = Inr cfg"
  obtains f psk secret_b64 secret admins where "server_read_file h T path = Inr f"
    "parse_socket_addr (sf_listen f) = Some (ld_listen cfg)" "load_psk C h (sf_key f) = Inr psk"
    "files h (expand_home h (id_static_key_file (sf_identity f))) = Some secret_b64"
    "secret_from_base64 C (trim secret_b64) = Inr secret"
    "load_admins C (id_admin_pubkeys (sf_identity f)) = Inr admins" "admins \<noteq> []"
    "ld_server cfg = \<lparr>static_secret = secret, server_psk = psk, allowed_admins = admins,
                      config_egress = egress_new (eg_allow (sf_egress f)),
                      handshake_timeout = unat (lim_handshake_timeout_ms (sf_limits f))\<rparr>"
    "ld_knock cfg = knock_runtime_for f (ld_listen cfg) psk (secret_public_key C secret)"
  using assms by (auto simp: server_load_def any_bind_Inr_iff Let_def read_to_string_def split: if_splits)

section \<open>Initialisation, then loading\<close>

lemma server_init_Inr:
  assumes "server_init_config C T h salt admin_key allow_ports listen force random = (Inr (path, pub), h')"
  obtains h1 f addr admin where "path = server_config_file h"
    "parse_socket_addr listen = Some addr" "public_from_base64 C admin_key = Inr admin"
    "write_secret h (server_key_file h) (secret_to_base64 C (SecretKey random)) = (Inr (), h1)"
    "f = \<lparr>sf_listen = listen,
          sf_key = \<lparr>sk_source = ''passphrase'', sk_env_var = None, sk_file = None, sk_value = None,
                    sk_passphrase_env = Some ''HYPERION_PASSPHRASE'', sk_salt = Some salt\<rparr>,
          sf_identity = \<lparr>id_static_key_file = server_key_file h, id_admin_pubkeys = [admin_key]\<rparr>,
          sf_egress = \<lparr>eg_allow = allow_ports\<rparr>, sf_limits = limits_default,
          sf_knock = \<lparr>skn_enabled = True, skn_knock_port = None, skn_window_secs = None\<rparr>,
          sf_firewall = firewall_section_default\<rparr>"
    "write_file h1 T path f = (Inr (), h')"
    "pub = public_to_base64 C (secret_public_key C (SecretKey random))"
  using assms
  by (auto simp: server_init_config_def Let_def keypair_generate_def secret_public_key_def write_file_def
      option_context_def with_context_def split: option.splits sum.splits prod.splits if_splits)

lemma server_read_file_eq: "server_read_file = read_file"
  by (intro ext) (simp add: server_read_file_def read_file_def)

text \<open>What \<open>init\<close> leaves behind loads, to the values it was given.\<close>

lemma server_init_loads:
  assumes init: "server_init_config C T h salt admin_key allow_ports listen force random = (Inr (path, pub), h')"
    and laws: "toml_lawful T" "b64_lawful C" "length random = KEY_LEN"
    and home: "expand_home h (server_key_file h) = server_key_file h"
    and pass: "env_vars h ''HYPERION_PASSPHRASE'' = Some pw" "MIN_SALT_LEN \<le> length salt"
      "argon2 C (str_bytes pw) (str_bytes salt) PSK_LEN = Some key"
  shows "\<exists>addr admin. parse_socket_addr listen = Some addr \<and> public_from_base64 C admin_key = Inr admin \<and>
     pub = public_to_base64 C (secret_public_key C (SecretKey random)) \<and>
     server_load C T h' path = Inr
       \<lparr>ld_listen = addr,
        ld_server = \<lparr>static_secret = SecretKey random, server_psk = Psk key, allowed_admins = [admin],
                     config_egress = egress_new allow_ports, handshake_timeout = 3000\<rparr>,
        ld_knock = Some \<lparr>kr_knock_port = sock_port addr, kr_tunnel_port = sock_port addr, kr_psk = Psk key,
                         kr_server_pub = secret_public_key C (SecretKey random), kr_window_secs = 30,
                         kr_table = ''hyperion'', kr_set = ''knock_allow'', kr_ttl_secs = 60\<rparr>\<rparr>"
proof -
  obtain h1 f addr admin where i: "path = server_config_file h"
    "parse_socket_addr listen = Some addr" "public_from_base64 C admin_key = Inr admin"
    "write_secret h (server_key_file h) (secret_to_base64 C (SecretKey random)) = (Inr (), h1)"
    "f = \<lparr>sf_listen = listen,
          sf_key = \<lparr>sk_source = ''passphrase'', sk_env_var = None, sk_file = None, sk_value = None,
                    sk_passphrase_env = Some ''HYPERION_PASSPHRASE'', sk_salt = Some salt\<rparr>,
          sf_identity = \<lparr>id_static_key_file = server_key_file h, id_admin_pubkeys = [admin_key]\<rparr>,
          sf_egress = \<lparr>eg_allow = allow_ports\<rparr>, sf_limits = limits_default,
          sf_knock = \<lparr>skn_enabled = True, skn_knock_port = None, skn_window_secs = None\<rparr>,
          sf_firewall = firewall_section_default\<rparr>"
    "write_file h1 T path f = (Inr (), h')" "pub = public_to_base64 C (secret_public_key C (SecretKey random))"
    by (rule server_init_Inr[OF init])
  note s = write_secret_Inr[OF i(4)]
  obtain contents where c: "files h' = (files h1)(path \<mapsto> contents)" "same_machine h1 h'"
    using write_file_Inr[OF i(6)] by blast
  have m: "same_machine h h'" using s c(2) same_machine_trans by blast
  have "server_key_file h \<noteq> path"
    using path_join_inject[of "''server.key''" "''server.toml''" "config_dir h"]
    by (simp add: i(1) server_key_file_def server_config_file_def)
  then have keyfile: "files h' (server_key_file h) = Some (secret_to_base64 C (SecretKey random) @ newline)"
    using c(1) s by simp
  have env: "env_vars h' ''HYPERION_PASSPHRASE'' = Some pw" using m pass(1) by (simp add: same_machine_def)
  have "load_psk C h' (sf_key f) = Inr (Psk key)"
    using passphrase_psk[OF env pass(2,3)] by (simp add: load_psk_def i(5) option_context_def)
  moreover have "server_read_file h' T path = Inr f"
    using read_file_written[OF laws(1) i(6)] by (simp add: server_read_file_eq)
  moreover have "expand_home h' (server_key_file h) = server_key_file h"
    using home expand_home_machine[OF m] by simp
  ultimately have "server_load C T h' path = Inr
       \<lparr>ld_listen = addr,
        ld_server = \<lparr>static_secret = SecretKey random, server_psk = Psk key, allowed_admins = [admin],
                     config_egress = egress_new allow_ports, handshake_timeout = 3000\<rparr>,
        ld_knock = Some \<lparr>kr_knock_port = sock_port addr, kr_tunnel_port = sock_port addr, kr_psk = Psk key,
                         kr_server_pub = secret_public_key C (SecretKey random), kr_window_secs = 30,
                         kr_table = ''hyperion'', kr_set = ''knock_allow'', kr_ttl_secs = 60\<rparr>\<rparr>"
    using i(2,3) keyfile secret_reads_back[OF laws(2,3)]
    by (simp add: server_load_def i(5) read_to_string_def option_context_def with_context_def knock_runtime_for_def
        limits_default_def default_handshake_ms_def firewall_section_default_def default_table_def
        default_set_def default_ttl_def)
  with i(2,3,7) show ?thesis by blast
qed

end
