(* ===== verification/Paired_Setup.thy ===== *)
theory Paired_Setup
  imports Server_Config
begin

text \<open>
  The two configurations together, following the README: the client is initialised, its public
  key and salt go to the server's \<open>init\<close>, the server's public key to the client's
  \<open>add-server\<close>, and both sides have the same passphrase in their environment.
\<close>

lemma public_of_encoded:
  "b64_lawful C \<Longrightarrow> public_from_base64 C (public_to_base64 C k) = Inr k' \<Longrightarrow> k' = k \<and> length (public_bytes k) = KEY_LEN"
  by (cases k) (auto simp: public_from_base64_def public_to_base64_def decode_key_encoded split: if_splits)

lemma sock_v4_port: "sock_port (SockV4 ip p) = p"
  by simp

lemma resolve_single:
  "explicit_ip s = Some vip \<Longrightarrow> ss_virtual_ip s = Some text_ip \<Longrightarrow> resolve_virtual_ips tun [s] = Inr [vip]"
  by (simp add: resolve_virtual_ips_def explicit_ip_def option_context_def)

text \<open>The client's configuration with its first server loads.\<close>

lemma client_setup_loads:
  assumes init: "client_init_config C T h force random1 random2 = (Inr (path, pub, salt), h1)"
    and add: "add_server C T h1 path name addr server_pub = (Inr vip, h2)"
    and laws: "toml_lawful T" "b64_lawful C" "length random1 = KEY_LEN"
    and home: "expand_home h (admin_key_file h) = admin_key_file h"
    and pass: "env_vars h ''HYPERION_PASSPHRASE'' = Some pw" "MIN_SALT_LEN \<le> length salt"
      "argon2 C (str_bytes pw) (str_bytes salt) PSK_LEN = Some key"
    and addr: "parse_socket_addr (normalize_addr addr) = Some (SockV4 ip p)"
  shows "\<exists>k tun. public_from_base64 C server_pub = Inr k \<and>
     client_load C T h2 path = Inr
       \<lparr>lc_servers = [(name, \<lparr>se_addr = SockV4 ip p, se_virtual_ip = vip,
          se_params = \<lparr>tp_static_secret = SecretKey random1, tp_server_pubkey = k, tp_psk = Psk key,
                       tp_knock = Some \<lparr>knock_port = p\<rparr>, tp_fwmark = None\<rparr>, se_pool_size = 2\<rparr>)],
        lc_forwards = [], lc_tun = tun\<rparr>"
proof -
  obtain f b64 where f: "read_file h1 T path = Inr f" "cf_admin_static_key_file f = admin_key_file h"
      "cf_server f = []" "cf_forward f = []" "cf_tun f = tun_section_default"
      "cf_knock f = \<lparr>ckn_enabled = True, ckn_port = None\<rparr>" "cf_pool_size f = None"
      "cf_key f = Some \<lparr>ks_source = ''passphrase'', ks_env_var = None, ks_value = None,
                       ks_passphrase_env = Some ''HYPERION_PASSPHRASE'', ks_salt = Some salt\<rparr>"
    and b64: "files h1 (admin_key_file h) = Some b64" "secret_from_base64 C (trim b64) = Inr (SecretKey random1)"
    and m1: "same_machine h h1"
    using client_init_reads_back[OF init laws] by blast
  obtain s tun parsed where s: "parse_socket_addr (normalize_addr addr) = Some parsed"
    "\<exists>k. public_from_base64 C server_pub = Inr k"
    "s = \<lparr>ss_name = name, ss_addr = sock_to_string parsed, ss_server_pubkey = server_pub,
          ss_virtual_ip = Some (ipv4_to_string vip), ss_key_env = None, ss_key_value = None, ss_pool_size = None\<rparr>"
    "parse_tun (cf_tun f) = Inr tun" "write_file h1 T path (f\<lparr>cf_server := cf_server f @ [s]\<rparr>) = (Inr (), h2)"
    by (rule add_server_Inr[OF add f(1)])
  obtain k where k: "public_from_base64 C server_pub = Inr k" using s(2) by blast
  have read: "read_file h2 T path = Inr (f\<lparr>cf_server := [s]\<rparr>)"
    using read_file_written[OF laws(1) s(5)] f(3) by simp
  have m2: "same_machine h h2" using m1 write_file_Inr[OF s(5)] same_machine_trans by blast
  have "path = client_config_file h" using client_init_Inr[OF init] by metis
  then have "admin_key_file h \<noteq> path"
    using path_join_inject[of "''admin.key''" "''hyperion.toml''" "config_dir h"]
    by (simp add: admin_key_file_def client_config_file_def)
  then have key: "files h2 (expand_home h2 (admin_key_file h)) = Some b64"
    using write_file_Inr[OF s(5)] b64(1) home expand_home_machine[OF m2] by auto
  have env: "env_vars h2 ''HYPERION_PASSPHRASE'' = Some pw" using m2 pass(1) by (simp add: same_machine_def)
  have psk: "load_default_psk C h2 (f\<lparr>cf_server := [s]\<rparr>) = Inr (Some (Psk key))"
    using passphrase_psk[OF env pass(2,3)]
    by (simp add: load_default_psk_def f(8) resolve_default_psk_def option_context_def)
  have "ss_addr s = sock_to_string (SockV4 ip p)" using s(1,3) addr by simp
  then have "load_server C h2 (f\<lparr>cf_server := [s]\<rparr>) (SecretKey random1) (Some (Psk key)) s vip =
      Inr \<lparr>se_addr = SockV4 ip p, se_virtual_ip = vip,
           se_params = \<lparr>tp_static_secret = SecretKey random1, tp_server_pubkey = k, tp_psk = Psk key,
                        tp_knock = Some \<lparr>knock_port = p\<rparr>, tp_fwmark = None\<rparr>, se_pool_size = 2\<rparr>"
    using k f(6,7) parse_socket_addr_v4_print[of ip p]
    by (simp add: load_server_def s(3) resolve_psk_def knock_settings_for_def option_context_def
        with_context_def DEFAULT_POOL_SIZE_def del: sock_to_string.simps)
  moreover have "resolve_virtual_ips tun [s] = Inr [vip]"
    using explicit_ip_printed[of s vip] s(3) resolve_single[of s vip "ipv4_to_string vip"] by simp
  moreover have "parse_tun tun_section_default = Inr tun" using s(4) f(5) by simp
  ultimately have "client_load C T h2 path = Inr
       \<lparr>lc_servers = [(name, \<lparr>se_addr = SockV4 ip p, se_virtual_ip = vip,
          se_params = \<lparr>tp_static_secret = SecretKey random1, tp_server_pubkey = k, tp_psk = Psk key,
                       tp_knock = Some \<lparr>knock_port = p\<rparr>, tp_fwmark = None\<rparr>, se_pool_size = 2\<rparr>)],
        lc_forwards = [], lc_tun = tun\<rparr>"
    using read key b64(2) psk f(2,4,5) s(3)
    by (simp add: client_load_def read_to_string_def option_context_def with_context_def)
  with k show ?thesis by blast
qed

lemma paired_configs:
  assumes "client_init_config C Tc hc force random1 random2 = (Inr (cpath, admin_pub, salt), hc1)"
    and "server_init_config C Ts hs salt admin_pub allowed listen force' random3 = (Inr (spath, server_pub), hs1)"
    and "add_server C Tc hc1 cpath name addr server_pub = (Inr vip, hc2)"
    and "parse_socket_addr (normalize_addr addr) = Some (SockV4 ip p)"
    and "toml_lawful Tc" "toml_lawful Ts" "b64_lawful C" "length random1 = KEY_LEN" "length random3 = KEY_LEN"
    and "env_vars hc ''HYPERION_PASSPHRASE'' = Some pw" "env_vars hs ''HYPERION_PASSPHRASE'' = Some pw"
    and "8 \<le> length salt" "argon2 C (str_bytes pw) (str_bytes salt) 32 = Some key"
    and "expand_home hc (admin_key_file hc) = admin_key_file hc"
    and "expand_home hs (server_key_file hs) = server_key_file hs"
  shows "\<exists>cl sl e k. client_load C Tc hc2 cpath = Inr cl \<and> server_load C Ts hs1 spath = Inr sl \<and>
     lc_servers cl = [(name, e)] \<and> se_addr e = SockV4 ip p \<and> se_virtual_ip e = vip \<and>
     tp_psk (se_params e) = server_psk (ld_server sl) \<and>
     tp_server_pubkey (se_params e) = secret_public_key C (static_secret (ld_server sl)) \<and>
     allowed_admins (ld_server sl) = [secret_public_key C (tp_static_secret (se_params e))] \<and>
     tp_knock (se_params e) = Some \<lparr>knock_port = p\<rparr> \<and> ld_knock sl = Some k \<and>
     kr_psk k = tp_psk (se_params e) \<and> kr_server_pub k = tp_server_pubkey (se_params e) \<and>
     kr_tunnel_port k = sock_port (ld_listen sl) \<and> kr_knock_port k = sock_port (ld_listen sl) \<and>
     kr_window_secs k = 30 \<and> parse_socket_addr listen = Some (ld_listen sl) \<and>
     length (secret_bytes (tp_static_secret (se_params e))) = KEY_LEN \<and>
     length (secret_bytes (static_secret (ld_server sl))) = KEY_LEN \<and> tp_psk (se_params e) = Psk key"
proof -
  have salt: "MIN_SALT_LEN \<le> length salt" "argon2 C (str_bytes pw) (str_bytes salt) PSK_LEN = Some key"
    using assms(12,13) by (simp_all add: MIN_SALT_LEN_def PSK_LEN_def)
  obtain k tun where c: "public_from_base64 C server_pub = Inr k"
    "client_load C Tc hc2 cpath = Inr
       \<lparr>lc_servers = [(name, \<lparr>se_addr = SockV4 ip p, se_virtual_ip = vip,
          se_params = \<lparr>tp_static_secret = SecretKey random1, tp_server_pubkey = k, tp_psk = Psk key,
                       tp_knock = Some \<lparr>knock_port = p\<rparr>, tp_fwmark = None\<rparr>, se_pool_size = 2\<rparr>)],
        lc_forwards = [], lc_tun = tun\<rparr>"
    using client_setup_loads[OF assms(1,3,5,7,8,14,10) salt assms(4)] by blast
  obtain bound admin where bound: "parse_socket_addr listen = Some bound" and s: "public_from_base64 C admin_pub = Inr admin"
    "server_pub = public_to_base64 C (secret_public_key C (SecretKey random3))"
    "server_load C Ts hs1 spath = Inr
       \<lparr>ld_listen = bound,
        ld_server = \<lparr>static_secret = SecretKey random3, server_psk = Psk key, allowed_admins = [admin],
                     config_egress = egress_new allowed, handshake_timeout = 3000\<rparr>,
        ld_knock = Some \<lparr>kr_knock_port = sock_port bound, kr_tunnel_port = sock_port bound, kr_psk = Psk key,
                         kr_server_pub = secret_public_key C (SecretKey random3), kr_window_secs = 30,
                         kr_table = ''hyperion'', kr_set = ''knock_allow'', kr_ttl_secs = 60\<rparr>\<rparr>"
    using server_init_loads[OF assms(2,6,7,9,15,11) salt] by blast
  have "admin_pub = public_to_base64 C (secret_public_key C (SecretKey random1))"
    using client_init_reads_back[OF assms(1,5,7,8)] by blast
  then have "admin = secret_public_key C (SecretKey random1)" "k = secret_public_key C (SecretKey random3)"
    using s(1,2) c(1) public_of_encoded[OF assms(7)] by blast+
  with c(2) s(3) bound assms(8,9) show ?thesis by simp
qed

text \<open>
  The README's setup as a relation between the two machines after it: a client with one server,
  whose address reaches the port that server listens on.
\<close>

definition readme_setup ::
    "crypto \<Rightarrow> client_file toml \<Rightarrow> server_file toml \<Rightarrow> host \<Rightarrow> string \<Rightarrow> host \<Rightarrow> string \<Rightarrow> socket_addr \<Rightarrow> bool" where
  "readme_setup C Tc Ts hc2 cpath hs1 spath saddr \<longleftrightarrow>
     toml_lawful Tc \<and> toml_lawful Ts \<and> b64_lawful C \<and> argon2_lawful C \<and>
     (\<exists>hc force random1 random2 admin_pub salt hc1 hs allowed listen bound force' random3 server_pub name addr vip ip pw.
        client_init_config C Tc hc force random1 random2 = (Inr (cpath, admin_pub, salt), hc1) \<and>
        server_init_config C Ts hs salt admin_pub allowed listen force' random3 = (Inr (spath, server_pub), hs1) \<and>
        add_server C Tc hc1 cpath name addr server_pub = (Inr vip, hc2) \<and>
        length random1 = KEY_LEN \<and> length random3 = KEY_LEN \<and>
        parse_socket_addr (normalize_addr addr) = Some saddr \<and> saddr = SockV4 ip (sock_port bound) \<and>
        parse_socket_addr listen = Some bound \<and>
        env_vars hc ''HYPERION_PASSPHRASE'' = Some pw \<and> env_vars hs ''HYPERION_PASSPHRASE'' = Some pw \<and>
        8 \<le> length salt \<and> argon2 C (str_bytes pw) (str_bytes salt) 32 \<noteq> None \<and>
        expand_home hc (admin_key_file hc) = admin_key_file hc \<and>
        expand_home hs (server_key_file hs) = server_key_file hs)"

lemma readme_setup_configs:
  assumes "readme_setup C Tc Ts hc2 cpath hs1 spath saddr"
  obtains cl sl name e k where "client_load C Tc hc2 cpath = Inr cl" "server_load C Ts hs1 spath = Inr sl"
    "lc_servers cl = [(name, e)]" "se_addr e = saddr" "tp_psk (se_params e) = server_psk (ld_server sl)"
    "tp_server_pubkey (se_params e) = secret_public_key C (static_secret (ld_server sl))"
    "allowed_admins (ld_server sl) = [secret_public_key C (tp_static_secret (se_params e))]"
    "tp_knock (se_params e) = Some \<lparr>knock_port = sock_port saddr\<rparr>" "ld_knock sl = Some k"
    "kr_psk k = tp_psk (se_params e)" "kr_server_pub k = tp_server_pubkey (se_params e)"
    "kr_tunnel_port k = sock_port saddr" "kr_knock_port k = sock_port saddr" "kr_window_secs k = 30"
    "length (secret_bytes (tp_static_secret (se_params e))) = KEY_LEN"
    "length (secret_bytes (static_secret (ld_server sl))) = KEY_LEN"
    "length (psk_bytes (server_psk (ld_server sl))) = PSK_LEN"
    "sock_port (ld_listen sl) = sock_port saddr"
proof -
  from assms obtain hc force random1 random2 admin_pub salt hc1 hs allowed listen bound force' random3 server_pub
      name addr vip ip pw key where
    l: "toml_lawful Tc" "toml_lawful Ts" "b64_lawful C" "argon2_lawful C" and
    s: "client_init_config C Tc hc force random1 random2 = (Inr (cpath, admin_pub, salt), hc1)"
      "server_init_config C Ts hs salt admin_pub allowed listen force' random3 = (Inr (spath, server_pub), hs1)"
      "add_server C Tc hc1 cpath name addr server_pub = (Inr vip, hc2)"
      "parse_socket_addr (normalize_addr addr) = Some (SockV4 ip (sock_port bound))" and
    p: "length random1 = KEY_LEN" "length random3 = KEY_LEN"
      "env_vars hc ''HYPERION_PASSPHRASE'' = Some pw" "env_vars hs ''HYPERION_PASSPHRASE'' = Some pw"
      "8 \<le> length salt" "argon2 C (str_bytes pw) (str_bytes salt) 32 = Some key"
      "expand_home hc (admin_key_file hc) = admin_key_file hc" "expand_home hs (server_key_file hs) = server_key_file hs" and
    a: "saddr = SockV4 ip (sock_port bound)" "parse_socket_addr listen = Some bound"
    unfolding readme_setup_def by blast
  have key: "length key = PSK_LEN" using l(4) p(6) by (simp add: argon2_lawful_def PSK_LEN_def)
  obtain cl sl e k where c:
    "client_load C Tc hc2 cpath = Inr cl" "server_load C Ts hs1 spath = Inr sl"
    "lc_servers cl = [(name, e)]" "se_addr e = SockV4 ip (sock_port bound)" "tp_psk (se_params e) = server_psk (ld_server sl)"
    "tp_server_pubkey (se_params e) = secret_public_key C (static_secret (ld_server sl))"
    "allowed_admins (ld_server sl) = [secret_public_key C (tp_static_secret (se_params e))]"
    "tp_knock (se_params e) = Some \<lparr>knock_port = sock_port bound\<rparr>" "ld_knock sl = Some k"
    "kr_psk k = tp_psk (se_params e)" "kr_server_pub k = tp_server_pubkey (se_params e)"
    "kr_tunnel_port k = sock_port (ld_listen sl)" "kr_knock_port k = sock_port (ld_listen sl)" "kr_window_secs k = 30"
    "parse_socket_addr listen = Some (ld_listen sl)"
    "length (secret_bytes (tp_static_secret (se_params e))) = KEY_LEN"
    "length (secret_bytes (static_secret (ld_server sl))) = KEY_LEN" "tp_psk (se_params e) = Psk key"
    using paired_configs[OF s l(1-3) p] by (elim exE conjE) (rule that)
  have port: "sock_port saddr = sock_port bound" by (simp add: a(1))
  have b: "sock_port (ld_listen sl) = sock_port saddr" using c(15) a(2) port by simp
  have "length (psk_bytes (server_psk (ld_server sl))) = PSK_LEN" unfolding c(5)[symmetric] c(18) by (simp add: key)
  moreover have "se_addr e = saddr" by (simp add: c(4) a(1))
  ultimately show thesis
    using that[OF c(1-3) _ c(5-7) _ c(9-11) _ _ c(14,16,17) _ b] c(8,12,13) unfolding port b by simp
qed

text \<open>
  The two setups fit together. Following the README's steps with one passphrase, both
  configurations load; the client's one server has the server's public key, the client's key is
  on the server's allow-list, both sides derived the same shared key, and the server's knock
  gate uses that key and that public key.
\<close>

theorem setup_pairs_up:
  assumes "client_init_config C Tc hc force random1 random2 = (Inr (cpath, admin_pub, salt), hc1)"
    and "server_init_config C Ts hs salt admin_pub allowed listen force' random3 = (Inr (spath, server_pub), hs1)"
    and "add_server C Tc hc1 cpath name addr server_pub = (Inr vip, hc2)"
    and "parse_socket_addr (normalize_addr addr) = Some (SockV4 ip p)"
    and "toml_lawful Tc" "toml_lawful Ts" "b64_lawful C" "length random1 = KEY_LEN" "length random3 = KEY_LEN"
    and "env_vars hc ''HYPERION_PASSPHRASE'' = Some pw" "env_vars hs ''HYPERION_PASSPHRASE'' = Some pw"
    and "8 \<le> length salt" "argon2 C (str_bytes pw) (str_bytes salt) 32 = Some key"
    and "expand_home hc (admin_key_file hc) = admin_key_file hc"
    and "expand_home hs (server_key_file hs) = server_key_file hs"
  shows "\<exists>cl sl e k. client_load C Tc hc2 cpath = Inr cl \<and> server_load C Ts hs1 spath = Inr sl \<and>
     lc_servers cl = [(name, e)] \<and> se_addr e = SockV4 ip p \<and> se_virtual_ip e = vip \<and>
     tp_psk (se_params e) = server_psk (ld_server sl) \<and>
     tp_server_pubkey (se_params e) = secret_public_key C (static_secret (ld_server sl)) \<and>
     allowed_admins (ld_server sl) = [secret_public_key C (tp_static_secret (se_params e))] \<and>
     tp_knock (se_params e) = Some \<lparr>knock_port = p\<rparr> \<and> ld_knock sl = Some k \<and>
     kr_psk k = tp_psk (se_params e) \<and> kr_server_pub k = tp_server_pubkey (se_params e) \<and>
     kr_tunnel_port k = sock_port (ld_listen sl) \<and> kr_knock_port k = sock_port (ld_listen sl)"
  using paired_configs[OF assms] by blast

section \<open>A concrete pair\<close>

definition pair_host :: host where
  "pair_host = sample_host\<lparr>env_vars := [''HOME'' \<mapsto> ''/root'', ''HYPERION_PASSPHRASE'' \<mapsto> ''pw'']\<rparr>"

definition pair_salt :: string where
  "pair_salt = ''0101010101010101010101''"

definition pair_random :: bytes where
  "pair_random = replicate 32 0"

definition pair_pub :: string where
  "pair_pub = public_to_base64 toy_crypto (secret_public_key toy_crypto (SecretKey pair_random))"

definition pair_client_file :: "server_section list \<Rightarrow> client_file" where
  "pair_client_file ss =
     \<lparr>cf_admin_static_key_file = admin_key_file pair_host, cf_pool_size = None,
      cf_key = Some \<lparr>ks_source = ''passphrase'', ks_env_var = None, ks_value = None,
                     ks_passphrase_env = Some ''HYPERION_PASSPHRASE'', ks_salt = Some pair_salt\<rparr>,
      cf_knock = \<lparr>ckn_enabled = True, ckn_port = None\<rparr>, cf_tun = tun_section_default,
      cf_server = ss, cf_forward = []\<rparr>"

definition pair_server :: server_section where
  "pair_server =
     \<lparr>ss_name = ''a'', ss_addr = ''203.0.113.11:8443'', ss_server_pubkey = pair_pub,
      ss_virtual_ip = Some ''10.99.0.10'', ss_key_env = None, ss_key_value = None, ss_pool_size = None\<rparr>"

definition pair_server_file :: server_file where
  "pair_server_file =
     \<lparr>sf_listen = ''0.0.0.0:8443'',
      sf_key = \<lparr>sk_source = ''passphrase'', sk_env_var = None, sk_file = None, sk_value = None,
                sk_passphrase_env = Some ''HYPERION_PASSPHRASE'', sk_salt = Some pair_salt\<rparr>,
      sf_identity = \<lparr>id_static_key_file = server_key_file pair_host, id_admin_pubkeys = [pair_pub]\<rparr>,
      sf_egress = \<lparr>eg_allow = [22]\<rparr>, sf_limits = limits_default,
      sf_knock = \<lparr>skn_enabled = True, skn_knock_port = None, skn_window_secs = None\<rparr>,
      sf_firewall = firewall_section_default\<rparr>"

definition pair_client_toml :: "client_file toml" where
  "pair_client_toml = table_toml [(pair_client_file [], ''1''), (pair_client_file [pair_server], ''2'')]"

definition pair_server_toml :: "server_file toml" where
  "pair_server_toml = table_toml [(pair_server_file, ''3'')]"

lemma pair_toml: "toml_lawful pair_client_toml" "toml_lawful pair_server_toml"
  "to_string_pretty pair_client_toml (pair_client_file []) = Some ''1''"
  "to_string_pretty pair_client_toml (pair_client_file [pair_server]) = Some ''2''"
  "to_string_pretty pair_server_toml pair_server_file = Some ''3''"
  by (simp_all add: pair_client_toml_def pair_server_toml_def table_toml_lawful)
     (simp_all add: table_toml_def pair_client_file_def)

lemma write_secret_ok:
  "openable h path \<Longrightarrow> storable h path \<Longrightarrow> chmodable h path \<Longrightarrow> \<exists>h'. write_secret h path contents = (Inr (), h')"
  by (simp add: write_secret_def write_secret_states_def open_truncate_def write_all_def)

lemma pair_writes: "openable pair_host q" "storable pair_host q" "chmodable pair_host q" "files pair_host q = None"
  "ensure_config_dir pair_host \<noteq> None"
  by (simp_all add: pair_host_def sample_host_def ensure_config_dir_def Let_def)

lemma pair_pub_read: "public_from_base64 toy_crypto pair_pub = Inr (PublicKey (replicate 32 1))"
proof -
  have "pair_pub = public_to_base64 toy_crypto (PublicKey (replicate 32 1))"
    by (simp add: pair_pub_def secret_public_key_def toy_crypto_def pair_random_def)
  then show ?thesis using public_reads_back[OF toy_b64_lawful, of "replicate 32 1"] by (simp add: KEY_LEN_def)
qed

lemma pair_salt_eq:
  "take 22 (filter is_alphanumeric (public_to_base64 toy_crypto (kp_public (keypair_generate toy_crypto pair_random)))) = pair_salt"
  unfolding pair_random_def pair_salt_def by code_simp

lemma pair_client_init:
  "\<exists>h1. client_init_config toy_crypto pair_client_toml pair_host False pair_random pair_random =
      (Inr (client_config_file pair_host, pair_pub, pair_salt), h1)"
proof -
  obtain h1 where h1: "write_secret pair_host (admin_key_file pair_host) (secret_to_base64 toy_crypto (SecretKey pair_random)) = (Inr (), h1)"
    using write_secret_ok pair_writes by blast
  have w: "openable h1 q" "storable h1 q" for q
    using write_secret_Inr[OF h1] pair_writes by (auto simp: same_machine_def)
  obtain h2 where "write_file h1 pair_client_toml (client_config_file pair_host) (pair_client_file []) = (Inr (), h2)"
    using write_file_ok[OF w pair_toml(3)] by blast
  then show ?thesis
    using h1 pair_writes(4,5) pair_salt_eq
    by (simp add: client_init_config_def keypair_generate_def pair_client_file_def pair_pub_def
        secret_public_key_def secret_to_base64_def Let_def)
qed

lemma pair_listen: "parse_socket_addr ''0.0.0.0:8443'' = Some (SockV4 (Ipv4Addr 0 0 0 0) 8443)"
  using parse_socket_addr_v4_print[of "Ipv4Addr 0 0 0 0" 8443]
  by (simp add: nat_to_dec_small nat_to_dec_step decimal_digits)

lemma pair_server_init:
  "\<exists>h1. server_init_config toy_crypto pair_server_toml pair_host pair_salt pair_pub [22] ''0.0.0.0:8443'' False pair_random =
      (Inr (server_config_file pair_host, pair_pub), h1)"
proof -
  obtain h1 where h1: "write_secret pair_host (server_key_file pair_host) (secret_to_base64 toy_crypto (SecretKey pair_random)) = (Inr (), h1)"
    using write_secret_ok pair_writes by blast
  then have "openable h1 q" "storable h1 q" for q
    using write_secret_Inr[OF h1] pair_writes by (auto simp: same_machine_def)
  then have "\<exists>h2. write_str h1 (server_config_file pair_host) ''3'' = (Some (), h2)"
    by (simp add: write_str_iff)
  then obtain h2 where "write_str h1 (server_config_file pair_host) ''3'' = (Some (), h2)" ..
  moreover note pair_listen
  ultimately show ?thesis
    using h1 pair_writes(4,5) pair_pub_read pair_toml(5)
    by (simp add: server_init_config_def keypair_generate_def pair_server_file_def pair_pub_def
        secret_public_key_def secret_to_base64_def option_context_def with_context_def Let_def)
qed

lemma pair_add:
  assumes "client_init_config toy_crypto pair_client_toml pair_host False pair_random pair_random =
      (Inr (client_config_file pair_host, pair_pub, pair_salt), h1)"
  shows "\<exists>h2. add_server toy_crypto pair_client_toml h1 (client_config_file pair_host) ''a'' ''203.0.113.11'' pair_pub =
      (Inr (Ipv4Addr 10 99 0 10), h2)"
proof -
  have len: "length pair_random = KEY_LEN" by (simp add: pair_random_def KEY_LEN_def)
  obtain f where f: "read_file h1 pair_client_toml (client_config_file pair_host) = Inr f" "same_machine pair_host h1"
    "cf_admin_static_key_file f = admin_key_file pair_host" "cf_server f = []" "cf_forward f = []"
    "cf_tun f = tun_section_default" "cf_knock f = \<lparr>ckn_enabled = True, ckn_port = None\<rparr>" "cf_pool_size f = None"
    "cf_key f = Some \<lparr>ks_source = ''passphrase'', ks_env_var = None, ks_value = None,
                     ks_passphrase_env = Some ''HYPERION_PASSPHRASE'', ks_salt = Some pair_salt\<rparr>"
    using client_init_reads_back[OF assms pair_toml(1) toy_b64_lawful len] by blast
  then have is_new: "f = pair_client_file []" by (cases f) (simp add: pair_client_file_def)
  have new: "\<lparr>ss_name = ''a'', ss_addr = sock_to_string (SockV4 (Ipv4Addr 203 0 113 11) 8443), ss_server_pubkey = pair_pub,
      ss_virtual_ip = Some (ipv4_to_string (Ipv4Addr 10 99 0 10)), ss_key_env = None, ss_key_value = None,
      ss_pool_size = None\<rparr> = pair_server"
    unfolding sample_print by (simp add: pair_server_def)
  have step: "pair_client_file []\<lparr>cf_server := [pair_server]\<rparr> = pair_client_file [pair_server]"
    by (simp add: pair_client_file_def)
  have "\<exists>h2. add_server toy_crypto pair_client_toml h1 (client_config_file pair_host) ''a'' ''203.0.113.11'' pair_pub =
      (Inr (Ipv4Addr 10 99 0 10), h2) \<and>
      read_file h2 pair_client_toml (client_config_file pair_host) =
        option_context ''parsing config TOML'' (from_str pair_client_toml ''2'')"
  proof (rule add_server_ok[OF sample_addr pair_pub_read f(1)])
    show "parse_tun (cf_tun f) = Inr sample_tun" by (simp add: f parse_default_tun sample_tun_def)
    show "to_string_pretty pair_client_toml (f\<lparr>cf_server := cf_server f @
       [\<lparr>ss_name = ''a'', ss_addr = sock_to_string (SockV4 (Ipv4Addr 203 0 113 11) 8443), ss_server_pubkey = pair_pub,
      ss_virtual_ip = Some (ipv4_to_string (Ipv4Addr 10 99 0 10)), ss_key_env = None, ss_key_value = None,
      ss_pool_size = None\<rparr>]\<rparr>) = Some ''2''"
      unfolding new f(4) by (simp add: is_new step pair_toml)
  qed (use f(2) pair_writes in \<open>simp_all add: f sample_assign same_machine_def\<close>)
  then show ?thesis by blast
qed

lemma pair_hypotheses:
  "length pair_random = KEY_LEN" "env_vars pair_host ''HYPERION_PASSPHRASE'' = Some ''pw''" "8 \<le> length pair_salt"
  "\<exists>key. argon2 toy_crypto (str_bytes ''pw'') (str_bytes pair_salt) 32 = Some key"
  "expand_home pair_host (admin_key_file pair_host) = admin_key_file pair_host"
  "expand_home pair_host (server_key_file pair_host) = server_key_file pair_host"
proof -
  show "length pair_random = KEY_LEN" by (simp add: pair_random_def KEY_LEN_def)
  show "env_vars pair_host ''HYPERION_PASSPHRASE'' = Some ''pw''" by (simp add: pair_host_def)
  show "8 \<le> length pair_salt" by (simp add: pair_salt_def)
  show "\<exists>key. argon2 toy_crypto (str_bytes ''pw'') (str_bytes pair_salt) 32 = Some key"
    by (simp add: toy_crypto_def)
  show "expand_home pair_host (admin_key_file pair_host) = admin_key_file pair_host"
    "expand_home pair_host (server_key_file pair_host) = server_key_file pair_host"
    by (simp_all add: expand_home_def admin_key_file_def server_key_file_def config_dir_def pair_host_def
        path_join_def strip_prefix_def)
qed

lemma pair_steps:
  obtains hc1 hs1 hc2 where
    "client_init_config toy_crypto pair_client_toml pair_host False pair_random pair_random =
      (Inr (client_config_file pair_host, pair_pub, pair_salt), hc1)"
    "server_init_config toy_crypto pair_server_toml pair_host pair_salt pair_pub [22] ''0.0.0.0:8443'' False pair_random =
      (Inr (server_config_file pair_host, pair_pub), hs1)"
    "add_server toy_crypto pair_client_toml hc1 (client_config_file pair_host) ''a'' ''203.0.113.11'' pair_pub =
      (Inr (Ipv4Addr 10 99 0 10), hc2)"
  using pair_client_init pair_server_init pair_add by blast

lemma pair_setup:
  "\<exists>hc2 hs1. readme_setup toy_crypto pair_client_toml pair_server_toml hc2 (client_config_file pair_host) hs1
     (server_config_file pair_host) (SockV4 (Ipv4Addr 203 0 113 11) 8443)"
proof -
  obtain hc1 hs1 hc2 where
    c: "client_init_config toy_crypto pair_client_toml pair_host False pair_random pair_random =
      (Inr (client_config_file pair_host, pair_pub, pair_salt), hc1)" and
    s: "server_init_config toy_crypto pair_server_toml pair_host pair_salt pair_pub [22] ''0.0.0.0:8443'' False pair_random =
      (Inr (server_config_file pair_host, pair_pub), hs1)" and
    a: "add_server toy_crypto pair_client_toml hc1 (client_config_file pair_host) ''a'' ''203.0.113.11'' pair_pub =
      (Inr (Ipv4Addr 10 99 0 10), hc2)"
    by (rule pair_steps)
  note p = pair_hypotheses
  have key: "argon2 toy_crypto (str_bytes ''pw'') (str_bytes pair_salt) 32 \<noteq> None" using p(4) by blast
  have addr: "parse_socket_addr (normalize_addr ''203.0.113.11'') = Some (SockV4 (Ipv4Addr 203 0 113 11) 8443)"
    by (rule sample_addr)
  have same: "SockV4 (Ipv4Addr 203 0 113 11) 8443 = SockV4 (Ipv4Addr 203 0 113 11) (sock_port (SockV4 (Ipv4Addr 0 0 0 0) 8443))"
    by simp
  show ?thesis
    by (intro exI, unfold readme_setup_def, intro conjI exI)
       (rule pair_toml(1,2) toy_b64_lawful toy_argon2_lawful c s a p(1) addr same pair_listen p(2,3) key p(5,6))+
qed

theorem setup_pairs_up_witness:
  "\<exists>cpath admin_pub salt hc1 spath server_pub hs1 vip hc2 cl sl.
     client_init_config toy_crypto pair_client_toml pair_host False pair_random pair_random = (Inr (cpath, admin_pub, salt), hc1) \<and>
     server_init_config toy_crypto pair_server_toml pair_host salt admin_pub [22] ''0.0.0.0:8443'' False pair_random =
       (Inr (spath, server_pub), hs1) \<and>
     add_server toy_crypto pair_client_toml hc1 cpath ''a'' ''203.0.113.11'' server_pub = (Inr vip, hc2) \<and>
     client_load toy_crypto pair_client_toml hc2 cpath = Inr cl \<and> server_load toy_crypto pair_server_toml hs1 spath = Inr sl"
proof -
  obtain hc1 hs1 hc2 where
    c: "client_init_config toy_crypto pair_client_toml pair_host False pair_random pair_random =
      (Inr (client_config_file pair_host, pair_pub, pair_salt), hc1)" and
    s: "server_init_config toy_crypto pair_server_toml pair_host pair_salt pair_pub [22] ''0.0.0.0:8443'' False pair_random =
      (Inr (server_config_file pair_host, pair_pub), hs1)" and
    a: "add_server toy_crypto pair_client_toml hc1 (client_config_file pair_host) ''a'' ''203.0.113.11'' pair_pub =
      (Inr (Ipv4Addr 10 99 0 10), hc2)"
    by (rule pair_steps)
  obtain key where key: "argon2 toy_crypto (str_bytes ''pw'') (str_bytes pair_salt) 32 = Some key"
    using pair_hypotheses(4) by blast
  note p = pair_hypotheses
  from setup_pairs_up[OF c s a sample_addr pair_toml(1,2) toy_b64_lawful p(1,1,2,2,3) key p(5,6)]
  have "\<exists>cl sl. client_load toy_crypto pair_client_toml hc2 (client_config_file pair_host) = Inr cl \<and>
      server_load toy_crypto pair_server_toml hs1 (server_config_file pair_host) = Inr sl"
    by blast
  with c s a show ?thesis by blast
qed

section \<open>What loads is consistent\<close>

lemma pair_loads:
  "\<exists>hc2 hs1 e tun sl. client_load toy_crypto pair_client_toml hc2 (client_config_file pair_host) =
       Inr \<lparr>lc_servers = [(''a'', e)], lc_forwards = [], lc_tun = tun\<rparr> \<and>
     server_load toy_crypto pair_server_toml hs1 (server_config_file pair_host) = Inr sl"
proof -
  obtain hc1 hs1 hc2 where
    c: "client_init_config toy_crypto pair_client_toml pair_host False pair_random pair_random =
      (Inr (client_config_file pair_host, pair_pub, pair_salt), hc1)" and
    s: "server_init_config toy_crypto pair_server_toml pair_host pair_salt pair_pub [22] ''0.0.0.0:8443'' False pair_random =
      (Inr (server_config_file pair_host, pair_pub), hs1)" and
    a: "add_server toy_crypto pair_client_toml hc1 (client_config_file pair_host) ''a'' ''203.0.113.11'' pair_pub =
      (Inr (Ipv4Addr 10 99 0 10), hc2)"
    by (rule pair_steps)
  obtain key where key: "argon2 toy_crypto (str_bytes ''pw'') (str_bytes pair_salt) PSK_LEN = Some key"
    using pair_hypotheses(4) by (auto simp: PSK_LEN_def)
  have salt: "MIN_SALT_LEN \<le> length pair_salt" using pair_hypotheses(3) by (simp add: MIN_SALT_LEN_def)
  note p = pair_hypotheses
  show ?thesis
    using client_setup_loads[OF c a pair_toml(1) toy_b64_lawful p(1,5,2) salt key sample_addr]
      server_init_loads[OF s pair_toml(2) toy_b64_lawful p(1,6,2) salt key]
    by blast
qed

text \<open>
  C21: A configuration that loads is consistent. It has the file's servers in order, under
  different names and with different fake IPs; every server has the address and the public key
  written in its section, of 32 bytes, a 32-byte shared key, no socket mark, and a knock exactly
  when knocking is enabled, to the configured port or else to the server's own; every forward
  names a loaded server.
\<close>

theorem client_load_consistent:
  assumes "argon2_lawful C" "client_load C T h path = Inr cl"
  shows "\<exists>f. read_file h T path = Inr f \<and>
         map fst (lc_servers cl) = map ss_name (cf_server f) \<and> distinct (map fst (lc_servers cl)) \<and>
         distinct (map (\<lambda>(n, e). se_virtual_ip e) (lc_servers cl)) \<and>
         list_all2 (\<lambda>s (n, e).
            parse_socket_addr (ss_addr s) = Some (se_addr e) \<and>
            public_from_base64 C (ss_server_pubkey s) = Inr (tp_server_pubkey (se_params e)) \<and>
            length (psk_bytes (tp_psk (se_params e))) = 32 \<and>
            length (public_bytes (tp_server_pubkey (se_params e))) = 32 \<and> tp_fwmark (se_params e) = None \<and>
            (if ckn_enabled (cf_knock f)
             then \<exists>k. tp_knock (se_params e) = Some k \<and>
                    knock_port k = (case ckn_port (cf_knock f) of Some p \<Rightarrow> p | None \<Rightarrow> sock_port (se_addr e))
             else tp_knock (se_params e) = None)) (cf_server f) (lc_servers cl) \<and>
         (\<forall>fwd \<in> set (lc_forwards cl). fe_server fwd \<in> set (map fst (lc_servers cl)))"
    (is "\<exists>f. _ \<and> _ \<and> _ \<and> _ \<and> list_all2 (?P f) _ _ \<and> _")
proof -
  obtain f sec dpsk vips where f: "read_file h T path = Inr f" "parse_tun (cf_tun f) = Inr (lc_tun cl)"
    "resolve_virtual_ips (lc_tun cl) (cf_server f) = Inr vips" "load_default_psk C h f = Inr dpsk"
    "load_servers (load_server C h f sec dpsk) (zip (cf_server f) vips) [] = Inr (lc_servers cl)"
    "load_forwards (lc_servers cl) (cf_forward f) = Inr (lc_forwards cl)"
    by (rule client_load_Inr[OF assms(2)])
  note v = resolved_ips[OF f(2,3)]
  note es = load_servers_entries[OF f(5) v(1)]
  have "list_all2 (?P f) (cf_server f) (lc_servers cl)"
  proof (rule list_all2_all_nthI)
    show "length (cf_server f) = length (lc_servers cl)" using es(1) by simp
    fix i assume i: "i < length (cf_server f)"
    obtain n e where e: "lc_servers cl ! i = (n, e)" by fastforce
    from load_server_Inr[OF es(4)[OF i]] load_server_ok[OF es(4)[OF i] assms(1) f(4)]
    show "?P f (cf_server f ! i) (lc_servers cl ! i)"
      by (simp add: e knock_settings_for_def)
  qed
  moreover have "fe_server fwd \<in> set (map fst (lc_servers cl))" if "fwd \<in> set (lc_forwards cl)" for fwd
  proof -
    from that obtain i where "i < length (lc_forwards cl)" "lc_forwards cl ! i = fwd"
      by (auto simp: in_set_conv_nth)
    then show ?thesis
      using f(6)[unfolded load_forwards_iff] by (auto simp: list_all2_conv_all_nth)
  qed
  ultimately show ?thesis using f(1) es(2,3) loaded_vips_distinct[OF assms(2)] by (intro exI[of _ f]) auto
qed

theorem client_load_consistent_witness:
  "\<exists>h cl. client_load toy_crypto pair_client_toml h (client_config_file pair_host) = Inr cl \<and>
     length (lc_servers cl) = 1 \<and> distinct (map fst (lc_servers cl))"
proof -
  obtain h e tun where l: "client_load toy_crypto pair_client_toml h (client_config_file pair_host) =
      Inr \<lparr>lc_servers = [(''a'', e)], lc_forwards = [], lc_tun = tun\<rparr>"
    using pair_loads by blast
  from client_load_consistent[OF toy_argon2_lawful l] have "distinct (map fst [(''a'', e)])" by auto
  with l show ?thesis by (intro exI conjI) auto
qed

text \<open>
  C22: A server never comes up open. A configuration that loads has a non-empty list of admins,
  exactly the decoded keys of the file; a 32-byte shared key; egress that permits exactly the
  listed allow_ports, none when none is listed; and a knock gate exactly when knocking is enabled,
  which guards the listening port with the same shared key and the server's own public key.
\<close>

theorem server_load_consistent:
  assumes "argon2_lawful C" "server_load C T h path = Inr cfg"
  shows "\<exists>f. server_read_file h T path = Inr f \<and>
         allowed_admins (ld_server cfg) \<noteq> [] \<and>
         list_all2 (\<lambda>pk k. public_from_base64 C pk = Inr k) (id_admin_pubkeys (sf_identity f)) (allowed_admins (ld_server cfg)) \<and>
         length (psk_bytes (server_psk (ld_server cfg))) = 32 \<and>
         (\<forall>p. permits (config_egress (ld_server cfg)) p \<longleftrightarrow> p \<in> set (eg_allow (sf_egress f))) \<and>
         (ld_knock cfg = None \<longleftrightarrow> \<not> skn_enabled (sf_knock f)) \<and>
         (\<forall>k. ld_knock cfg = Some k \<longrightarrow>
            kr_tunnel_port k = sock_port (ld_listen cfg) \<and> kr_psk k = server_psk (ld_server cfg) \<and>
            kr_server_pub k = secret_public_key C (static_secret (ld_server cfg)))"
proof -
  obtain f psk secret_b64 secret admins where "server_read_file h T path = Inr f"
    "load_psk C h (sf_key f) = Inr psk"
    "load_admins C (id_admin_pubkeys (sf_identity f)) = Inr admins" "admins \<noteq> []"
    "ld_server cfg = \<lparr>static_secret = secret, server_psk = psk, allowed_admins = admins,
                      config_egress = egress_new (eg_allow (sf_egress f)),
                      handshake_timeout = unat (lim_handshake_timeout_ms (sf_limits f))\<rparr>"
    "ld_knock cfg = knock_runtime_for f (ld_listen cfg) psk (secret_public_key C secret)"
    by (rule server_load_Inr[OF assms(2)])
  with load_psk_length[OF assms(1)] show ?thesis
    by (intro exI[of _ f]) (auto simp: load_admins_iff knock_runtime_for_def)
qed

theorem server_load_consistent_witness:
  "\<exists>h sl. server_load toy_crypto pair_server_toml h (server_config_file pair_host) = Inr sl \<and>
     allowed_admins (ld_server sl) \<noteq> []"
proof -
  obtain h sl where l: "server_load toy_crypto pair_server_toml h (server_config_file pair_host) = Inr sl"
    using pair_loads by blast
  from server_load_consistent[OF toy_argon2_lawful l] l show ?thesis by blast
qed

end
