(* ===== verification/Daemon_Control.thy ===== *)
theory Daemon_Control
  imports Cli_Common
begin

text \<open>
  What the \<open>up\<close> and \<open>down\<close> commands promise, abstractly: a state machine over the recorded pid,
  the processes and what was done to them, its invariant, and the refinement of its steps by
  \<open>spawn_daemon\<close> and \<open>stop_daemon\<close>. Both programs' daemons are instances. Births of unrelated
  processes are not steps of the machine.
\<close>

record daemon_view =
  dv_pid :: "u32 option"
  dv_procs :: "u32 \<rightharpoonup> string option"
  dv_actions :: "proc_action list"

definition view_of :: "string \<Rightarrow> host \<Rightarrow> daemon_view" where
  "view_of pid_path h = \<lparr>dv_pid = read_pid h pid_path, dv_procs = procs h, dv_actions = actions h\<rparr>"

definition named :: "string \<Rightarrow> string option \<Rightarrow> bool" where
  "named needle name \<longleftrightarrow> (case name of Some comm \<Rightarrow> contains comm needle | None \<Rightarrow> True)"

definition recorded :: "string \<Rightarrow> daemon_view \<Rightarrow> u32 option" where
  "recorded needle v =
     (case dv_pid v of
        None \<Rightarrow> None
      | Some pid \<Rightarrow> (case dv_procs v pid of
                      None \<Rightarrow> None
                    | Some name \<Rightarrow> if named needle name then Some pid else None))"

text \<open>
  One step: a daemon starts and stays, starts and dies at once, is signalled, a stale record is
  removed, or some process ends.
\<close>

inductive daemon_step :: "string \<Rightarrow> daemon_view \<Rightarrow> daemon_view \<Rightarrow> bool" for needle where
  start: "recorded needle v = None \<Longrightarrow> dv_procs v pid = None \<Longrightarrow> named needle name \<Longrightarrow>
    daemon_step needle v (v\<lparr>dv_pid := Some pid, dv_procs := (dv_procs v)(pid \<mapsto> name),
                           dv_actions := dv_actions v @ [Started args env pid]\<rparr>)"
| start_dies: "recorded needle v = None \<Longrightarrow> dv_procs v pid = None \<Longrightarrow>
    daemon_step needle v (v\<lparr>dv_pid := None, dv_actions := dv_actions v @ [Started args env pid]\<rparr>)"
| signal: "recorded needle v = Some pid \<Longrightarrow>
    daemon_step needle v (v\<lparr>dv_pid := None, dv_actions := dv_actions v @ [Signalled pid]\<rparr>)"
| clean_up: "recorded needle v = None \<Longrightarrow> daemon_step needle v (v\<lparr>dv_pid := None\<rparr>)"
| process_ends: "daemon_step needle v (v\<lparr>dv_procs := (dv_procs v)(pid := None)\<rparr>)"

inductive daemon_reach :: "string \<Rightarrow> daemon_view \<Rightarrow> daemon_view \<Rightarrow> bool" for needle where
  reach_refl: "daemon_reach needle v v"
| reach_step: "daemon_reach needle v v' \<Longrightarrow> daemon_step needle v' v'' \<Longrightarrow> daemon_reach needle v v''"

section \<open>At most one daemon\<close>

text \<open>The started processes that have not been told to stop, and those of them still alive.\<close>

primrec after_action :: "proc_action \<Rightarrow> u32 set \<Rightarrow> u32 set" where
  "after_action (Started args env pid) ps = insert pid ps"
| "after_action (Signalled pid) ps = ps - {pid}"

definition unsignalled :: "proc_action list \<Rightarrow> u32 set" where
  "unsignalled as = foldl (\<lambda>ps a. after_action a ps) {} as"

definition live_daemons :: "daemon_view \<Rightarrow> u32 set" where
  "live_daemons v = unsignalled (dv_actions v) \<inter> dom (dv_procs v)"

definition single_daemon :: "string \<Rightarrow> daemon_view \<Rightarrow> bool" where
  "single_daemon needle v \<longleftrightarrow> (\<forall>pid \<in> live_daemons v. recorded needle v = Some pid)"

lemma unsignalled_snoc [simp]: "unsignalled (as @ [a]) = after_action a (unsignalled as)"
  by (simp add: unsignalled_def)

lemma single_daemon_recorded:
  "single_daemon needle v \<Longrightarrow> recorded needle v = None \<Longrightarrow> live_daemons v = {}"
  by (auto simp: single_daemon_def)

lemma recorded_Some:
  "recorded needle v = Some pid \<longleftrightarrow> dv_pid v = Some pid \<and> (\<exists>name. dv_procs v pid = Some name \<and> named needle name)"
  by (auto simp: recorded_def split: option.splits)

lemma single_daemon_step: "daemon_step needle v v' \<Longrightarrow> single_daemon needle v \<Longrightarrow> single_daemon needle v'"
proof (induction rule: daemon_step.induct)
  case (start v pid name args env)
  from single_daemon_recorded[OF start(4,1)] have "unsignalled (dv_actions v) \<inter> dom (dv_procs v) = {}"
    by (simp add: live_daemons_def)
  then show ?case using start(3) by (auto simp: single_daemon_def live_daemons_def recorded_Some)
next
  case (start_dies v pid args env)
  from single_daemon_recorded[OF start_dies(3,1)] have "unsignalled (dv_actions v) \<inter> dom (dv_procs v) = {}"
    by (simp add: live_daemons_def)
  then show ?case using start_dies(2) by (auto simp: single_daemon_def live_daemons_def)
next
  case (signal v pid)
  then show ?case by (fastforce simp: single_daemon_def live_daemons_def)
next
  case (clean_up v)
  from single_daemon_recorded[OF clean_up(2,1)] show ?case
    by (auto simp: single_daemon_def live_daemons_def)
next
  case (process_ends v pid)
  then show ?case by (auto simp: single_daemon_def live_daemons_def recorded_Some)
qed

lemma single_daemon_reach: "daemon_reach needle v v' \<Longrightarrow> single_daemon needle v \<Longrightarrow> single_daemon needle v'"
  by (induction rule: daemon_reach.induct) (auto intro: single_daemon_step)

lemma single_daemon_card: "single_daemon needle v \<Longrightarrow> card (live_daemons v) \<le> 1"
proof -
  assume "single_daemon needle v"
  then have "live_daemons v \<subseteq> set_option (recorded needle v)" by (auto simp: single_daemon_def)
  then show ?thesis by (cases "recorded needle v") (auto dest: subset_singletonD)
qed

section \<open>The operations refine the steps\<close>

lemma running_recorded: "running_pid h pid_path needle = recorded needle (view_of pid_path h)"
  by (auto simp: running_pid_def recorded_def view_of_def is_alive_def process_name_matches_def named_def
      split: option.splits)

lemma write_pid_frame:
  "write_pid h p pid = (r, h') \<Longrightarrow> openable h p \<Longrightarrow> storable h p \<Longrightarrow>
     r = Inr () \<and> read_pid h' p = Some pid \<and> procs h' = procs h \<and> actions h' = actions h"
proof -
  assume w: "write_pid h p pid = (r, h')" and ok: "openable h p" "storable h p"
  then have "r = Inr ()"
    by (auto simp: write_pid_def write_str_def open_truncate_def write_all_def)
  with w write_pid_Inr show ?thesis by auto
qed

text \<open>
  Spawning with a writable pid file: nothing happens to the daemon, or it starts, or it starts
  and dies at once. The log must be another file.
\<close>

lemma spawn_daemon_step:
  assumes "spawn_daemon h child args pid_path log_path env = (r, h')"
    and "running_pid h pid_path needle = None" "log_path \<noteq> pid_path"
    and "openable h pid_path" "storable h pid_path"
    and "\<And>pid name survives. child = Some (pid, name, survives) \<Longrightarrow> procs h pid = None \<and> named needle name"
  shows "view_of pid_path h' = view_of pid_path h \<or> daemon_step needle (view_of pid_path h) (view_of pid_path h')"
proof -
  have rec: "recorded needle (view_of pid_path h) = None" using assms(2) by (simp add: running_recorded)
  have log: "read_pid h1 pid_path = read_pid h pid_path \<and> procs h1 = procs h \<and> actions h1 = actions h \<and>
      openable h1 = openable h \<and> storable h1 = storable h"
    if "open_log h log_path = Some h1" for h1
    using that assms(3) by (auto simp: open_log_def read_pid_def read_to_string_def split: if_splits)
  show ?thesis
  proof (cases "\<exists>h1 exe pid name survives. open_log h log_path = Some h1 \<and> exe_path h1 = Some exe \<and>
      child = Some (pid, name, survives)")
    case False
    then show ?thesis using assms(1) log
      by (auto simp: spawn_daemon_def view_of_def split: option.splits)
  next
    case True
    then obtain h1 exe pid name survives where h1: "open_log h log_path = Some h1" "exe_path h1 = Some exe"
      "child = Some (pid, name, survives)" by blast
    let ?h2 = "h1\<lparr>procs := (procs h1)(pid \<mapsto> name), actions := actions h1 @ [Started (exe # args) env pid]\<rparr>"
    obtain r3 h3 where w: "write_pid ?h2 pid_path pid = (r3, h3)" by fastforce
    from write_pid_frame[OF w] log[OF h1(1)] assms(4,5)
    have f: "r3 = Inr ()" "read_pid h3 pid_path = Some pid" "procs h3 = (procs h)(pid \<mapsto> name)"
      "actions h3 = actions h @ [Started (exe # args) env pid]" by auto
    have c: "dv_procs (view_of pid_path h) pid = None" "named needle name"
      using assms(6)[OF h1(3)] by (auto simp: view_of_def)
    show ?thesis
    proof (cases survives)
      case True
      then have "h' = h3" using assms(1) h1 w f(1,3) by (simp add: spawn_daemon_def is_alive_def)
      with daemon_step.start[OF rec c, of "exe # args" env] f show ?thesis by (simp add: view_of_def)
    next
      case False
      then have "h' = remove_file (h3\<lparr>procs := (procs h3)(pid := None)\<rparr>) pid_path"
        using assms(1) h1 w f(1) by (simp add: spawn_daemon_def is_alive_def)
      moreover have "(procs h)(pid := None) = procs h" using c(1) by (auto simp: view_of_def)
      ultimately show ?thesis
        using daemon_step.start_dies[OF rec c(1), of "exe # args" env] f by (simp add: view_of_def)
    qed
  qed
qed

lemma stop_daemon_step:
  assumes "stop_daemon h pid_path needle label = (r, h')"
  shows "view_of pid_path h' = view_of pid_path h \<or> daemon_step needle (view_of pid_path h) (view_of pid_path h')"
proof (cases "running_pid h pid_path needle")
  case None
  then have "view_of pid_path h' = view_of pid_path h\<lparr>dv_pid := None\<rparr>"
    using assms by (auto simp: stop_daemon_def running_pid_def view_of_def split: option.splits if_splits)
  with daemon_step.clean_up[of needle "view_of pid_path h"] None show ?thesis
    by (simp add: running_recorded)
next
  case (Some pid)
  then have "read_pid h pid_path = Some pid" "is_alive h pid" "process_name_matches h pid needle"
    by (auto simp: running_pid_def split: option.splits if_splits)
  then have "view_of pid_path h' = view_of pid_path h \<or>
      view_of pid_path h' = view_of pid_path h\<lparr>dv_pid := None, dv_actions := actions h @ [Signalled pid]\<rparr>"
    using assms by (auto simp: stop_daemon_def view_of_def kill_Inr dest!: kill_Inl split: sum.splits prod.splits)
  with daemon_step.signal[of needle "view_of pid_path h" pid] Some show ?thesis
    by (auto simp: running_recorded view_of_def)
qed

text \<open>With at most one daemon, a stop that succeeds leaves none.\<close>

lemma stop_leaves_none:
  assumes "single_daemon needle (view_of p h)" "stop_daemon h p needle label = (Inr (), h')"
  shows "live_daemons (view_of p h') = {}"
proof (cases "running_pid h p needle")
  case None
  then have "procs h' = procs h" "actions h' = actions h"
    using assms(2) by (auto simp: stop_daemon_def running_pid_def split: option.splits if_splits)
  moreover have "live_daemons (view_of p h) = {}"
    using single_daemon_recorded[OF assms(1)] None by (simp add: running_recorded)
  ultimately show ?thesis by (simp add: live_daemons_def view_of_def)
next
  case (Some pid)
  then have "read_pid h p = Some pid" "is_alive h pid \<and> process_name_matches h pid needle"
    by (auto simp: running_pid_def split: option.splits if_splits)
  then have "procs h' = procs h" "actions h' = actions h @ [Signalled pid]"
    using assms(2) by (auto simp: stop_daemon_def kill_Inr split: sum.splits prod.splits)
  moreover have "live_daemons (view_of p h) \<subseteq> {pid}"
    using assms(1) Some by (auto simp: single_daemon_def running_recorded)
  ultimately show ?thesis by (auto simp: live_daemons_def view_of_def)
qed

section \<open>Two at once\<close>

text \<open>
  A session runs one command after the other. Two \<open>up\<close>s at the same time can both find no daemon
  and then both start one: the pid file names the second, and a \<open>down\<close> that succeeds stops that
  one and leaves the first running, with no record of it.
\<close>

theorem concurrent_ups_start_two:
  assumes "running_pid h pid_path needle = None" "actions h = []"
    and "spawn_daemon h (Some (p1, n1, True)) args1 pid_path log_path env1 = (Inr p1, h1)"
    and "spawn_daemon h1 (Some (p2, n2, True)) args2 pid_path log_path env2 = (Inr p2, h2)"
    and "p1 \<noteq> p2" "named needle n2"
  shows "{p1, p2} \<subseteq> live_daemons (view_of pid_path h2) \<and> running_pid h2 pid_path needle = Some p2 \<and>
    (\<forall>h3. stop_daemon h2 pid_path needle label = (Inr (), h3) \<longrightarrow>
       p1 \<in> live_daemons (view_of pid_path h3) \<and> running_pid h3 pid_path needle = None)"
proof -
  obtain exe1 where s1: "procs h1 = (procs h)(p1 \<mapsto> n1)" "actions h1 = [Started (exe1 # args1) env1 p1]"
    by (rule spawn_daemon_Inr[OF assms(3)]) (auto simp: assms(2))
  obtain exe2 where s2: "read_pid h2 pid_path = Some p2" "procs h2 = (procs h1)(p2 \<mapsto> n2)"
    "actions h2 = actions h1 @ [Started (exe2 # args2) env2 p2]"
    by (rule spawn_daemon_Inr[OF assms(4)]) auto
  have u: "unsignalled (actions h2) = {p1, p2}" unfolding s1 s2 unsignalled_def by auto
  have live: "{p1, p2} \<subseteq> live_daemons (view_of pid_path h2)"
    unfolding live_daemons_def view_of_def daemon_view.select_convs u using assms(5) by (auto simp: s1 s2)
  have alive: "is_alive h2 p2" "process_name_matches h2 p2 needle"
    using assms(6) by (auto simp: is_alive_def process_name_matches_def named_def s2 split: option.splits)
  then have run: "running_pid h2 pid_path needle = Some p2" by (simp add: running_pid_def s2)
  have "p1 \<in> live_daemons (view_of pid_path h3) \<and> running_pid h3 pid_path needle = None"
    if "stop_daemon h2 pid_path needle label = (Inr (), h3)" for h3
  proof -
    from that alive have "procs h3 = procs h2" "actions h3 = actions h2 @ [Signalled p2]" "read_pid h3 pid_path = None"
      by (auto simp: stop_daemon_def s2(1) kill_Inr split: sum.splits prod.splits)
    moreover have "p1 \<in> unsignalled (actions h3)" unfolding calculation(2) unsignalled_snoc u using assms(5) by simp
    ultimately show ?thesis
      using assms(5) by (auto simp: live_daemons_def view_of_def s1(1) s2(2) running_pid_def)
  qed
  with live run show ?thesis by blast
qed

section \<open>Commands\<close>

text \<open>A command's output, line by line.\<close>

definition println_all :: "host \<Rightarrow> string list \<Rightarrow> host" where
  "println_all h lines = foldl println h lines"

lemma println_all_simps [simp]:
  "println_all h [] = h"
  "files (println_all h ls) = files h" "procs (println_all h ls) = procs h" "actions (println_all h ls) = actions h"
  by (induction ls arbitrary: h) (simp_all add: println_all_def)

lemma same_machine_println_all: "same_machine h g \<Longrightarrow> same_machine h (println_all g ls)"
  by (induction ls arbitrary: g) (simp_all add: println_all_def same_machine_steps)

lemma view_println [simp]: "view_of p (println_all h ls) = view_of p h" "view_of p (println h l) = view_of p h"
  by (simp_all add: view_of_def read_pid_def read_to_string_def)

text \<open>\<open>print!\<close> of a text that ends with its last line.\<close>

definition print_text :: "host \<Rightarrow> string \<Rightarrow> host" where
  "print_text h s = println_all h (butlast (split_on (CHR 0x0A) s))"

text \<open>
  What either program's \<open>up\<close> leaves behind when it does not stay in the foreground: nothing, or
  what \<open>spawn_daemon\<close> left, reached with no daemon running, with these arguments and with the
  passphrase, if it was asked for, in an environment variable that was not set.
\<close>

definition typed_secret :: "host \<Rightarrow> (string \<times> string) option \<Rightarrow> bool" where
  "typed_secret h env \<longleftrightarrow>
     (case env of None \<Rightarrow> True | Some (var, p) \<Rightarrow> prompt_reply h = Some p \<and> env_vars h var = None)"

definition background_outcome ::
    "string \<Rightarrow> string \<Rightarrow> string \<Rightarrow> string list \<Rightarrow> spawn_outcome \<Rightarrow> host \<Rightarrow> host \<Rightarrow> bool" where
  "background_outcome needle pid_path log_path args child h h' \<longleftrightarrow>
     h' = h \<or>
     (running_pid h pid_path needle = None \<and>
      (\<exists>env r h1 ls. spawn_daemon h child args pid_path log_path env = (r, h1) \<and> h' = println_all h1 ls \<and>
         typed_secret h env))"

text \<open>A fresh process has a pid that is not in use and carries the program's name.\<close>

definition fresh_child :: "string \<Rightarrow> host \<Rightarrow> spawn_outcome \<Rightarrow> bool" where
  "fresh_child needle h child \<longleftrightarrow>
     (case child of Some (pid, name, survives) \<Rightarrow> procs h pid = None \<and> named needle name | None \<Rightarrow> True)"

lemma background_machine: "background_outcome needle p l args child h h' \<Longrightarrow> same_machine h h'"
  unfolding background_outcome_def by (metis same_machine_println_all same_machine_refl spawn_daemon_machine)

lemma background_step:
  assumes "background_outcome needle p l args child h h'" "fresh_child needle h child" "l \<noteq> p"
    and "openable h p" "storable h p"
  shows "view_of p h' = view_of p h \<or> daemon_step needle (view_of p h) (view_of p h')"
proof (cases "h' = h")
  case False
  with assms(1) obtain env r h1 ls where s: "running_pid h p needle = None"
    "spawn_daemon h child args p l env = (r, h1)" "h' = println_all h1 ls"
    by (auto simp: background_outcome_def)
  have "procs h pid = None \<and> named needle name" if "child = Some (pid, name, survives)" for pid name survives
    using assms(2) that by (simp add: fresh_child_def)
  from spawn_daemon_step[OF s(2,1) assms(3-5) this] s(3) show ?thesis by simp
qed simp

lemma spawn_daemon_actions:
  "spawn_daemon h child args p l env = (r, h') \<Longrightarrow>
     actions h' = actions h \<or> (\<exists>exe pid. exe_path h = Some exe \<and> actions h' = actions h @ [Started (exe # args) env pid])"
  using write_str_frame
  by (fastforce simp: spawn_daemon_def open_log_def write_pid_def Let_def
      split: option.splits if_splits prod.splits sum.splits)

lemma spawn_daemon_result:
  "spawn_daemon h child args p l env = (r, h') \<Longrightarrow>
     (actions h' = actions h \<and> (\<exists>e. r = Inl e)) \<or>
     (\<exists>exe pid. exe_path h = Some exe \<and> actions h' = actions h @ [Started (exe # args) env pid] \<and>
        (r = Inr pid \<or> (\<exists>e. r = Inl e)))"
  using write_str_frame
  by (fastforce simp: spawn_daemon_def open_log_def write_pid_def Let_def
      split: option.splits if_splits prod.splits sum.splits)


text \<open>
  A command that leaves a daemon alone: nothing but files, output and its own process's environment
  changes, and not the pid file.
\<close>

definition quiet :: "string \<Rightarrow> host \<Rightarrow> host \<Rightarrow> bool" where
  "quiet p h h' \<longleftrightarrow>
     same_machine h h' \<and> procs h' = procs h \<and> actions h' = actions h \<and> files h' p = files h p"

lemma quiet_refl [simp]: "quiet p h h"
  by (simp add: quiet_def)

lemma quiet_trans: "quiet p h h' \<Longrightarrow> quiet p h' h'' \<Longrightarrow> quiet p h h''"
  unfolding quiet_def using same_machine_trans by metis

lemma quiet_println [simp]:
  "quiet p h (println g l) \<longleftrightarrow> quiet p h g" "quiet p (println h l) g \<longleftrightarrow> quiet p h g"
  by (auto simp: quiet_def same_machine_def println_def)

lemma quiet_println_all [simp]: "quiet p h (println_all g ls) \<longleftrightarrow> quiet p h g"
  by (induction ls arbitrary: g) (simp_all add: println_all_def)

lemma quiet_view: "quiet p h h' \<Longrightarrow> view_of p h' = view_of p h"
  by (simp add: quiet_def view_of_def read_pid_def read_to_string_def)

lemma quiet_open_truncate: "open_truncate h q m = Some h' \<Longrightarrow> q \<noteq> p \<Longrightarrow> quiet p h h'"
  by (auto simp: open_truncate_def quiet_def same_machine_def split: if_splits)

lemma quiet_write_all: "write_all h q contents = Some h' \<Longrightarrow> q \<noteq> p \<Longrightarrow> quiet p h h'"
  by (auto simp: write_all_def quiet_def same_machine_def split: if_splits)

lemma quiet_write_str: "write_str h q contents = (r, h') \<Longrightarrow> q \<noteq> p \<Longrightarrow> quiet p h h'"
  by (auto simp: write_str_def split: option.splits
      intro: quiet_open_truncate quiet_write_all quiet_trans)

lemma quiet_write_secret:
  assumes "write_secret h q contents = (r, h')" "q \<noteq> p"
  shows "quiet p h h'"
proof -
  have chmod: "quiet p h (g\<lparr>modes := m\<rparr>)" if "quiet p h g" for g m
    using that by (simp add: quiet_def same_machine_def)
  show ?thesis using assms
    by (auto simp: write_secret_def write_secret_states_def split: option.splits if_splits intro!: chmod)
       (meson quiet_trans quiet_open_truncate quiet_write_all quiet_refl)+
qed

lemma spawn_daemon_files:
  assumes "spawn_daemon h child args pid_path log_path env = (r, h')" "q \<noteq> pid_path" "q \<noteq> log_path"
  shows "files h' q = files h q"
  using assms
  by (auto simp: spawn_daemon_def open_log_def write_pid_def Let_def
      split: option.splits if_splits prod.splits sum.splits dest!: write_str_frame)

text \<open>
  The host as a started process sees it: its parent's, with the variable it was given, and without
  the terminal that would answer a prompt as it did for the parent.
\<close>

definition child_host :: "host \<Rightarrow> (string \<times> string) option \<Rightarrow> string option \<Rightarrow> host" where
  "child_host h env reply =
     h\<lparr>env_vars := (case env of Some (var, value) \<Rightarrow> (env_vars h)(var \<mapsto> value) | None \<Rightarrow> env_vars h),
       prompt_reply := reply\<rparr>"

lemma expand_home_env: "env_vars h' = env_vars h \<Longrightarrow> expand_home h' p = expand_home h p"
  by (simp add: expand_home_def home_dir_def cong: option.case_cong)

text \<open>A process's own environment goes with it.\<close>

definition process_end :: "host \<Rightarrow> host \<Rightarrow> host" where
  "process_end h h1 = h1\<lparr>env_vars := env_vars h\<rparr>"

lemma process_end_view [simp]: "view_of p (process_end h h1) = view_of p h1"
  by (simp add: process_end_def view_of_def read_pid_def read_to_string_def)

lemma process_end_machine: "same_machine h h1 \<Longrightarrow> process_end h h1 = h1"
  by (simp add: process_end_def same_machine_def)

lemma process_end_variable: "same_machine h (process_end h (h\<lparr>env_vars := e\<rparr>))"
  by (simp add: process_end_def same_machine_def)

section \<open>Sessions\<close>

text \<open>Any sequence of a program's commands and of processes ending.\<close>

inductive daemon_session :: "(host \<Rightarrow> host \<Rightarrow> bool) \<Rightarrow> host \<Rightarrow> host \<Rightarrow> bool" for command h0 where
  begin_session: "daemon_session command h0 h0"
| session_command: "daemon_session command h0 h \<Longrightarrow> command h h' \<Longrightarrow> daemon_session command h0 h'"
| process_exit: "daemon_session command h0 h \<Longrightarrow> daemon_session command h0 (h\<lparr>procs := (procs h)(pid := None)\<rparr>)"

text \<open>
  The contract of a program with a daemon: its commands stay on their machine and refine the
  steps, as long as the pid file can be written.
\<close>

locale daemon_program =
  fixes command :: "host \<Rightarrow> host \<Rightarrow> bool" and pid_file :: "host \<Rightarrow> string" and needle :: string
  assumes command_machine: "command h h' \<Longrightarrow> same_machine h h'"
    and pid_file_machine: "same_machine h h' \<Longrightarrow> pid_file h' = pid_file h"
    and command_refines: "command h h' \<Longrightarrow> openable h (pid_file h) \<Longrightarrow> storable h (pid_file h) \<Longrightarrow>
      view_of (pid_file h) h' = view_of (pid_file h) h \<or>
      daemon_step needle (view_of (pid_file h) h) (view_of (pid_file h) h')"
begin

lemma session_reach:
  assumes "daemon_session command h0 h" "openable h0 (pid_file h0)" "storable h0 (pid_file h0)"
  shows "same_machine h0 h \<and> daemon_reach needle (view_of (pid_file h0) h0) (view_of (pid_file h0) h)"
  using assms(1)
proof (induction rule: daemon_session.induct)
  case begin_session
  show ?case by (simp add: daemon_reach.reach_refl)
next
  case (session_command h h')
  then have pid: "pid_file h = pid_file h0" using pid_file_machine by blast
  moreover have "openable h = openable h0 \<and> storable h = storable h0"
    using session_command(3) by (simp add: same_machine_def)
  ultimately show ?case
    using command_refines[OF session_command(2)] command_machine[OF session_command(2)] session_command(3) assms(2,3)
    by (auto intro: reach_step same_machine_trans)
next
  case (process_exit h pid)
  have "view_of (pid_file h0) (h\<lparr>procs := (procs h)(pid := None)\<rparr>) =
      (view_of (pid_file h0) h)\<lparr>dv_procs := (dv_procs (view_of (pid_file h0) h))(pid := None)\<rparr>"
    by (simp add: view_of_def read_pid_def read_to_string_def)
  then show ?case using process_exit(2)
    by (auto intro: reach_step daemon_step.process_ends simp: same_machine_def)
qed

lemma session_single:
  assumes "daemon_session command h0 h" "actions h0 = []" "openable h0 (pid_file h0)" "storable h0 (pid_file h0)"
  shows "single_daemon needle (view_of (pid_file h) h)"
proof -
  have "single_daemon needle (view_of (pid_file h0) h0)"
    using assms(2) by (simp add: single_daemon_def live_daemons_def view_of_def unsignalled_def)
  from single_daemon_reach[OF _ this] session_reach[OF assms(1,3,4)] pid_file_machine[of h0 h]
  show ?thesis by simp
qed

lemma at_most_one:
  assumes "daemon_session command h0 h" "actions h0 = []" "openable h0 (pid_file h0)" "storable h0 (pid_file h0)"
  shows "card (live_daemons (view_of (pid_file h) h)) \<le> 1 \<and>
     live_daemons (view_of (pid_file h) h) \<subseteq> set_option (running_pid h (pid_file h) needle) \<and>
     (\<forall>label h'. stop_daemon h (pid_file h) needle label = (Inr (), h') \<longrightarrow> live_daemons (view_of (pid_file h) h') = {})"
proof -
  note single = session_single[OF assms]
  have "live_daemons (view_of (pid_file h) h) \<subseteq> set_option (running_pid h (pid_file h) needle)"
    using single unfolding single_daemon_def running_recorded by auto
  then show ?thesis using single_daemon_card[OF single] stop_leaves_none[OF single] by blast
qed

end

end
