(* ===== verification/Route_Script.thy ===== *)
theory Route_Script
  imports Net_Addr "HOL-Library.Multiset"
begin

text \<open>
  The shell script of \<open>print-routes\<close>, \<open>hyperion-vpn-client/src/routes.rs\<close>: the commands for
  each server address, and their text. What the \<open>ip\<close> tool and the kernel make of a policy rule
  is not part of the repository: whether a rule selects a packet is a parameter, a function of
  the rule, the packet's destination and its firewall mark.
\<close>

record route_params =
  rp_server_ips :: "ipaddr list"
  rp_dev :: string
  rp_mark :: u32
  rp_table :: u32
  rp_priority :: u32
  rp_down :: bool

record ip_rule =
  ir_to :: ipaddr
  ir_not_fwmark :: u32
  ir_lookup :: u32
  ir_priority :: u32

record ip_route =
  it_dest :: ipaddr
  it_dev :: string
  it_table :: u32

datatype ip_command = RuleDel ip_rule | RouteDel ip_route | RouteAdd ip_route | RuleAdd ip_rule

definition server_rule :: "route_params \<Rightarrow> ipaddr \<Rightarrow> ip_rule" where
  "server_rule p ip = \<lparr>ir_to = ip, ir_not_fwmark = rp_mark p, ir_lookup = rp_table p, ir_priority = rp_priority p\<rparr>"

definition server_route :: "route_params \<Rightarrow> ipaddr \<Rightarrow> ip_route" where
  "server_route p ip = \<lparr>it_dest = ip, it_dev = rp_dev p, it_table = rp_table p\<rparr>"

definition commands_for :: "route_params \<Rightarrow> ipaddr \<Rightarrow> ip_command list" where
  "commands_for p ip =
     (if rp_down p then [RuleDel (server_rule p ip), RouteDel (server_route p ip)]
      else [RouteAdd (server_route p ip), RuleAdd (server_rule p ip)])"

definition script_commands :: "route_params \<Rightarrow> ip_command list" where
  "script_commands p = concat (map (commands_for p) (rp_server_ips p))"

section \<open>The text\<close>

definition hex_u32 :: "u32 \<Rightarrow> string" where
  "hex_u32 w = ''0x'' @ nat_to_hex (unat w)"

definition dec_u32 :: "u32 \<Rightarrow> string" where
  "dec_u32 w = nat_to_dec (unat w)"

definition render_rule :: "string \<Rightarrow> ip_rule \<Rightarrow> string" where
  "render_rule verb r =
     ''ip rule '' @ verb @ '' to '' @ ip_to_string (ir_to r) @ ''/32 not fwmark '' @ hex_u32 (ir_not_fwmark r) @
     '' lookup '' @ dec_u32 (ir_lookup r) @ '' priority '' @ dec_u32 (ir_priority r)"

definition render_route :: "string \<Rightarrow> ip_route \<Rightarrow> string" where
  "render_route verb r =
     ''ip route '' @ verb @ '' '' @ ip_to_string (it_dest r) @ ''/32 dev '' @ it_dev r @
     '' table '' @ dec_u32 (it_table r)"

fun render :: "ip_command \<Rightarrow> string" where
  "render (RuleDel r) = render_rule ''del'' r"
| "render (RouteDel r) = render_route ''del'' r"
| "render (RouteAdd r) = render_route ''add'' r"
| "render (RuleAdd r) = render_rule ''add'' r"

definition script_header :: "route_params \<Rightarrow> string list" where
  "script_header p =
     [''#!/bin/sh'', ''set -e''] @
     (if rp_down p then [''# Hyperion L3 TUN routing '' @ em_dash @ '' teardown'']
      else [''# Hyperion L3 TUN routing '' @ em_dash @ '' route each server IP via '' @ [CHR 0x27] @ rp_dev p @
              [CHR 0x27] @ '', except the tunnel'' @ [CHR 0x27] @ ''s own'',
            ''# (SO_MARK '' @ hex_u32 (rp_mark p) @ '') sockets, which keep the physical route.''])"

definition script :: "route_params \<Rightarrow> string" where
  "script p = concat (map (\<lambda>line. line @ newline) (script_header p @ map render (script_commands p)))"

section \<open>Setup and teardown\<close>

fun undo :: "ip_command \<Rightarrow> ip_command" where
  "undo (RouteAdd r) = RouteDel r"
| "undo (RuleAdd r) = RuleDel r"
| "undo (RouteDel r) = RouteAdd r"
| "undo (RuleDel r) = RuleAdd r"

lemma commands_for_undo:
  "\<not> rp_down p \<Longrightarrow> commands_for (p\<lparr>rp_down := True\<rparr>) ip = rev (map undo (commands_for p ip))"
  by (simp add: commands_for_def server_rule_def server_route_def)

lemma set_script_commands: "set (script_commands p) = (\<Union>ip \<in> set (rp_server_ips p). set (commands_for p ip))"
  by (simp add: script_commands_def)

text \<open>
  Teardown mirrors setup. The script with \<open>--down\<close> deletes exactly what the script without
  it adds, with the same addresses, device, mark, table and priority, each as often as it was
  added; per server the route is there before the rule that uses it and the rule goes before
  the route.
\<close>

theorem teardown_mirrors_setup:
  assumes "\<not> rp_down p"
  shows "mset (script_commands (p\<lparr>rp_down := True\<rparr>)) = mset (map undo (script_commands p)) \<and>
         (\<forall>ip \<in> set (rp_server_ips p).
            (\<exists>xs ys. script_commands p = xs @ [RouteAdd (server_route p ip), RuleAdd (server_rule p ip)] @ ys) \<and>
            (\<exists>xs ys. script_commands (p\<lparr>rp_down := True\<rparr>) =
               xs @ [RuleDel (server_rule p ip), RouteDel (server_route p ip)] @ ys))"
proof -
  let ?q = "p\<lparr>rp_down := True\<rparr>"
  have "mset (concat (map (commands_for ?q) ips)) = mset (map undo (concat (map (commands_for p) ips)))" for ips
    by (induction ips) (simp_all add: commands_for_undo[OF assms])
  moreover have split: "\<exists>xs ys. script_commands q = xs @ commands_for q ip @ ys" if "ip \<in> set (rp_server_ips q)" for q ip
  proof -
    from that obtain as bs where "rp_server_ips q = as @ ip # bs" by (meson split_list)
    then show ?thesis by (auto simp: script_commands_def)
  qed
  moreover have "commands_for ?q ip = [RuleDel (server_rule p ip), RouteDel (server_route p ip)]"
    "commands_for p ip = [RouteAdd (server_route p ip), RuleAdd (server_rule p ip)]" for ip
    using assms by (simp_all add: commands_for_def server_rule_def server_route_def)
  ultimately show ?thesis using split[of _ p] split[of _ ?q] by (auto simp: script_commands_def)
qed

definition sample_routes :: route_params where
  "sample_routes =
     \<lparr>rp_server_ips = [IpV4 (Ipv4Addr 203 0 113 10), IpV4 (Ipv4Addr 203 0 113 11)], rp_dev = ''hyperion0'',
      rp_mark = 0x6879, rp_table = 26745, rp_priority = 100, rp_down = False\<rparr>"

theorem teardown_mirrors_setup_witness:
  "mset (script_commands (sample_routes\<lparr>rp_down := True\<rparr>)) = mset (map undo (script_commands sample_routes))"
proof -
  have "\<not> rp_down sample_routes" by (simp add: sample_routes_def)
  from teardown_mirrors_setup[OF this] show ?thesis by (rule conjunct1)
qed

section \<open>The tunnel's own packets\<close>

text \<open>The \<open>not\<close> of a policy rule negates its whole selector (\<open>FIB_RULE_INVERT\<close>).\<close>

definition inverts_selector :: "(ip_rule \<Rightarrow> ipaddr \<Rightarrow> u32 \<Rightarrow> bool) \<Rightarrow> bool" where
  "inverts_selector selects \<longleftrightarrow> (\<forall>r dst m. selects r dst m \<longleftrightarrow> \<not> (dst = ir_to r \<and> m = ir_not_fwmark r))"

text \<open>
  With two servers the tunnel loops. Where \<open>not\<close> negates the whole selector, a packet that
  the tunnel's own marked socket sends to a server is selected by some rule of the script, into
  the table whose route for that server leads into the TUN device, exactly when the script
  covers another server as well; with one server the packet keeps the physical route, and a
  packet of anyone else to a server always goes into the device.
\<close>

theorem own_packets_rerouted_with_two_servers:
  assumes "inverts_selector selects" "\<not> rp_down p" "ip \<in> set (rp_server_ips p)"
  shows "((\<exists>r. RuleAdd r \<in> set (script_commands p) \<and> selects r ip (rp_mark p) \<and>
              (\<exists>t. RouteAdd t \<in> set (script_commands p) \<and> it_dest t = ip \<and> it_table t = ir_lookup r \<and> it_dev t = rp_dev p)) \<longleftrightarrow>
           (\<exists>ip' \<in> set (rp_server_ips p). ip' \<noteq> ip)) \<and>
         (m \<noteq> rp_mark p \<longrightarrow> (\<exists>r. RuleAdd r \<in> set (script_commands p) \<and> selects r ip m))"
proof -
  have rules: "RuleAdd r \<in> set (script_commands p) \<longleftrightarrow> (\<exists>i \<in> set (rp_server_ips p). r = server_rule p i)" for r
    using assms(2) by (auto simp: set_script_commands commands_for_def)
  have routes: "RouteAdd (server_route p ip) \<in> set (script_commands p)"
    using assms(2,3) by (auto simp: set_script_commands commands_for_def)
  have sel: "selects (server_rule p i) ip m' \<longleftrightarrow> \<not> (ip = i \<and> m' = rp_mark p)" for i m'
    using assms(1) by (simp add: inverts_selector_def server_rule_def)
  have "\<exists>t. RouteAdd t \<in> set (script_commands p) \<and> it_dest t = ip \<and> it_table t = ir_lookup (server_rule p i) \<and> it_dev t = rp_dev p" for i
    using routes by (intro exI[of _ "server_route p ip"]) (simp add: server_rule_def server_route_def)
  then have "(\<exists>r. RuleAdd r \<in> set (script_commands p) \<and> selects r ip (rp_mark p) \<and>
              (\<exists>t. RouteAdd t \<in> set (script_commands p) \<and> it_dest t = ip \<and> it_table t = ir_lookup r \<and> it_dev t = rp_dev p)) \<longleftrightarrow>
      (\<exists>i \<in> set (rp_server_ips p). selects (server_rule p i) ip (rp_mark p))"
    unfolding rules by blast
  also have "\<dots> \<longleftrightarrow> (\<exists>ip' \<in> set (rp_server_ips p). ip' \<noteq> ip)" by (auto simp: sel)
  finally show ?thesis using rules sel assms(3) by blast
qed

theorem own_packets_rerouted_with_two_servers_witness:
  "\<exists>r. RuleAdd r \<in> set (script_commands sample_routes) \<and>
       \<not> (IpV4 (Ipv4Addr 203 0 113 10) = ir_to r \<and> 0x6879 = ir_not_fwmark r)"
proof -
  have law: "inverts_selector (\<lambda>r dst m. \<not> (dst = ir_to r \<and> m = ir_not_fwmark r))"
    by (simp add: inverts_selector_def)
  have up: "\<not> rp_down sample_routes" by (simp add: sample_routes_def)
  have mem: "IpV4 (Ipv4Addr 203 0 113 10) \<in> set (rp_server_ips sample_routes)" by (simp add: sample_routes_def)
  have mark: "rp_mark sample_routes = 0x6879" by (simp add: sample_routes_def)
  have "\<exists>ip' \<in> set (rp_server_ips sample_routes). ip' \<noteq> IpV4 (Ipv4Addr 203 0 113 10)"
    by (simp add: sample_routes_def)
  with own_packets_rerouted_with_two_servers[OF law up mem, of 0] show ?thesis unfolding mark by blast
qed

end
