(* ===== verification/Client_Commands.thy ===== *)
theory Client_Commands
  imports Paired_Setup Daemon_Control Route_Script
begin

text \<open>
  The client's commands: \<open>run\<close>, \<open>doctor\<close>, \<open>keygen\<close> and \<open>print-routes\<close> of \<open>main.rs\<close>, the two TUN
  modes of \<open>tunmode.rs\<close>, and \<open>up\<close>, \<open>down\<close>, \<open>status\<close> of \<open>daemon.rs\<close>. A \<open>HashMap\<close> is iterated in
  an order of its own: where the code iterates over the servers, the order is an argument, a
  list of the same entries. Pools are named by what they were built from; the TUN device and
  the user-space IP stack are events.
\<close>

record managed_pool =
  mp_addr :: socket_addr
  mp_params :: tunnel_params
  mp_slots :: nat

definition start_pool :: "socket_addr \<Rightarrow> tunnel_params \<Rightarrow> nat \<Rightarrow> managed_pool" where
  "start_pool addr params n = \<lparr>mp_addr = addr, mp_params = params, mp_slots = pool_size (build_pool addr params n :: unit pool)\<rparr>"

section \<open>Local forwards\<close>

fun parse_specs :: "string list \<Rightarrow> forward_entry list any" where
  "parse_specs [] = Inr []"
| "parse_specs (spec # specs) =
     any_bind (parse_forward_spec spec) (\<lambda>f. any_bind (parse_specs specs) (\<lambda>fs. Inr (f # fs)))"

fun start_forwards ::
    "(string \<rightharpoonup> managed_pool) \<Rightarrow> (socket_addr \<Rightarrow> bool) \<Rightarrow> forward_entry list \<Rightarrow>
     (socket_addr \<times> managed_pool \<times> u16) list any" where
  "start_forwards pools bindable [] = Inr []"
| "start_forwards pools bindable (fwd # fwds) =
     any_bind (option_context (''forward references unknown server: '' @ fe_server fwd) (pools (fe_server fwd))) (\<lambda>pool.
     if \<not> bindable (fe_local fwd) then Inl (''binding local forward '' @ sock_to_string (fe_local fwd))
     else any_bind (start_forwards pools bindable fwds) (\<lambda>tasks.
       Inr ((fe_local fwd, pool, fe_remote_port fwd) # tasks)))"

definition client_run ::
    "crypto \<Rightarrow> client_file toml \<Rightarrow> host \<Rightarrow> string \<Rightarrow> string list \<Rightarrow> (socket_addr \<Rightarrow> bool) \<Rightarrow>
     (socket_addr \<times> managed_pool \<times> u16) list any" where
  "client_run C T h config_path extra_forwards bindable =
     any_bind (client_load C T h config_path) (\<lambda>cfg.
     any_bind (parse_specs extra_forwards) (\<lambda>extra.
     let forwards = lc_forwards cfg @ extra in
     if forwards = [] then Inl ''no forwards configured (use [[forward]] in config or -L)''
     else any_bind (check_duplicate_locals forwards) (\<lambda>_.
       let pools = map_of (map (\<lambda>(name, e). (name, start_pool (se_addr e) (se_params e) (se_pool_size e)))
                           (lc_servers cfg)) in
       start_forwards pools bindable forwards)))"

section \<open>The connectivity check\<close>

fun error_display :: "(io_error \<Rightarrow> string) \<Rightarrow> error \<Rightarrow> string" where
  "error_display show_io (Io e) = ''io error: '' @ show_io e"
| "error_display show_io Handshake = ''handshake failed''"
| "error_display show_io Unauthorized = ''peer is not an authorized admin''"
| "error_display show_io (Protocol s) = ''protocol violation: '' @ s"
| "error_display show_io (EgressDenied s) = ''destination not permitted: '' @ s"

datatype dial_outcome = DialOk | DialFailed error | DialTimeout

fun doctor_line :: "(io_error \<Rightarrow> string) \<Rightarrow> dial_outcome \<Rightarrow> string" where
  "doctor_line show_io DialOk = ''ok (knock + handshake)''"
| "doctor_line show_io (DialFailed e) = ''FAIL: '' @ error_display show_io e"
| "doctor_line show_io DialTimeout = ''FAIL: timed out''"

fun doctor_loop ::
    "(io_error \<Rightarrow> string) \<Rightarrow> (server_entry \<Rightarrow> dial_outcome) \<Rightarrow> (string \<times> server_entry) list \<Rightarrow> bool \<times> string list" where
  "doctor_loop show_io probe [] = (True, [])"
| "doctor_loop show_io probe ((name, e) # rest) =
     (case doctor_loop show_io probe rest of (ok, lines) \<Rightarrow>
        (probe e = DialOk \<and> ok,
         (name @ '' ('' @ sock_to_string (se_addr e) @ '') ... '' @ doctor_line show_io (probe e)) # lines))"

definition doctor ::
    "crypto \<Rightarrow> client_file toml \<Rightarrow> host \<Rightarrow> string \<Rightarrow> ((string \<times> server_entry) list \<Rightarrow> (string \<times> server_entry) list) \<Rightarrow>
     (io_error \<Rightarrow> string) \<Rightarrow> (server_entry \<Rightarrow> dial_outcome) \<Rightarrow> unit any \<times> string list" where
  "doctor C T h config_path iterate show_io probe =
     (case client_load C T h config_path of
        Inl e \<Rightarrow> (Inl e, [])
      | Inr cfg \<Rightarrow>
          if lc_servers cfg = [] then (Inl ''no servers configured'', [])
          else (case doctor_loop show_io probe (iterate (lc_servers cfg)) of (all_ok, lines) \<Rightarrow>
            (if all_ok then Inr () else Inl ''one or more servers failed the connectivity check'', lines)))"

section \<open>Keys and routes\<close>

definition client_init :: "crypto \<Rightarrow> client_file toml \<Rightarrow> host \<Rightarrow> bool \<Rightarrow> bytes \<Rightarrow> bytes \<Rightarrow> unit any \<times> host" where
  "client_init C T h force random1 random2 =
     (case client_init_config C T h force random1 random2 of
        (Inl e, h1) \<Rightarrow> (Inl e, h1)
      | (Inr (path, admin_pubkey, salt), h1) \<Rightarrow> (Inr (), println_all h1
          [''hyperion initialized.'', '''', ''config:  '' @ path, '''',
           ''admin public key (allow-list this on every server):'', ''  '' @ admin_pubkey, '''',
           ''shared salt (put the SAME salt in every server's [key].salt):'', ''  '' @ salt, '''',
           ''next steps:'',
           ''  1. on each Linux server: run the server, allow-list the admin key above'',
           ''  2. here: hyperion-client add-server <name> <host:port> <server_pubkey>'',
           ''  3. hyperion-client up'']))"

definition client_add_server ::
    "crypto \<Rightarrow> client_file toml \<Rightarrow> host \<Rightarrow> string \<Rightarrow> string \<Rightarrow> string \<Rightarrow> string \<Rightarrow> unit any \<times> host" where
  "client_add_server C T h config_path name addr pubkey =
     (case add_server C T h config_path name addr pubkey of
        (Inl e, h1) \<Rightarrow> (Inl e, h1)
      | (Inr vip, h1) \<Rightarrow> (Inr (), println_all h1
          [''added server '' @ [CHR 0x27] @ name @ [CHR 0x27] @ '' '' @ em_dash @ '' fake IP '' @ ipv4_to_string vip,
           ''reach it (once `up`): ssh user@'' @ ipv4_to_string vip]))"

definition client_keygen :: "crypto \<Rightarrow> host \<Rightarrow> string option \<Rightarrow> bytes \<Rightarrow> unit any \<times> host" where
  "client_keygen C h target random =
     (let keypair = keypair_generate C random;
          h1 = println (println h ''admin public key (add to each server's admin allowlist):'')
                 (public_to_base64 C (kp_public keypair)) in
      case target of
        Some path \<Rightarrow>
          (case write_secret h1 path (secret_to_base64 C (kp_secret keypair)) of
             (Inl e, h2) \<Rightarrow> (Inl e, h2)
           | (Inr _, h2) \<Rightarrow> (Inr (), println h2 (''admin secret key written to '' @ path)))
      | None \<Rightarrow>
          (Inr (), println (println (println h1 '''') ''admin secret key (keep private):'')
                     (secret_to_base64 C (kp_secret keypair))))"

definition print_routes ::
    "crypto \<Rightarrow> client_file toml \<Rightarrow> host \<Rightarrow> string \<Rightarrow> ((string \<times> server_entry) list \<Rightarrow> (string \<times> server_entry) list) \<Rightarrow>
     string \<Rightarrow> u32 \<Rightarrow> u32 \<Rightarrow> u32 \<Rightarrow> bool \<Rightarrow> string any" where
  "print_routes C T h config_path iterate dev mark table priority down =
     any_bind (client_load C T h config_path) (\<lambda>cfg.
       Inr (script \<lparr>rp_server_ips = map (\<lambda>(n, e). sock_ip (se_addr e)) (iterate (lc_servers cfg)), rp_dev = dev,
                    rp_mark = mark, rp_table = table, rp_priority = priority, rp_down = down\<rparr>))"

section \<open>TUN modes\<close>

type_synonym tun_routes = "ipaddr \<rightharpoonup> managed_pool"

record tun_device =
  td_name :: string
  td_addr :: string
  td_prefix :: byte
  td_mtu :: u16

datatype ip_stream = StackTcp socket_addr | StackUdp | StackOther

datatype stack_action = ForwardTo managed_pool u16 | Dropped

definition serve_stream :: "tun_routes \<Rightarrow> ip_stream \<Rightarrow> stack_action" where
  "serve_stream routes s =
     (case s of
        StackTcp dest \<Rightarrow>
          (case routes (sock_ip dest) of
             Some pool \<Rightarrow> ForwardTo pool (sock_port dest)
           | None \<Rightarrow> Dropped)
      | StackUdp \<Rightarrow> Dropped
      | StackOther \<Rightarrow> Dropped)"

text \<open>The accept loop ends at the stack's first error.\<close>

fun tun_serve :: "tun_routes \<Rightarrow> (string + ip_stream) list \<Rightarrow> stack_action list \<times> string option" where
  "tun_serve routes [] = ([], None)"
| "tun_serve routes (Inl e # as) = ([], Some e)"
| "tun_serve routes (Inr s # as) =
     (case tun_serve routes as of (acts, r) \<Rightarrow> (serve_stream routes s # acts, r))"

fun managed_routes :: "(string \<times> server_entry) list \<Rightarrow> tun_routes \<Rightarrow> tun_routes" where
  "managed_routes [] routes = routes"
| "managed_routes ((name, e) # rest) routes =
     managed_routes rest (routes(IpV4 (se_virtual_ip e) \<mapsto> start_pool (se_addr e) (se_params e) (se_pool_size e)))"

definition run_managed ::
    "((string \<times> server_entry) list \<Rightarrow> (string \<times> server_entry) list) \<Rightarrow> bool \<Rightarrow> loaded_client \<Rightarrow>
     (tun_device \<times> tun_routes) any" where
  "run_managed iterate device_ok cfg =
     (if lc_servers cfg = [] then Inl ''no servers configured; add one with `hyperion-client add-server`''
      else
        let routes = managed_routes (iterate (lc_servers cfg)) Map.empty in
        if \<not> device_ok then Inl ''creating TUN device (needs Administrator on Windows / root on Linux)''
        else Inr (\<lparr>td_name = ''hyperion0'', td_addr = ipv4_to_string (tc_addr (lc_tun cfg)),
                   td_prefix = tc_prefix (lc_tun cfg), td_mtu = tc_mtu (lc_tun cfg)\<rparr>, routes))"

definition marked_params :: "tunnel_params \<Rightarrow> tunnel_params" where
  "marked_params p = p\<lparr>tp_fwmark := Some DEFAULT_FWMARK\<rparr>"

fun real_routes :: "(string \<times> server_entry) list \<Rightarrow> tun_routes \<Rightarrow> tun_routes" where
  "real_routes [] routes = routes"
| "real_routes ((name, e) # rest) routes =
     real_routes rest
       (routes(sock_ip (se_addr e) \<mapsto> start_pool (se_addr e) (marked_params (se_params e)) (se_pool_size e)))"

definition tun_run ::
    "crypto \<Rightarrow> client_file toml \<Rightarrow> host \<Rightarrow> string \<Rightarrow> ((string \<times> server_entry) list \<Rightarrow> (string \<times> server_entry) list) \<Rightarrow>
     bool \<Rightarrow> string \<Rightarrow> byte \<Rightarrow> u16 \<Rightarrow> (tun_device \<times> tun_routes) any" where
  "tun_run C T h config_path iterate device_ok addr prefix_len mtu =
     any_bind (client_load C T h config_path) (\<lambda>cfg.
     if lc_servers cfg = [] then Inl ''no servers configured''
     else
       let routes = real_routes (iterate (lc_servers cfg)) Map.empty in
       if \<not> device_ok then Inl ''creating TUN device (needs root / CAP_NET_ADMIN)''
       else Inr (\<lparr>td_name = ''hyperion0'', td_addr = addr, td_prefix = prefix_len, td_mtu = mtu\<rparr>, routes))"

section \<open>The background tunnel\<close>

definition PROC_NEEDLE :: string where
  "PROC_NEEDLE = ''hyperion''"

definition char_count :: "string \<Rightarrow> nat" where
  "char_count s = length (filter (\<lambda>c. of_char c div 64 \<noteq> (2 :: nat)) s)"

definition pad_right :: "nat \<Rightarrow> string \<Rightarrow> string" where
  "pad_right w s = s @ replicate (w - char_count s) CHR '' ''"

definition table_lines :: "client_summary \<Rightarrow> string list" where
  "table_lines summary =
     (''tun device hyperion0 at '' @ ipv4_to_string (cs_tun_addr summary)) #
     (if cs_servers summary = []
      then [''(no servers '' @ em_dash @ '' add one: hyperion-client add-server <name> <host:port> <pubkey>)'']
      else
        let name_w = max (Max (set (map (\<lambda>s. length (sm_name s)) (cs_servers summary)))) 4 in
        (pad_right name_w ''name'' @ ''  '' @ pad_right 15 ''fake ip'' @ ''  reach it at'') #
        map (\<lambda>s. pad_right name_w (sm_name s) @ ''  '' @ pad_right 15 (ipv4_to_string (sm_virtual_ip s)) @
                 ''  ssh user@'' @ ipv4_to_string (sm_virtual_ip s) @ ''   ('' @ sm_addr s @ '')'')
            (cs_servers summary))"

definition up_banner :: "host \<Rightarrow> client_summary \<Rightarrow> u32 \<Rightarrow> string list" where
  "up_banner h summary pid =
     [''hyperion up (pid '' @ nat_to_dec (unat pid) @ '') '' @ em_dash @ '' tunnels establishing in the background.'', ''''] @
     table_lines summary @
     ['''', ''stop with: hyperion-client down'', ''logs:      '' @ client_log_file h]"

definition run_foreground ::
    "crypto \<Rightarrow> client_file toml \<Rightarrow> ((string \<times> server_entry) list \<Rightarrow> (string \<times> server_entry) list) \<Rightarrow> bool \<Rightarrow>
     host \<Rightarrow> string \<Rightarrow> (tun_device \<times> tun_routes) any" where
  "run_foreground C T iterate device_ok h config_path =
     any_bind (client_load C T h config_path) (run_managed iterate device_ok)"

text \<open>\<open>up\<close> serves in the foreground, with the passphrase in the environment, or spawns a process.\<close>

datatype up_result = Foreground tun_device tun_routes | Spawned u32

definition pass_var :: "client_summary \<Rightarrow> string" where
  "pass_var summary = (case cs_passphrase_env summary of Some v \<Rightarrow> v | None \<Rightarrow> ''HYPERION_PASSPHRASE'')"

definition ask_passphrase :: "host \<Rightarrow> bool \<Rightarrow> string \<Rightarrow> string option any" where
  "ask_passphrase h key_is_passphrase var =
     (if key_is_passphrase \<and> env_vars h var = None
      then any_bind (prompt_passphrase h) (\<lambda>p. Inr (Some p))
      else Inr None)"

definition client_up ::
    "crypto \<Rightarrow> client_file toml \<Rightarrow> ((string \<times> server_entry) list \<Rightarrow> (string \<times> server_entry) list) \<Rightarrow> bool \<Rightarrow>
     host \<Rightarrow> spawn_outcome \<Rightarrow> string \<Rightarrow> bool \<Rightarrow> up_result any \<times> host" where
  "client_up C T iterate device_ok h child config_path foreground =
     (if files h config_path = None
      then (Inl (''no config at '' @ config_path @ newline @
                 ''run `hyperion-client init` first, then add a server with `add-server`''), h)
      else
     (case with_context ''reading config'' (client_summarize T h config_path) of
        Inl e \<Rightarrow> (Inl e, h)
      | Inr summary \<Rightarrow>
     (if cs_servers summary = []
      then (Inl (''no servers configured'' @ newline @
                 ''add one: hyperion-client add-server <name> <host:port> <server_pubkey>''), h)
      else
     (case running_pid h (client_pid_file h) PROC_NEEDLE of
        Some pid \<Rightarrow> (Inl (''hyperion is already up (pid '' @ nat_to_dec (unat pid) @
                        ''); run `hyperion-client down` first''), h)
      | None \<Rightarrow>
     (case ask_passphrase h (cs_key_is_passphrase summary) (pass_var summary) of
        Inl e \<Rightarrow> (Inl e, h)
      | Inr passphrase \<Rightarrow>
          if foreground
          then (let h1 = case passphrase of
                           Some p \<Rightarrow> h\<lparr>env_vars := (env_vars h)(pass_var summary \<mapsto> p)\<rparr>
                         | None \<Rightarrow> h
                in (map_sum id (\<lambda>(dev, routes). Foreground dev routes)
                      (run_foreground C T iterate device_ok h1 config_path), h1))
          else (case spawn_daemon h child [''serve'', ''--config'', config_path] (client_pid_file h)
                       (client_log_file h) (map_option (\<lambda>p. (pass_var summary, p)) passphrase) of
                  (Inl e, h1) \<Rightarrow> (Inl e, h1)
                | (Inr pid, h1) \<Rightarrow> (Inr (Spawned pid), println_all h1 (up_banner h1 summary pid))))))))"

definition client_down :: "host \<Rightarrow> unit any \<times> host" where
  "client_down h = stop_daemon h (client_pid_file h) PROC_NEEDLE ''hyperion''"

definition client_status :: "client_file toml \<Rightarrow> host \<Rightarrow> string \<Rightarrow> unit any \<times> host" where
  "client_status T h config_path =
     (let h1 = println h (case running_pid h (client_pid_file h) PROC_NEEDLE of
                            Some pid \<Rightarrow> ''hyperion: UP (pid '' @ nat_to_dec (unat pid) @ '')''
                          | None \<Rightarrow> ''hyperion: down'') in
      if files h1 config_path \<noteq> None
      then (case client_summarize T h1 config_path of
              Inl e \<Rightarrow> (Inl e, h1)
            | Inr summary \<Rightarrow> (Inr (), println_all h1 (table_lines summary)))
      else (Inr (), println h1 (''no config yet '' @ em_dash @ '' run `hyperion-client init`'')))"

section \<open>Forwards are all served\<close>

lemma parse_specs_length: "parse_specs specs = Inr fs \<Longrightarrow> length fs = length specs"
  by (induction specs arbitrary: fs) (auto simp: any_bind_Inr_iff)

lemma start_forwards_iff:
  "start_forwards pools bindable fwds = Inr tasks \<longleftrightarrow>
     list_all2 (\<lambda>f (l, pool, p). l = fe_local f \<and> pools (fe_server f) = Some pool \<and> p = fe_remote_port f \<and> bindable l) fwds tasks"
proof (induction fwds arbitrary: tasks)
  case (Cons f fwds)
  then show ?case by (cases tasks) (auto simp: any_bind_Inr_iff)
qed auto

text \<open>
  C23: \<open>run\<close> serves every forward or nothing. When it starts, there is one listener per
  configured or \<open>-L\<close> forward, in that order, on pairwise different addresses that could be
  bound, each relaying to the remote port it names through the pool of the server it names, with
  that server's address, keys and at least one tunnel.
\<close>

theorem run_serves_every_forward:
  assumes "client_run C T h path specs bindable = Inr tasks"
  shows "\<exists>cfg extra. client_load C T h path = Inr cfg \<and> parse_specs specs = Inr extra \<and>
           length extra = length specs \<and> tasks \<noteq> [] \<and> distinct (map fst tasks) \<and>
           list_all2 (\<lambda>f (l, pool, p). l = fe_local f \<and> p = fe_remote_port f \<and> bindable l \<and>
              (\<exists>e. (fe_server f, e) \<in> set (lc_servers cfg) \<and> mp_addr pool = se_addr e \<and>
                   mp_params pool = se_params e \<and> 1 \<le> mp_slots pool))
             (lc_forwards cfg @ extra) tasks"
proof -
  obtain cfg extra where c: "client_load C T h path = Inr cfg" "parse_specs specs = Inr extra"
    "lc_forwards cfg @ extra \<noteq> []" "check_duplicate_locals (lc_forwards cfg @ extra) = Inr ()"
    "start_forwards (map_of (map (\<lambda>(name, e). (name, start_pool (se_addr e) (se_params e) (se_pool_size e)))
       (lc_servers cfg))) bindable (lc_forwards cfg @ extra) = Inr tasks"
    using assms by (auto simp: client_run_def any_bind_Inr_iff Let_def split: if_splits)
  note all2 = c(5)[unfolded start_forwards_iff]
  have "map fst tasks = map fe_local (lc_forwards cfg @ extra)"
    using all2 by (intro nth_equalityI) (auto simp: list_all2_conv_all_nth case_prod_beta simp del: map_append)
  then have "distinct (map fst tasks)"
    using c(4) by (simp add: check_duplicate_locals_def check_duplicate_from_iff)
  moreover have "tasks \<noteq> []" using c(3) list_all2_lengthD[OF all2] by auto
  moreover have "list_all2 (\<lambda>f (l, pool, p). l = fe_local f \<and> p = fe_remote_port f \<and> bindable l \<and>
              (\<exists>e. (fe_server f, e) \<in> set (lc_servers cfg) \<and> mp_addr pool = se_addr e \<and>
                   mp_params pool = se_params e \<and> 1 \<le> mp_slots pool))
             (lc_forwards cfg @ extra) tasks"
    using all2
    by (rule list_all2_mono)
       (fastforce simp: start_pool_def pool_size_def build_pool_def Let_def dest!: map_of_SomeD)
  ultimately show ?thesis using c(1,2) parse_specs_length by blast
qed

theorem run_serves_every_forward_witness:
  "\<exists>h (e :: server_entry). client_run toy_crypto pair_client_toml h (client_config_file pair_host) [''8022:a:22''] (\<lambda>_. True) =
     Inr [(SockV4 (Ipv4Addr 127 0 0 1) 8022, start_pool (se_addr e) (se_params e) (se_pool_size e), 22)] \<and>
     1 \<le> mp_slots (start_pool (se_addr e) (se_params e) (se_pool_size e))"
proof -
  obtain h e tun where l: "client_load toy_crypto pair_client_toml h (client_config_file pair_host) =
      Inr \<lparr>lc_servers = [(''a'', e)], lc_forwards = [], lc_tun = tun\<rparr>"
    using pair_loads by blast
  have spec: "parse_forward_spec ''8022:a:22'' =
      Inr \<lparr>fe_local = SockV4 (Ipv4Addr 127 0 0 1) 8022, fe_server = ''a'', fe_remote_port = 22\<rparr>"
    using parse_forward_spec_ports[of "''a''" 8022 22]
    by (simp add: nat_to_dec_small nat_to_dec_step decimal_digits)
  have run: "client_run toy_crypto pair_client_toml h (client_config_file pair_host) [''8022:a:22''] (\<lambda>_. True) =
     Inr [(SockV4 (Ipv4Addr 127 0 0 1) 8022, start_pool (se_addr e) (se_params e) (se_pool_size e), 22)]"
    by (simp add: client_run_def l spec check_duplicate_locals_def option_context_def)
  from run_serves_every_forward[OF run] l have
    "list_all2 (\<lambda>f (l, pool, p). 1 \<le> mp_slots pool) [\<lparr>fe_local = SockV4 (Ipv4Addr 127 0 0 1) 8022, fe_server = ''a'', fe_remote_port = 22\<rparr>]
       [(SockV4 (Ipv4Addr 127 0 0 1) 8022, start_pool (se_addr e) (se_params e) (se_pool_size e), 22 :: u16)]"
    using spec by (auto elim!: list_all2_mono)
  then have "1 \<le> mp_slots (start_pool (se_addr e) (se_params e) (se_pool_size e))" by simp
  with run show ?thesis by blast
qed

section \<open>Fake IPs lead to their servers\<close>

lemma managed_routes_other:
  "IpV4 ip \<notin> (\<lambda>(n, e). IpV4 (se_virtual_ip e)) ` set es \<Longrightarrow> managed_routes es routes (IpV4 ip) = routes (IpV4 ip)"
  by (induction es arbitrary: routes) auto

lemma managed_routes_v6: "managed_routes es routes (IpV6 ip) = routes (IpV6 ip)"
  by (induction es arbitrary: routes) auto

lemma managed_routes_member:
  "distinct (map (\<lambda>(n, e). se_virtual_ip e) es) \<Longrightarrow> (n, e) \<in> set es \<Longrightarrow>
     managed_routes es routes (IpV4 (se_virtual_ip e)) = Some (start_pool (se_addr e) (se_params e) (se_pool_size e))"
proof (induction es arbitrary: routes)
  case (Cons x rest)
  obtain name e' where x: "x = (name, e')" by fastforce
  show ?case
  proof (cases "(n, e) \<in> set rest")
    case True
    with Cons x show ?thesis by simp
  next
    case False
    with Cons.prems x have "e = e'" by auto
    moreover have "IpV4 (se_virtual_ip e') \<notin> (\<lambda>(n, e). IpV4 (se_virtual_ip e)) ` set rest"
      using Cons.prems(1) x by auto
    ultimately show ?thesis by (simp add: x managed_routes_other)
  qed
qed simp

text \<open>
  C13: Every fake IP leads to its server and nothing else is tunnelled. In fake-IP mode, in
  whatever order the servers are visited, a TCP connection to a server's fake IP, on any port, is
  forwarded to that port through that server's pool, and a connection to any other address is
  dropped.
\<close>

theorem fake_ip_reaches_its_server:
  assumes "client_load C T h path = Inr cl" "mset (iterate (lc_servers cl)) = mset (lc_servers cl)"
    and "run_managed iterate device_ok cl = Inr (dev, routes)"
  shows "(\<forall>(n, e) \<in> set (lc_servers cl). \<forall>p.
            serve_stream routes (StackTcp (SockV4 (se_virtual_ip e) p)) =
              ForwardTo (start_pool (se_addr e) (se_params e) (se_pool_size e)) p) \<and>
         (\<forall>dest. sock_ip dest \<notin> (\<lambda>(n, e). IpV4 (se_virtual_ip e)) ` set (lc_servers cl) \<longrightarrow>
            serve_stream routes (StackTcp dest) = Dropped)"
proof -
  let ?es = "iterate (lc_servers cl)"
  have r: "routes = managed_routes ?es Map.empty"
    using assms(3) by (auto simp: run_managed_def Let_def split: if_splits)
  have set: "set ?es = set (lc_servers cl)" using assms(2) by (rule mset_eq_setD)
  have "mset (map (\<lambda>(n, e). se_virtual_ip e) ?es) = mset (map (\<lambda>(n, e). se_virtual_ip e) (lc_servers cl))"
    using assms(2) by simp
  then have d: "distinct (map (\<lambda>(n, e). se_virtual_ip e) ?es)"
    using loaded_vips_distinct[OF assms(1)] by (metis distinct_count_atmost_1 mset_eq_setD)
  have none: "routes ip = None" if "ip \<notin> (\<lambda>(n, e). IpV4 (se_virtual_ip e)) ` set (lc_servers cl)" for ip
    using that managed_routes_other[of _ ?es Map.empty] managed_routes_v6[of ?es Map.empty] set
    by (cases ip) (auto simp: r)
  show ?thesis
  proof (intro conjI ballI allI impI)
    fix x assume "x \<in> set (lc_servers cl)"
    then show "case x of (n, e) \<Rightarrow> \<forall>p. serve_stream routes (StackTcp (SockV4 (se_virtual_ip e) p)) =
              ForwardTo (start_pool (se_addr e) (se_params e) (se_pool_size e)) p"
      using managed_routes_member[OF d] by (auto simp: set r serve_stream_def)
  next
    fix dest assume "sock_ip dest \<notin> (\<lambda>(n, e). IpV4 (se_virtual_ip e)) ` set (lc_servers cl)"
    then show "serve_stream routes (StackTcp dest) = Dropped" by (simp add: serve_stream_def none)
  qed
qed

theorem fake_ip_reaches_its_server_witness:
  "\<exists>h cl dev routes e. client_load toy_crypto pair_client_toml h (client_config_file pair_host) = Inr cl \<and>
     run_managed rev True cl = Inr (dev, routes) \<and> (''a'', e) \<in> set (lc_servers cl) \<and>
     serve_stream routes (StackTcp (SockV4 (se_virtual_ip e) 22)) =
       ForwardTo (start_pool (se_addr e) (se_params e) (se_pool_size e)) 22"
proof -
  obtain h e tun where l: "client_load toy_crypto pair_client_toml h (client_config_file pair_host) =
      Inr \<lparr>lc_servers = [(''a'', e)], lc_forwards = [], lc_tun = tun\<rparr>" (is "_ = Inr ?cl")
    using pair_loads by blast
  obtain dev routes where r: "run_managed rev True ?cl = Inr (dev, routes)" by (simp add: run_managed_def)
  from fake_ip_reaches_its_server[OF l _ r] l r show ?thesis by fastforce
qed

lemma find_snoc: "find P (xs @ [x]) = (case find P xs of None \<Rightarrow> if P x then Some x else None | Some y \<Rightarrow> Some y)"
  by (induction xs) auto

lemma real_routes_find:
  "real_routes es routes ip =
     (case find (\<lambda>(n, e). sock_ip (se_addr e) = ip) (rev es) of
        Some (n, e) \<Rightarrow> Some (start_pool (se_addr e) (marked_params (se_params e)) (se_pool_size e))
      | None \<Rightarrow> routes ip)"
proof (induction es arbitrary: routes)
  case (Cons x rest)
  then show ?case by (cases x) (auto simp: find_snoc split: option.splits)
qed simp

text \<open>
  In real-IP mode one server per address survives. A TCP connection is forwarded, to the
  port it names, through the pool of the last visited server that has its destination address,
  whatever port that server listens on: an earlier server at the same address is reached by no
  connection. A connection to no server's address is dropped.
\<close>

theorem real_ip_last_server_wins:
  "serve_stream (real_routes es Map.empty) (StackTcp dest) =
     (case find (\<lambda>(n, e). sock_ip (se_addr e) = sock_ip dest) (rev es) of
        Some (n, e) \<Rightarrow> ForwardTo (start_pool (se_addr e) (marked_params (se_params e)) (se_pool_size e)) (sock_port dest)
      | None \<Rightarrow> Dropped)"
  by (simp add: serve_stream_def real_routes_find case_prod_beta split: option.splits)

section \<open>The background tunnel: one at a time\<close>

lemma same_machine_pid_file: "same_machine h h' \<Longrightarrow> client_pid_file h' = client_pid_file h"
  by (simp add: client_pid_file_def same_machine_dir)

lemma client_files_differ: "client_log_file h \<noteq> client_pid_file h"
  using path_join_inject[of "''hyperion.log''" "''hyperion.pid''" "config_dir h"]
  by (simp add: client_log_file_def client_pid_file_def)

lemma asked_passphrase:
  "ask_passphrase h key_is_passphrase var = Inr (Some p) \<Longrightarrow> prompt_reply h = Some p \<and> env_vars h var = None"
  by (auto simp: ask_passphrase_def any_bind_Inr_iff prompt_passphrase_def split: if_splits)

lemma client_up_background:
  assumes "client_up C T iterate device_ok h child config_path False = (r, h')"
  shows "background_outcome PROC_NEEDLE (client_pid_file h) (client_log_file h)
     [''serve'', ''--config'', config_path] child h h'"
proof (cases "h' = h")
  case False
  with assms obtain summary passphrase where s: "running_pid h (client_pid_file h) PROC_NEEDLE = None"
    "ask_passphrase h (cs_key_is_passphrase summary) (pass_var summary) = Inr passphrase"
    "(case spawn_daemon h child [''serve'', ''--config'', config_path] (client_pid_file h)
                 (client_log_file h) (map_option (\<lambda>p. (pass_var summary, p)) passphrase) of
            (Inl e, h1) \<Rightarrow> (Inl e, h1)
          | (Inr pid, h1) \<Rightarrow> (Inr (Spawned pid), println_all h1 (up_banner h1 summary pid))) = (r, h')"
    by (auto simp: client_up_def split: if_splits sum.splits option.splits)
  obtain r1 h1 where sp: "spawn_daemon h child [''serve'', ''--config'', config_path] (client_pid_file h)
      (client_log_file h) (map_option (\<lambda>p. (pass_var summary, p)) passphrase) = (r1, h1)" by fastforce
  with s(3) obtain ls where "h' = println_all h1 ls"
    by (cases r1) (auto intro: that[of "[]"])
  moreover have "typed_secret h (map_option (\<lambda>p. (pass_var summary, p)) passphrase)"
    using asked_passphrase s(2) by (cases passphrase) (auto simp: typed_secret_def)
  ultimately show ?thesis using s(1) sp unfolding background_outcome_def by blast
qed (simp add: background_outcome_def)

lemma client_status_frame: "client_status T h path = (r, h') \<Longrightarrow> view_of p h' = view_of p h \<and> same_machine h h'"
  by (auto simp: client_status_def Let_def same_machine_steps same_machine_println_all split: if_splits sum.splits)

text \<open>
  The variable in which \<open>up\<close> hands a passphrase over, if the configuration wants a passphrase
  and the variable is not set.
\<close>

definition passphrase_missing :: "host \<Rightarrow> client_file \<Rightarrow> string option" where
  "passphrase_missing h f =
     (case cf_key f of
        None \<Rightarrow> None
      | Some k \<Rightarrow>
          let var = (case ks_passphrase_env k of Some v \<Rightarrow> v | None \<Rightarrow> ''HYPERION_PASSPHRASE'') in
          if ks_source k = ''passphrase'' \<and> env_vars h var = None then Some var else None)"

lemma asked_for_missing:
  assumes "client_summarize T h path = Inr summary"
    and "ask_passphrase h (cs_key_is_passphrase summary) (pass_var summary) = Inr passphrase"
  obtains f where "read_file h T path = Inr f"
    "case passphrase_missing h f of None \<Rightarrow> passphrase = None
     | Some var \<Rightarrow> \<exists>p. prompt_reply h = Some p \<and> passphrase = Some p \<and> var = pass_var summary"
proof -
  from assms(1) obtain f where f: "read_file h T path = Inr f"
    "(cs_key_is_passphrase summary, cs_passphrase_env summary) = (case cf_key f of
       Some k \<Rightarrow> if ks_source k = ''passphrase'' then (True, ks_passphrase_env k) else (False, None)
     | None \<Rightarrow> (False, None))"
    by (auto simp: client_summarize_def any_bind_Inr_iff Let_def)
  from f(2) assms(2) have "case passphrase_missing h f of None \<Rightarrow> passphrase = None
     | Some var \<Rightarrow> \<exists>p. prompt_reply h = Some p \<and> passphrase = Some p \<and> var = pass_var summary"
    by (auto simp: passphrase_missing_def ask_passphrase_def pass_var_def prompt_passphrase_def Let_def any_bind_Inr_iff
        split: option.splits if_splits)
  with f(1) that show thesis by blast
qed

text \<open>
  C18: The passphrase never reaches a command line, and the daemon gets it. In the background \<open>up\<close>
  either fails and starts nothing, or it starts one process: the program's own executable with
  exactly the arguments \<open>serve --config\<close> and the path. If the configuration's key is a passphrase and
  its variable, \<open>HYPERION_PASSPHRASE\<close> where none is named, is not set, the process gets
  exactly that variable with the passphrase that was typed; otherwise it gets nothing.
\<close>

theorem up_hides_the_passphrase:
  "(case client_up C T iterate device_ok h child config_path False of
      (r, h') \<Rightarrow> (actions h' = actions h \<and> (\<exists>m. r = Inl m)) \<or>
        (\<exists>exe env pid f. exe_path h = Some exe \<and> read_file h T config_path = Inr f \<and>
           actions h' = actions h @ [Started [exe, ''serve'', ''--config'', config_path] env pid] \<and>
           (r = Inr (Spawned pid) \<or> (\<exists>m. r = Inl m)) \<and>
           (case passphrase_missing h f of
              Some var \<Rightarrow> \<exists>p. prompt_reply h = Some p \<and> env = Some (var, p)
            | None \<Rightarrow> env = None)))"
proof -
  obtain r h' where up: "client_up C T iterate device_ok h child config_path False = (r, h')" by fastforce
  show ?thesis
  proof (cases "h' = h \<and> (\<exists>m. r = Inl m)")
    case True
    with up show ?thesis by simp
  next
    case False
    with up obtain summary passphrase where s: "client_summarize T h config_path = Inr summary"
      "ask_passphrase h (cs_key_is_passphrase summary) (pass_var summary) = Inr passphrase"
      "(case spawn_daemon h child [''serve'', ''--config'', config_path] (client_pid_file h)
                   (client_log_file h) (map_option (\<lambda>p. (pass_var summary, p)) passphrase) of
              (Inl e, h1) \<Rightarrow> (Inl e, h1)
            | (Inr pid, h1) \<Rightarrow> (Inr (Spawned pid), println_all h1 (up_banner h1 summary pid))) = (r, h')"
      by (auto simp: client_up_def with_context_def split: if_splits sum.splits option.splits)
    obtain f where f: "read_file h T config_path = Inr f"
      "case passphrase_missing h f of None \<Rightarrow> passphrase = None
       | Some var \<Rightarrow> \<exists>p. prompt_reply h = Some p \<and> passphrase = Some p \<and> var = pass_var summary"
      by (rule asked_for_missing[OF s(1,2)])
    obtain r1 h1 where sp: "spawn_daemon h child [''serve'', ''--config'', config_path] (client_pid_file h)
        (client_log_file h) (map_option (\<lambda>p. (pass_var summary, p)) passphrase) = (r1, h1)" by fastforce
    have out: "actions h' = actions h1" "\<And>pid. r1 = Inr pid \<Longrightarrow> r = Inr (Spawned pid)" "\<And>e. r1 = Inl e \<Longrightarrow> r = Inl e"
      using s(3) sp by (auto split: sum.splits)
    define env where "env = map_option (\<lambda>p. (pass_var summary, p)) passphrase"
    have env: "case passphrase_missing h f of Some var \<Rightarrow> \<exists>p. prompt_reply h = Some p \<and> env = Some (var, p) | None \<Rightarrow> env = None"
      using f(2) by (auto simp: env_def split: option.splits)
    from spawn_daemon_result[OF sp, folded env_def] show ?thesis
    proof (elim disjE conjE exE)
      fix e assume "actions h1 = actions h" "r1 = Inl e"
      with out show ?thesis by (simp add: up)
    next
      fix exe pid
      assume st: "exe_path h = Some exe" "actions h1 = actions h @ [Started (exe # [''serve'', ''--config'', config_path]) env pid]"
        "r1 = Inr pid"
      show ?thesis unfolding up prod.case
        by (intro disjI2 exI[of _ exe] exI[of _ env] exI[of _ pid] exI[of _ f]) (use st env f(1) out in simp)
    next
      fix exe pid e
      assume st: "exe_path h = Some exe" "actions h1 = actions h @ [Started (exe # [''serve'', ''--config'', config_path]) env pid]"
        "r1 = Inl e"
      show ?thesis unfolding up prod.case
        by (intro disjI2 exI[of _ exe] exI[of _ env] exI[of _ pid] exI[of _ f]) (use st env f(1) out in simp)
    qed
  qed
qed

text \<open>
  The typed passphrase is used only when the configuration names a variable. The daemon that
  \<open>up\<close> starts finds the passphrase that was typed when \<open>passphrase_env\<close> is configured; otherwise
  \<open>up\<close> hands it over in \<open>HYPERION_PASSPHRASE\<close>, which the daemon does not read: it prompts again.
\<close>

theorem typed_passphrase_needs_named_variable:
  "read_passphrase (h\<lparr>env_vars := (env_vars h)(pass_var summary \<mapsto> p)\<rparr>) (cs_passphrase_env summary) =
     (if cs_passphrase_env summary = None then prompt_passphrase h else Inr p)"
  by (auto simp: read_passphrase_def pass_var_def prompt_passphrase_def split: option.splits)

end
