(* ===== verification/Cli_Args.thy ===== *)
theory Cli_Args
  imports Cli_Common
begin

text \<open>
  Command lines. Both programs declare their commands with clap's derive macros; the declaration is
  data here: per command its arguments, with the long name (the field's name for a positional one),
  the short letter and the kind that the field's type and attributes give it. The parser is clap's
  and a parameter, with the behaviour that is documented for the options the programs pass to
  themselves; turning matched values into typed fields is each program's.
\<close>

section \<open>Declarations\<close>

datatype arg_kind = Positional | Required | Optional | Switch | Repeated "char option" | Defaulted string

record arg_spec =
  arg_name :: string
  arg_short :: "char option"
  arg_kind :: arg_kind

record command_spec =
  cmd_name :: string
  cmd_about :: "string option"
  cmd_args :: "arg_spec list"

record cli_spec =
  cli_name :: string
  cli_about :: string
  cli_commands :: "command_spec list"

definition arg :: "string \<Rightarrow> char option \<Rightarrow> arg_kind \<Rightarrow> arg_spec" where
  "arg name short kind = \<lparr>arg_name = name, arg_short = short, arg_kind = kind\<rparr>"

definition command :: "string \<Rightarrow> string \<Rightarrow> arg_spec list \<Rightarrow> command_spec" where
  "command name about args = \<lparr>cmd_name = name, cmd_about = Some about, cmd_args = args\<rparr>"

definition config_arg :: arg_spec where
  "config_arg = arg ''config'' (Some CHR ''c'') Optional"

section \<open>Matches\<close>

text \<open>The values per argument; a switch that is given has none.\<close>

type_synonym matches = "string \<rightharpoonup> string list"

type_synonym clap = "cli_spec \<Rightarrow> string list \<Rightarrow> (string \<times> matches) option"

definition one_value :: "matches \<Rightarrow> string \<Rightarrow> string option" where
  "one_value m name = (case m name of Some (v # vs) \<Rightarrow> Some v | _ \<Rightarrow> None)"

definition all_values :: "matches \<Rightarrow> string \<Rightarrow> string list" where
  "all_values m name = (case m name of Some vs \<Rightarrow> vs | None \<Rightarrow> [])"

definition given :: "matches \<Rightarrow> string \<Rightarrow> bool" where
  "given m name \<longleftrightarrow> m name \<noteq> None"

definition parse_u8 :: "string \<Rightarrow> byte option" where
  "parse_u8 s = map_option word_of_nat (parse_uint (2 ^ 8) s)"

text \<open>A typed field: the value's text through the type's parser, an error when it does not parse.\<close>

definition typed_value :: "(string \<Rightarrow> 'a option) \<Rightarrow> matches \<Rightarrow> string \<Rightarrow> 'a option" where
  "typed_value parse m name = Option.bind (one_value m name) parse"

section \<open>What is relied on of the parser\<close>

definition defaults :: "arg_spec list \<Rightarrow> matches" where
  "defaults args = map_of (List.map_filter (\<lambda>a. case arg_kind a of Defaulted d \<Rightarrow> Some (arg_name a, [d]) | _ \<Rightarrow> None) args)"

definition option_tokens :: "(string \<times> string) list \<Rightarrow> string list" where
  "option_tokens opts = concat (map (\<lambda>(name, v). [''--'' @ name, v]) opts)"

definition takes_value :: "arg_spec \<Rightarrow> bool" where
  "takes_value a \<longleftrightarrow> (case arg_kind a of Required \<Rightarrow> True | Optional \<Rightarrow> True | Defaulted d \<Rightarrow> True | _ \<Rightarrow> False)"

text \<open>
  Options given by their long names, each at most once, with values that do not look like an option;
  all required ones among them, and no positional argument is declared.
\<close>

definition well_given :: "arg_spec list \<Rightarrow> (string \<times> string) list \<Rightarrow> bool" where
  "well_given args opts \<longleftrightarrow>
     distinct (map fst opts) \<and>
     list_all (\<lambda>(name, v). v \<noteq> [] \<and> hd v \<noteq> CHR ''-'' \<and> list_ex (\<lambda>a. arg_name a = name \<and> takes_value a) args) opts \<and>
     list_all (\<lambda>a. arg_kind a \<noteq> Positional \<and> (arg_kind a = Required \<longrightarrow> arg_name a \<in> set (map fst opts))) args"

definition find_command :: "cli_spec \<Rightarrow> string \<Rightarrow> arg_spec list option" where
  "find_command spec name = map_option cmd_args (find (\<lambda>c. cmd_name c = name) (cli_commands spec))"

definition clap_lawful :: "clap \<Rightarrow> bool" where
  "clap_lawful clap \<longleftrightarrow>
     (\<forall>spec name args opts. find_command spec name = Some args \<and> well_given args opts \<longrightarrow>
        clap spec (name # option_tokens opts) =
          Some (name, defaults args ++ map_of (map (\<lambda>(n, v). (n, [v])) opts)))"

text \<open>A parser of this much, for concrete instances.\<close>

fun option_pairs :: "string list \<Rightarrow> (string \<times> string) list option" where
  "option_pairs [] = Some []"
| "option_pairs [t] = None"
| "option_pairs (t # v # ts) =
     (if take 2 t = ''--'' then map_option (Cons (drop 2 t, v)) (option_pairs ts) else None)"

definition simple_clap :: clap where
  "simple_clap spec args =
     (case args of
        [] \<Rightarrow> None
      | name # toks \<Rightarrow>
          (case find_command spec name of
             None \<Rightarrow> None
           | Some declared \<Rightarrow>
               (case option_pairs toks of
                  None \<Rightarrow> None
                | Some opts \<Rightarrow>
                    if well_given declared opts
                    then Some (name, defaults declared ++ map_of (map (\<lambda>(n, v). (n, [v])) opts))
                    else None)))"

lemma option_pairs_tokens: "option_pairs (option_tokens opts) = Some opts"
  by (induction opts) (auto simp: option_tokens_def)

lemma simple_clap_lawful: "clap_lawful simple_clap"
  by (simp add: clap_lawful_def simple_clap_def option_pairs_tokens)

lemma one_value_defaults [simp]:
  "one_value (m(name \<mapsto> [v])) name = Some v" "n \<noteq> name \<Longrightarrow> one_value (m(name \<mapsto> [v])) n = one_value m n"
  by (simp_all add: one_value_def)

lemma parse_config_option:
  assumes "clap_lawful clap" "find_command spec name = Some args" "v \<noteq> []" "hd v \<noteq> CHR ''-''"
    and "config_arg \<in> set args" "\<And>a. a \<in> set args \<Longrightarrow> arg_kind a \<noteq> Positional \<and> arg_kind a \<noteq> Required"
  shows "\<exists>m. clap spec [name, ''--config'', v] = Some (name, m) \<and> one_value m ''config'' = Some v"
proof -
  have "well_given args [(''config'', v)]"
    using assms(3-6) by (auto simp: well_given_def list_ex_iff list_all_iff config_arg_def arg_def takes_value_def
        intro!: bexI[of _ config_arg])
  with assms(1,2) have "clap spec (name # option_tokens [(''config'', v)]) =
      Some (name, defaults args ++ map_of (map (\<lambda>(n, v). (n, [v])) [(''config'', v)]))"
    unfolding clap_lawful_def by blast
  then show ?thesis by (simp add: option_tokens_def)
qed

end
