(* ===== verification/Client_Main.thy ===== *)
theory Client_Main
  imports Client_Commands Cli_Args
begin

text \<open>
  The client program, \<open>main.rs\<close>: its command line, the dispatch of each command, and what holds
  over any sequence of commands. Matching the arguments is clap's (theory \<open>Cli_Args\<close>); the program
  is built with its default features.
\<close>

section \<open>The command line\<close>

datatype client_cli =
    CliInit bool
  | CliAddServer string string string "string option"
  | CliRmServer string "string option"
  | CliLs "string option"
  | CliUp "string option" bool
  | CliDown
  | CliStatus "string option"
  | CliServe "string option"
  | CliRun "string option" "string list"
  | CliKeygen "string option"
  | CliDoctor "string option"
  | CliTun "string option" string byte u16
  | CliPrintRoutes "string option" string u32 u32 u32 bool

definition client_cli_spec :: cli_spec where
  "client_cli_spec = \<lparr>cli_name = ''hyperion-client'', cli_about = ''Hyperion VPN admin client'', cli_commands =
     [command ''init'' ''Create the admin key + config in your user config dir'' [arg ''force'' None Switch],
      command ''add-server'' ''Add a server (auto-assigns a stable fake IP)''
        [arg ''name'' None Positional, arg ''addr'' None Positional, arg ''pubkey'' None Positional, config_arg],
      command ''rm-server'' ''Remove a server by name'' [arg ''name'' None Positional, config_arg],
      command ''ls'' ''List configured servers and their fake IPs'' [config_arg],
      command ''up'' ''Bring the tunnel up in the background (fake-IP TUN mode)'' [config_arg, arg ''foreground'' None Switch],
      command ''down'' ''Stop the background tunnel'' [],
      command ''status'' ''Show whether the tunnel is up and the server/fake-IP table'' [config_arg],
      \<lparr>cmd_name = ''serve'', cmd_about = None, cmd_args = [config_arg]\<rparr>,
      command ''run'' ''Run in the foreground with explicit -L local port forwards''
        [config_arg, arg ''forward'' (Some CHR ''L'') (Repeated None)],
      command ''keygen'' ''Generate an admin keypair'' [arg ''out'' (Some CHR ''o'') Optional],
      command ''doctor'' ''Knock + handshake against every server without forwarding'' [config_arg],
      command ''tun'' ''Low-level real-IP L3 TUN mode (Linux/root; advanced)''
        [config_arg, arg ''tun-addr'' None (Defaulted ''10.99.0.1''), arg ''prefix'' None (Defaulted ''24''),
         arg ''mtu'' None (Defaulted ''1420'')],
      command ''print-routes'' ''Emit ip route/ip rule commands for real-IP TUN mode (advanced)''
        [config_arg, arg ''dev'' None (Defaulted ''hyperion0''),
         arg ''mark'' None (Defaulted (nat_to_dec (unat DEFAULT_FWMARK))), arg ''table'' None (Defaulted ''26745''),
         arg ''priority'' None (Defaulted ''100''), arg ''down'' None Switch]]\<rparr>"

fun client_cli_of :: "string \<times> matches \<Rightarrow> client_cli option" where
  "client_cli_of (name, m) =
     (let config = one_value m ''config'' in
      if name = ''init'' then Some (CliInit (given m ''force''))
      else if name = ''add-server'' then
        Option.bind (one_value m ''name'') (\<lambda>n.
        Option.bind (one_value m ''addr'') (\<lambda>a.
        Option.bind (one_value m ''pubkey'') (\<lambda>k. Some (CliAddServer n a k config))))
      else if name = ''rm-server'' then Option.bind (one_value m ''name'') (\<lambda>n. Some (CliRmServer n config))
      else if name = ''ls'' then Some (CliLs config)
      else if name = ''up'' then Some (CliUp config (given m ''foreground''))
      else if name = ''down'' then Some CliDown
      else if name = ''status'' then Some (CliStatus config)
      else if name = ''serve'' then Some (CliServe config)
      else if name = ''run'' then Some (CliRun config (all_values m ''forward''))
      else if name = ''keygen'' then Some (CliKeygen (one_value m ''out''))
      else if name = ''doctor'' then Some (CliDoctor config)
      else if name = ''tun'' then
        Option.bind (one_value m ''tun-addr'') (\<lambda>addr.
        Option.bind (typed_value parse_u8 m ''prefix'') (\<lambda>plen.
        Option.bind (typed_value parse_u16 m ''mtu'') (\<lambda>mtu. Some (CliTun config addr plen mtu))))
      else if name = ''print-routes'' then
        Option.bind (one_value m ''dev'') (\<lambda>dev.
        Option.bind (typed_value parse_u32 m ''mark'') (\<lambda>mark.
        Option.bind (typed_value parse_u32 m ''table'') (\<lambda>table.
        Option.bind (typed_value parse_u32 m ''priority'') (\<lambda>priority.
          Some (CliPrintRoutes config dev mark table priority (given m ''down''))))))
      else None)"

definition client_parse :: "clap \<Rightarrow> string list \<Rightarrow> client_cli option" where
  "client_parse clap args = Option.bind (clap client_cli_spec args) client_cli_of"

section \<open>Dispatch\<close>

text \<open>
  What a command meets: the order in which a map is iterated, whether the TUN device can be
  created, the process a spawn yields, random bytes, which addresses can be bound, how an I/O error
  is shown and how each server answers a probe.
\<close>

record client_world =
  cw_iterate :: "(string \<times> server_entry) list \<Rightarrow> (string \<times> server_entry) list"
  cw_device_ok :: bool
  cw_child :: spawn_outcome
  cw_random1 :: bytes
  cw_random2 :: bytes
  cw_bindable :: "socket_addr \<Rightarrow> bool"
  cw_show_io :: "io_error \<Rightarrow> string"
  cw_probe :: "server_entry \<Rightarrow> dial_outcome"

text \<open>A command ends, or the process goes on serving a TUN device or local forwards.\<close>

datatype client_outcome =
    Finished "unit any"
  | ServingTun tun_device tun_routes
  | Forwarding "(socket_addr \<times> managed_pool \<times> u16) list"

definition client_cfg_path :: "host \<Rightarrow> string option \<Rightarrow> string" where
  "client_cfg_path h config = (case config of Some path \<Rightarrow> path | None \<Rightarrow> default_config_path h)"

definition tun_outcome :: "(tun_device \<times> tun_routes) any \<Rightarrow> client_outcome" where
  "tun_outcome r = (case r of Inl e \<Rightarrow> Finished (Inl e) | Inr (dev, routes) \<Rightarrow> ServingTun dev routes)"

fun client_main :: "crypto \<Rightarrow> client_file toml \<Rightarrow> client_world \<Rightarrow> host \<Rightarrow> client_cli \<Rightarrow> client_outcome \<times> host" where
  "client_main C T w h (CliInit force) =
     map_prod Finished id (client_init C T h force (cw_random1 w) (cw_random2 w))"
| "client_main C T w h (CliAddServer name addr pubkey config) =
     map_prod Finished id (client_add_server C T h (client_cfg_path h config) name addr pubkey)"
| "client_main C T w h (CliRmServer name config) =
     (case remove_server T h (client_cfg_path h config) name of
        (Inl e, h1) \<Rightarrow> (Finished (Inl e), h1)
      | (Inr _, h1) \<Rightarrow> (Finished (Inr ()), println h1 (''removed server '' @ name)))"
| "client_main C T w h (CliLs config) = map_prod Finished id (client_status T h (client_cfg_path h config))"
| "client_main C T w h (CliUp config foreground) =
     (case client_up C T (cw_iterate w) (cw_device_ok w) h (cw_child w) (client_cfg_path h config) foreground of
        (Inl e, h1) \<Rightarrow> (Finished (Inl e), h1)
      | (Inr (Foreground dev routes), h1) \<Rightarrow> (ServingTun dev routes, h1)
      | (Inr (Spawned pid), h1) \<Rightarrow> (Finished (Inr ()), h1))"
| "client_main C T w h CliDown = map_prod Finished id (client_down h)"
| "client_main C T w h (CliStatus config) = map_prod Finished id (client_status T h (client_cfg_path h config))"
| "client_main C T w h (CliServe config) =
     (tun_outcome (run_foreground C T (cw_iterate w) (cw_device_ok w) h (client_cfg_path h config)), h)"
| "client_main C T w h (CliRun config forwards) =
     (case client_run C T h (client_cfg_path h config) forwards (cw_bindable w) of
        Inl e \<Rightarrow> (Finished (Inl e), h)
      | Inr tasks \<Rightarrow> (Forwarding tasks, h))"
| "client_main C T w h (CliKeygen target) = map_prod Finished id (client_keygen C h target (cw_random1 w))"
| "client_main C T w h (CliDoctor config) =
     (case doctor C T h (client_cfg_path h config) (cw_iterate w) (cw_show_io w) (cw_probe w) of
        (r, ls) \<Rightarrow> (Finished r, println_all h ls))"
| "client_main C T w h (CliTun config addr plen mtu) =
     (tun_outcome (tun_run C T h (client_cfg_path h config) (cw_iterate w) (cw_device_ok w) addr plen mtu), h)"
| "client_main C T w h (CliPrintRoutes config dev mark table priority down) =
     (case print_routes C T h (client_cfg_path h config) (cw_iterate w) dev mark table priority down of
        Inl e \<Rightarrow> (Finished (Inl e), h)
      | Inr s \<Rightarrow> (Finished (Inr ()), print_text h s))"

section \<open>What a command leaves alone\<close>

text \<open>A command that is not told to write to the pid file.\<close>

fun spares :: "host \<Rightarrow> string \<Rightarrow> client_cli \<Rightarrow> bool" where
  "spares h p (CliAddServer name addr pubkey config) \<longleftrightarrow> client_cfg_path h config \<noteq> p"
| "spares h p (CliRmServer name config) \<longleftrightarrow> client_cfg_path h config \<noteq> p"
| "spares h p (CliKeygen target) \<longleftrightarrow> target \<noteq> Some p"
| "spares h p _ \<longleftrightarrow> True"

lemma client_paths_differ:
  "client_config_file h \<noteq> client_pid_file h" "admin_key_file h \<noteq> client_pid_file h"
  using path_join_inject[of "''hyperion.toml''" "''hyperion.pid''" "config_dir h"]
    path_join_inject[of "''admin.key''" "''hyperion.pid''" "config_dir h"]
  by (simp_all add: client_config_file_def client_pid_file_def admin_key_file_def)

lemma quiet_write_file: "write_file h T q f = (r, h') \<Longrightarrow> q \<noteq> p \<Longrightarrow> quiet p h h'"
  by (auto simp: write_file_def split: option.splits prod.splits dest: quiet_write_str)

lemma quiet_init_config:
  "client_init_config C T h force r1 r2 = (r, h') \<Longrightarrow> quiet (client_pid_file h) h h'"
  using client_paths_differ[of h]
  by (auto simp: client_init_config_def Let_def split: if_splits sum.splits prod.splits
      dest!: quiet_write_secret[of _ _ _ _ _ "client_pid_file h"] quiet_write_file[of _ _ _ _ _ _ "client_pid_file h"]
      intro: quiet_trans)

lemma quiet_add_server: "add_server C T h path name addr k = (r, h') \<Longrightarrow> path \<noteq> p \<Longrightarrow> quiet p h h'"
  unfolding add_server_def
  by (auto split: sum.splits prod.splits dest: quiet_write_file)

lemma quiet_remove_server: "remove_server T h path name = (r, h') \<Longrightarrow> path \<noteq> p \<Longrightarrow> quiet p h h'"
  by (auto simp: remove_server_def Let_def split: sum.splits prod.splits if_splits dest: quiet_write_file)

lemma quiet_keygen: "client_keygen C h target random = (r, h') \<Longrightarrow> target \<noteq> Some p \<Longrightarrow> quiet p h h'"
  by (auto simp: client_keygen_def Let_def split: sum.splits prod.splits option.splits
      dest!: quiet_write_secret[of _ _ _ _ _ p])

lemma quiet_status: "client_status T h path = (r, h') \<Longrightarrow> quiet p h h'"
  by (auto simp: client_status_def Let_def split: if_splits sum.splits)

lemma client_up_foreground:
  "client_up C T iterate device_ok h child path True = (r, h') \<Longrightarrow> \<exists>e. h' = h\<lparr>env_vars := e\<rparr>"
  by (auto simp: client_up_def Let_def split: if_splits sum.splits option.splits
      intro: exI[of _ "env_vars h"])

lemma client_main_quiet:
  assumes "client_main C T w h cmd = (r, h1)" "spares h (client_pid_file h) cmd"
    and "cmd \<noteq> CliDown" "\<And>config. cmd \<noteq> CliUp config False"
  shows "quiet (client_pid_file h) h (process_end h h1)"
proof -
  have quiet: "quiet (client_pid_file h) h h1 \<Longrightarrow> ?thesis"
    by (simp add: process_end_machine quiet_def)
  show ?thesis
  proof (cases cmd)
    case (CliInit force)
    obtain r0 g where "client_init_config C T h force (cw_random1 w) (cw_random2 w) = (r0, g)" by fastforce
    with assms(1) CliInit quiet_init_config[of C T h force "cw_random1 w" "cw_random2 w"] show ?thesis
      by (intro quiet) (auto simp: client_init_def split: sum.splits prod.splits)
  next
    case (CliAddServer name addr pubkey config)
    with assms(1,2) show ?thesis
      by (intro quiet) (auto simp: client_add_server_def dest: quiet_add_server split: sum.splits prod.splits)
  next
    case (CliRmServer name config)
    with assms(1,2) show ?thesis
      by (intro quiet) (auto dest: quiet_remove_server split: sum.splits prod.splits)
  next
    case (CliUp config foreground)
    with assms(4) have "foreground" by (cases foreground) auto
    with assms(1) CliUp client_up_foreground[of C T "cw_iterate w" "cw_device_ok w" h "cw_child w" "client_cfg_path h config"]
    obtain e where "h1 = h\<lparr>env_vars := e\<rparr>"
      by (auto split: sum.splits prod.splits up_result.splits)
    then show ?thesis by (simp add: quiet_def process_end_variable) (simp add: process_end_def)
  next
    case (CliKeygen target)
    with assms(1,2) quiet_keygen[of C h target "cw_random1 w"] show ?thesis
      by (intro quiet) (cases "client_keygen C h target (cw_random1 w)", auto)
  next
    case (CliLs config)
    with assms(1) quiet_status[of T h "client_cfg_path h config"] show ?thesis
      by (intro quiet) (cases "client_status T h (client_cfg_path h config)", auto)
  next
    case (CliStatus config)
    with assms(1) quiet_status[of T h "client_cfg_path h config"] show ?thesis
      by (intro quiet) (cases "client_status T h (client_cfg_path h config)", auto)
  qed (use assms(1,3) in \<open>auto intro!: quiet[simplified] quiet simp: print_text_def process_end_machine split: sum.splits prod.splits\<close>)
qed

section \<open>One daemon at a time\<close>

text \<open>
  Running any command of the client to its end: a process that is started has a fresh pid and the
  program's name, and the command is not told to overwrite the pid file.
\<close>

inductive client_command :: "crypto \<Rightarrow> client_file toml \<Rightarrow> host \<Rightarrow> host \<Rightarrow> bool" for C T where
  run_client: "fresh_child PROC_NEEDLE h (cw_child w) \<Longrightarrow> spares h (client_pid_file h) cmd \<Longrightarrow>
    client_main C T w h cmd = (r, h1) \<Longrightarrow> client_command C T h (process_end h h1)"

inductive_cases client_commandE: "client_command C T h h'"

lemma client_up_host:
  assumes "client_main C T w h (CliUp config False) = (r, h1)"
  shows "\<exists>r0. client_up C T (cw_iterate w) (cw_device_ok w) h (cw_child w) (client_cfg_path h config) False = (r0, h1)"
  using assms by (auto split: sum.splits prod.splits up_result.splits)

lemma client_command_cases:
  assumes "client_command C T h h'"
  obtains (quiet) "quiet (client_pid_file h) h h'"
  | (up) child path where "fresh_child PROC_NEEDLE h child"
      "background_outcome PROC_NEEDLE (client_pid_file h) (client_log_file h) [''serve'', ''--config'', path] child h h'"
  | (down) r where "stop_daemon h (client_pid_file h) PROC_NEEDLE ''hyperion'' = (r, h')"
proof -
  from assms obtain w cmd r h1 where c: "fresh_child PROC_NEEDLE h (cw_child w)" "spares h (client_pid_file h) cmd"
    "client_main C T w h cmd = (r, h1)" "h' = process_end h h1" by (rule client_commandE)
  consider "cmd = CliDown" | config where "cmd = CliUp config False"
    | "cmd \<noteq> CliDown" "\<And>config. cmd \<noteq> CliUp config False" by blast
  then show thesis
  proof cases
    case 1
    with c(3) have s: "stop_daemon h (client_pid_file h) PROC_NEEDLE ''hyperion'' = (fst (client_down h), h1)"
      by (cases "client_down h") (auto simp: client_down_def)
    then show ?thesis using c(4) process_end_machine[OF stop_daemon_machine[OF s]] down by metis
  next
    case (2 config)
    from client_up_host[OF c(3)[unfolded 2]] client_up_background obtain path where
      b: "background_outcome PROC_NEEDLE (client_pid_file h) (client_log_file h) [''serve'', ''--config'', path] (cw_child w) h h1"
      by blast
    then show ?thesis using c(1,4) process_end_machine[OF background_machine[OF b]] up by metis
  next
    case 3
    with client_main_quiet[OF c(3,2)] c(4) quiet show ?thesis by blast
  qed
qed

interpretation client_daemon: daemon_program "client_command C T" client_pid_file PROC_NEEDLE for C T
proof
  fix h h' assume "client_command C T h h'"
  then show "same_machine h h'"
    by (cases rule: client_command_cases) (auto simp: quiet_def dest: background_machine stop_daemon_machine)
next
  fix h h' assume c: "client_command C T h h'"
    and w: "openable h (client_pid_file h)" "storable h (client_pid_file h)"
  from c show "view_of (client_pid_file h) h' = view_of (client_pid_file h) h \<or>
      daemon_step PROC_NEEDLE (view_of (client_pid_file h) h) (view_of (client_pid_file h) h')"
  proof (cases rule: client_command_cases)
    case quiet
    then show ?thesis using quiet_view by blast
  next
    case (up child path)
    from background_step[OF up(2,1) client_files_differ w] show ?thesis .
  next
    case (down r)
    then show ?thesis by (rule stop_daemon_step)
  qed
qed (rule same_machine_pid_file)

text \<open>
  Every client command refines the daemon's state machine. Seen through the recorded pid, the
  processes and what was done to them, a command, succeeding or failing, does nothing or makes one
  step of the abstract machine, provided a new process has a fresh pid and the program's name and
  the pid file can be written.
\<close>

theorem client_daemon_refines:
  assumes "client_command C T h h'" "openable h (client_pid_file h)" "storable h (client_pid_file h)"
  shows "view_of (client_pid_file h) h' = view_of (client_pid_file h) h \<or>
     daemon_step PROC_NEEDLE (view_of (client_pid_file h) h) (view_of (client_pid_file h) h')"
  using assms by (rule client_daemon.command_refines)

text \<open>A world in which nothing is started or bound, for concrete instances.\<close>

definition idle_world :: client_world where
  "idle_world = \<lparr>cw_iterate = id, cw_device_ok = True, cw_child = None, cw_random1 = [], cw_random2 = [],
     cw_bindable = (\<lambda>_. False), cw_show_io = (\<lambda>_. ''''), cw_probe = (\<lambda>_. DialTimeout)\<rparr>"

lemma command_down: "client_down h = (r, h') \<Longrightarrow> client_command C T h h'"
proof -
  assume d: "client_down h = (r, h')"
  then have "same_machine h h'" unfolding client_down_def by (rule stop_daemon_machine)
  with run_client[of h idle_world CliDown C T "Finished r" h'] d show ?thesis
    by (simp add: fresh_child_def idle_world_def process_end_machine)
qed

definition down_host :: host where
  "down_host = sample_host\<lparr>files := [client_pid_file sample_host \<mapsto> nat_to_dec 7],
                            procs := [7 \<mapsto> Some ''hyperion-client'']\<rparr>"

lemma down_host_down: "actions (snd (client_down down_host)) = [Signalled 7]"
proof -
  have "client_pid_file down_host = client_pid_file sample_host"
    by (intro same_machine_pid_file) (simp add: same_machine_def down_host_def)
  then have pid: "read_pid down_host (client_pid_file down_host) = Some 7"
    using trim_dec[of 7] parse_u32_dec[of 7] by (simp add: read_pid_def read_to_string_def down_host_def)
  have "process_name_matches down_host 7 PROC_NEEDLE" "is_alive down_host 7" "killer down_host 7 = Some True"
    "actions down_host = []"
    by (simp_all add: down_host_def sample_host_def process_name_matches_def is_alive_def PROC_NEEDLE_def)
  with pid show ?thesis by (simp add: client_down_def stop_daemon_def kill_def)
qed

theorem client_daemon_refines_witness:
  "daemon_step PROC_NEEDLE (view_of (client_pid_file down_host) down_host)
     (view_of (client_pid_file down_host) (snd (client_down down_host)))"
proof -
  have o: "openable down_host (client_pid_file down_host)" "storable down_host (client_pid_file down_host)"
    by (simp_all add: down_host_def sample_host_def)
  have "view_of (client_pid_file down_host) (snd (client_down down_host)) \<noteq> view_of (client_pid_file down_host) down_host"
    using down_host_down by (auto simp: view_of_def down_host_def sample_host_def)
  moreover have "client_command toy_crypto pair_client_toml down_host (snd (client_down down_host))"
    by (rule command_down[of _ "fst (client_down down_host)"]) simp
  ultimately show ?thesis using client_daemon_refines[OF _ o] by blast
qed

text \<open>
  C14: At most one tunnel daemon. Through any sequence of the client's commands, all thirteen of
  them and failed ones included, and of processes ending at any time, at most one of the daemons
  that were started and not told to stop is alive, it is the one the pid file names, and a \<open>down\<close>
  that succeeds leaves none; provided pids are fresh, the pid file can be written and no command is
  told to use it as its configuration or key file.
\<close>

theorem one_client_daemon:
  assumes "daemon_session (client_command C T) h0 h" "actions h0 = []"
    and "openable h0 (client_pid_file h0)" "storable h0 (client_pid_file h0)"
  shows "card (live_daemons (view_of (client_pid_file h) h)) \<le> 1 \<and>
     live_daemons (view_of (client_pid_file h) h) \<subseteq> set_option (running_pid h (client_pid_file h) PROC_NEEDLE) \<and>
     (\<forall>h'. client_down h = (Inr (), h') \<longrightarrow> live_daemons (view_of (client_pid_file h) h') = {})"
  using client_daemon.at_most_one[OF assms] by (simp add: client_down_def)

theorem one_client_daemon_witness:
  "\<exists>h. daemon_session (client_command toy_crypto pair_client_toml) sample_host h \<and>
     client_down sample_host = (Inr (), h) \<and> card (live_daemons (view_of (client_pid_file h) h)) \<le> 1"
proof -
  have d: "client_down sample_host = (Inr (), println sample_host ''hyperion is not running (no pid file)'')" (is "_ = (_, ?h)")
    by (simp add: client_down_def stop_daemon_def read_pid_def read_to_string_def sample_host_def)
  have s: "daemon_session (client_command toy_crypto pair_client_toml) sample_host ?h"
    by (rule daemon_session.session_command, rule begin_session, rule command_down[OF d])
  from one_client_daemon[OF s] d s show ?thesis by (auto simp: sample_host_def)
qed

section \<open>The background daemon is the foreground tunnel\<close>

lemma load_server_env: "env_vars h' = env_vars h \<Longrightarrow> load_server C h' f k dpsk = load_server C h f k dpsk"
  by (intro ext) (simp add: load_server_def resolve_psk_def cong: option.case_cong)

lemma client_load_cong:
  assumes "env_vars h' = env_vars h" "files h' path = files h path"
    and "\<And>f. read_file h T path = Inr f \<Longrightarrow>
      files h' (expand_home h (cf_admin_static_key_file f)) = files h (expand_home h (cf_admin_static_key_file f)) \<and>
      load_default_psk C h' f = load_default_psk C h f"
  shows "client_load C T h' path = client_load C T h path"
proof -
  have "read_file h' T path = read_file h T path"
    using assms(2) by (simp add: read_file_def read_to_string_def)
  note same = this
  show ?thesis
  proof (cases "read_file h T path")
    case (Inl e)
    then show ?thesis by (simp add: client_load_def same)
  next
    case (Inr f)
    note same_f = assms(3)[OF Inr]
    show ?thesis
      unfolding client_load_def same Inr any_bind.simps Let_def read_to_string_def expand_home_env[OF assms(1)]
        load_server_env[OF assms(1)] conjunct1[OF same_f] conjunct2[OF same_f] ..
  qed
qed

text \<open>The passphrase, once it is in the variable that the configuration names, is not asked for again.\<close>

lemma default_psk_without_prompt:
  assumes "env_vars h' = env_vars h"
    and "\<And>k. cf_key f = Some k \<Longrightarrow> ks_source k = ''passphrase'' \<Longrightarrow> \<exists>var p. ks_passphrase_env k = Some var \<and> env_vars h var = Some p"
  shows "load_default_psk C h' f = load_default_psk C h f"
proof (cases "cf_key f")
  case (Some k)
  show ?thesis
  proof (cases "ks_source k = ''passphrase''")
    case True
    with assms(2)[OF Some] obtain var p where v: "ks_passphrase_env k = Some var" "env_vars h var = Some p" by blast
    then have "read_passphrase h' (ks_passphrase_env k) = read_passphrase h (ks_passphrase_env k)"
      using assms(1) by (simp add: read_passphrase_def)
    then show ?thesis using Some True by (simp add: load_default_psk_def resolve_default_psk_def)
  next
    case False
    with Some assms(1) show ?thesis by (simp add: load_default_psk_def resolve_default_psk_def)
  qed
qed (simp add: load_default_psk_def)

lemma client_up_spawned:
  assumes "client_up C T iterate device_ok h child path False = (Inr (Spawned pid), h')"
  obtains summary passphrase exe where "client_summarize T h path = Inr summary"
    "ask_passphrase h (cs_key_is_passphrase summary) (pass_var summary) = Inr passphrase"
    "actions h' = actions h @ [Started (exe # [''serve'', ''--config'', path]) (map_option (\<lambda>p. (pass_var summary, p)) passphrase) pid]"
    "env_vars h' = env_vars h" "\<And>q. q \<noteq> client_pid_file h \<Longrightarrow> q \<noteq> client_log_file h \<Longrightarrow> files h' q = files h q"
    "\<And>w. client_up C T iterate device_ok h w path True =
       (let h1 = child_host h (map_option (\<lambda>p. (pass_var summary, p)) passphrase) (prompt_reply h) in
        (map_sum id (\<lambda>(dev, routes). Foreground dev routes) (run_foreground C T iterate device_ok h1 path), h1))"
proof -
  from assms obtain summary passphrase where s: "files h path \<noteq> None" "client_summarize T h path = Inr summary"
    "cs_servers summary \<noteq> []" "running_pid h (client_pid_file h) PROC_NEEDLE = None"
    "ask_passphrase h (cs_key_is_passphrase summary) (pass_var summary) = Inr passphrase"
    "(case spawn_daemon h child [''serve'', ''--config'', path] (client_pid_file h)
                 (client_log_file h) (map_option (\<lambda>p. (pass_var summary, p)) passphrase) of
            (Inl e, h1) \<Rightarrow> (Inl e, h1)
          | (Inr pid, h1) \<Rightarrow> (Inr (Spawned pid), println_all h1 (up_banner h1 summary pid))) = (Inr (Spawned pid), h')"
    by (auto simp: client_up_def split: if_splits sum.splits option.splits)
  from s(6) obtain h1 where sp: "spawn_daemon h child [''serve'', ''--config'', path] (client_pid_file h)
      (client_log_file h) (map_option (\<lambda>p. (pass_var summary, p)) passphrase) = (Inr pid, h1)"
    "h' = println_all h1 (up_banner h1 summary pid)"
    by (auto split: sum.splits prod.splits)
  obtain exe where exe: "actions h1 = actions h @
      [Started (exe # [''serve'', ''--config'', path]) (map_option (\<lambda>p. (pass_var summary, p)) passphrase) pid]"
    by (rule spawn_daemon_Inr[OF sp(1)]) blast
  have env: "env_vars h1 = env_vars h" using spawn_daemon_machine[OF sp(1)] by (simp add: same_machine_def)
  have files: "files h1 q = files h q" if "q \<noteq> client_pid_file h" "q \<noteq> client_log_file h" for q
    using spawn_daemon_files[OF sp(1) that] .
  have "env_vars h' = env_vars h1"
    using same_machine_println_all[OF same_machine_refl, of h1] by (simp add: sp(2) same_machine_def)
  moreover have "client_up C T iterate device_ok h w path True =
       (let h1 = child_host h (map_option (\<lambda>p. (pass_var summary, p)) passphrase) (prompt_reply h) in
        (map_sum id (\<lambda>(dev, routes). Foreground dev routes) (run_foreground C T iterate device_ok h1 path), h1))" for w
    using s(1-5) by (cases passphrase) (auto simp: client_up_def child_host_def Let_def with_context_def)
  ultimately show thesis
    using exe env files s(2,5) by (intro that[of summary passphrase exe]) (simp_all add: sp(2))
qed

lemma parse_serve:
  assumes "clap_lawful clap" "path \<noteq> []" "hd path \<noteq> CHR ''-''"
  shows "client_parse clap [''serve'', ''--config'', path] = Some (CliServe (Some path))"
proof -
  have "find_command client_cli_spec ''serve'' = Some [config_arg]"
    by (simp add: find_command_def client_cli_spec_def command_def)
  from parse_config_option[OF assms(1) this assms(2,3)] obtain m where
    "clap client_cli_spec [''serve'', ''--config'', path] = Some (''serve'', m)" "one_value m ''config'' = Some path"
    by (auto simp: config_arg_def arg_def)
  then show ?thesis by (simp add: client_parse_def)
qed

text \<open>
  C16: The background daemon runs the foreground tunnel. When \<open>up\<close> succeeds in the background, it
  has started one process, and what that process does with the arguments and the variable it was
  given is what \<open>up --foreground\<close> would have done, whatever it would be answered at a prompt:
  the same device and routes or the same error. This needs a home, the path not to look like an option,
  a passphrase's variable to be named, and the configuration and the admin key not to be the pid or log file.
\<close>

theorem background_is_foreground:
  assumes "clap_lawful clap" "client_main C T w h (CliUp config False) = (Finished (Inr ()), h')"
    and "path = client_cfg_path h config" "path \<noteq> []" "hd path \<noteq> CHR ''-''"
    and "path \<notin> {client_pid_file h, client_log_file h}"
    and "\<And>f. read_file h T path = Inr f \<Longrightarrow>
      expand_home h (cf_admin_static_key_file f) \<notin> {client_pid_file h, client_log_file h} \<and>
      (\<forall>k. cf_key f = Some k \<and> ks_source k = ''passphrase'' \<longrightarrow> ks_passphrase_env k \<noteq> None)"
    and "env_vars h ''HOME'' \<noteq> None"
  shows "\<exists>exe args env pid cmd. actions h' = actions h @ [Started (exe # args) env pid] \<and>
     client_parse clap args = Some cmd \<and>
     (\<forall>reply. fst (client_main C T w (child_host h' env reply) cmd) = fst (client_main C T w h (CliUp config True)))"
proof -
  from assms(2,3) obtain pid where up: "client_up C T (cw_iterate w) (cw_device_ok w) h (cw_child w) path False =
      (Inr (Spawned pid), h')"
    by (auto split: sum.splits prod.splits up_result.splits)
  obtain summary passphrase exe where s: "client_summarize T h path = Inr summary"
    "ask_passphrase h (cs_key_is_passphrase summary) (pass_var summary) = Inr passphrase"
    "actions h' = actions h @ [Started (exe # [''serve'', ''--config'', path]) (map_option (\<lambda>p. (pass_var summary, p)) passphrase) pid]"
    "env_vars h' = env_vars h" "\<And>q. q \<noteq> client_pid_file h \<Longrightarrow> q \<noteq> client_log_file h \<Longrightarrow> files h' q = files h q"
    and fg: "\<And>c. client_up C T (cw_iterate w) (cw_device_ok w) h c path True =
       (let h1 = child_host h (map_option (\<lambda>p. (pass_var summary, p)) passphrase) (prompt_reply h) in
        (map_sum id (\<lambda>(dev, routes). Foreground dev routes) (run_foreground C T (cw_iterate w) (cw_device_ok w) h1 path), h1))"
    by (rule client_up_spawned[OF up]) blast
  let ?env = "map_option (\<lambda>p. (pass_var summary, p)) passphrase"
  let ?h1 = "child_host h ?env (prompt_reply h)"
  have env: "env_vars (child_host h' ?env reply) = env_vars ?h1" for reply
    by (cases passphrase) (simp_all add: child_host_def s(4))
  have load: "client_load C T (child_host h' ?env reply) path = client_load C T ?h1 path" for reply
  proof (rule client_load_cong)
    show "env_vars (child_host h' ?env reply) = env_vars ?h1" by (rule env)
    show "files (child_host h' ?env reply) path = files ?h1 path"
      using assms(6) s(5) by (simp add: child_host_def)
  next
    fix f assume "read_file ?h1 T path = Inr f"
    then have f: "read_file h T path = Inr f" by (simp add: read_file_def read_to_string_def child_host_def)
    from s(1) f have key: "cs_passphrase_env summary = ks_passphrase_env k" "cs_key_is_passphrase summary"
      if "cf_key f = Some k" "ks_source k = ''passphrase''" for k
      using that by (auto simp: client_summarize_def any_bind_Inr_iff Let_def)
    have asked: "env_vars h (pass_var summary) = None" if "passphrase = Some p" for p
      using s(2) that asked_passphrase by blast
    have "home_dir ?h1 = home_dir h"
      using assms(8) asked by (cases passphrase) (auto simp: home_dir_def child_host_def)
    then have "expand_home ?h1 q = expand_home h q" for q by (simp add: expand_home_def cong: option.case_cong)
    then have admin: "files (child_host h' ?env reply) (expand_home ?h1 (cf_admin_static_key_file f)) =
        files ?h1 (expand_home ?h1 (cf_admin_static_key_file f))"
      using assms(7)[OF f] s(5) by (simp add: child_host_def)
    have "\<exists>var p. ks_passphrase_env k = Some var \<and> env_vars ?h1 var = Some p"
      if k: "cf_key f = Some k" "ks_source k = ''passphrase''" for k
    proof -
      from assms(7)[OF f] k obtain var where var: "ks_passphrase_env k = Some var" by blast
      then have "pass_var summary = var" using key(1)[OF k] by (simp add: pass_var_def)
      then have "env_vars ?h1 var \<noteq> None"
        using s(2) key(2)[OF k] by (cases passphrase) (auto simp: ask_passphrase_def child_host_def any_bind_Inr_iff split: if_splits)
      with var show ?thesis by blast
    qed
    then have "load_default_psk C (child_host h' ?env reply) f = load_default_psk C ?h1 f"
      by (rule default_psk_without_prompt[OF env])
    with admin show "files (child_host h' ?env reply) (expand_home ?h1 (cf_admin_static_key_file f)) =
        files ?h1 (expand_home ?h1 (cf_admin_static_key_file f)) \<and>
        load_default_psk C (child_host h' ?env reply) f = load_default_psk C ?h1 f" by blast
  qed
  let ?run = "run_foreground C T (cw_iterate w) (cw_device_ok w) ?h1 path"
  have "fst (client_main C T w (child_host h' ?env reply) (CliServe (Some path))) = tun_outcome ?run" for reply
    by (simp add: run_foreground_def load client_cfg_path_def)
  moreover have "fst (client_main C T w h (CliUp config True)) = tun_outcome ?run"
    using fg[of "cw_child w"] unfolding client_main.simps assms(3)[symmetric]
    by (cases ?run) (auto simp: Let_def tun_outcome_def)
  ultimately have "\<forall>reply. fst (client_main C T w (child_host h' ?env reply) (CliServe (Some path))) =
      fst (client_main C T w h (CliUp config True))" by simp
  with s(3) parse_serve[OF assms(1,4,5)] show ?thesis by blast
qed

definition up_host :: host where
  "up_host = sample_host\<lparr>files := [''c'' \<mapsto> ''2'']\<rparr>"

definition up_world :: client_world where
  "up_world = idle_world\<lparr>cw_child := Some (7, Some ''hyperion-client'', True)\<rparr>"

lemma up_host_file: "read_file up_host pair_client_toml ''c'' = Inr (pair_client_file [pair_server])"
  by (simp add: read_file_def read_to_string_def up_host_def option_context_def pair_client_toml_def table_toml_def)

lemma up_host_paths:
  "client_pid_file up_host = ''/root/.config/hyperion/hyperion.pid''"
  "client_log_file up_host = ''/root/.config/hyperion/hyperion.log''"
  "expand_home up_host (admin_key_file pair_host) = ''/root/.config/hyperion/admin.key''"
  by (simp_all add: client_pid_file_def client_log_file_def config_dir_def up_host_def sample_host_def path_join_def
      expand_home_def home_dir_def admin_key_file_def pair_host_def strip_prefix_def)

lemma up_host_spawns: "\<exists>h'. client_main toy_crypto pair_client_toml up_world up_host (CliUp (Some ''c'') False) = (Finished (Inr ()), h')"
proof -
  have ip: "parse_ipv4 ''10.99.0.10'' = Some (Ipv4Addr 10 99 0 10)"
    by (simp only: sample_print(2)[symmetric] parse_ipv4_print)
  have vips: "resolve_virtual_ips sample_tun [pair_server] = Inr [Ipv4Addr 10 99 0 10]"
    by (simp add: resolve_virtual_ips_def pair_server_def ip explicit_ip_def option_context_def)
  have s: "\<exists>s. client_summarize pair_client_toml up_host ''c'' = Inr s \<and> cs_servers s \<noteq> [] \<and> cs_key_is_passphrase s \<and>
      cs_passphrase_env s = Some ''HYPERION_PASSPHRASE''"
    using vips by (simp add: client_summarize_def up_host_file pair_client_file_def parse_default_tun sample_tun_def Let_def)
  then obtain s where s: "client_summarize pair_client_toml up_host ''c'' = Inr s" "cs_servers s \<noteq> []"
    "cs_key_is_passphrase s" "cs_passphrase_env s = Some ''HYPERION_PASSPHRASE''" by blast
  have ask: "ask_passphrase up_host (cs_key_is_passphrase s) (pass_var s) = Inr (Some ''pw'')"
    by (simp add: ask_passphrase_def s pass_var_def up_host_def sample_host_def prompt_passphrase_def option_context_def)
  have run: "running_pid up_host (client_pid_file up_host) PROC_NEEDLE = None"
    unfolding up_host_paths by (simp add: running_pid_def read_pid_def read_to_string_def up_host_def)
  have spawn: "\<exists>h1. spawn_daemon up_host (Some (7, Some ''hyperion-client'', True)) args (client_pid_file up_host) (client_log_file up_host) env =
      (Inr 7, h1)" for args env
    unfolding up_host_paths
    by (simp add: spawn_daemon_def open_log_def sample_host_def write_pid_def write_str_def up_host_def
        open_truncate_def write_all_def is_alive_def Let_def)
  have present: "files up_host ''c'' \<noteq> None" by (simp add: up_host_def)
  obtain h1 where h1: "spawn_daemon up_host (Some (7, Some ''hyperion-client'', True)) [''serve'', ''--config'', ''c'']
      (client_pid_file up_host) (client_log_file up_host) (Some (pass_var s, ''pw'')) = (Inr 7, h1)" using spawn by blast
  have "client_up toy_crypto pair_client_toml (cw_iterate up_world) (cw_device_ok up_world) up_host (cw_child up_world) ''c'' False =
      (Inr (Spawned 7), println_all h1 (up_banner h1 s 7))"
    using present s ask run h1 by (simp add: client_up_def with_context_def up_world_def idle_world_def)
  then show ?thesis by (simp add: client_cfg_path_def)
qed

theorem background_is_foreground_witness:
  "\<exists>h' exe args env pid cmd. actions h' = actions up_host @ [Started (exe # args) env pid] \<and>
     client_parse simple_clap args = Some cmd \<and>
     fst (client_main toy_crypto pair_client_toml up_world (child_host h' env None) cmd) =
       fst (client_main toy_crypto pair_client_toml up_world up_host (CliUp (Some ''c'') True))"
proof -
  obtain h' where h': "client_main toy_crypto pair_client_toml up_world up_host (CliUp (Some ''c'') False) = (Finished (Inr ()), h')"
    using up_host_spawns by blast
  have present: "f = pair_client_file [pair_server]" if "read_file up_host pair_client_toml ''c'' = Inr f" for f
    using that by (simp add: up_host_file)
  have key: "cf_admin_static_key_file (pair_client_file [pair_server]) = admin_key_file pair_host"
    "cf_key (pair_client_file [pair_server]) = Some k \<Longrightarrow> ks_passphrase_env k \<noteq> None" for k
    by (auto simp: pair_client_file_def)
  have "\<exists>exe args env pid cmd. actions h' = actions up_host @ [Started (exe # args) env pid] \<and>
     client_parse simple_clap args = Some cmd \<and>
     (\<forall>reply. fst (client_main toy_crypto pair_client_toml up_world (child_host h' env reply) cmd) =
        fst (client_main toy_crypto pair_client_toml up_world up_host (CliUp (Some ''c'') True)))"
  proof (rule background_is_foreground[OF simple_clap_lawful h', of "''c''"])
    show "''c'' = client_cfg_path up_host (Some ''c'')" by (simp add: client_cfg_path_def)
    show "env_vars up_host ''HOME'' \<noteq> None" by (simp add: up_host_def sample_host_def)
    show "''c'' \<notin> {client_pid_file up_host, client_log_file up_host}" by (simp add: up_host_paths)
  next
    fix f assume "read_file up_host pair_client_toml ''c'' = Inr f"
    then have f: "f = pair_client_file [pair_server]" by (rule present)
    show "expand_home up_host (cf_admin_static_key_file f) \<notin> {client_pid_file up_host, client_log_file up_host} \<and>
      (\<forall>k. cf_key f = Some k \<and> ks_source k = ''passphrase'' \<longrightarrow> ks_passphrase_env k \<noteq> None)"
      using key unfolding f by (auto simp: up_host_paths)
  qed simp_all
  then show ?thesis by blast
qed

end
