(* ===== verification/Packet_Parser.thy ===== *)
theory Packet_Parser
  imports Net_Addr
begin

unbundle bit_operations_syntax

text \<open>
  The frame parser of \<open>packet.rs\<close>, which the sniffer runs on every raw Ethernet frame. The
  Rust code indexes and slices the buffer, so the model is written over checked accesses
  (\<open>index\<close>, \<open>slice\<close>) that yield \<open>Panic\<close> out of range; the lemmas show that the guards
  rule every panic out and characterise exactly which frames are accepted.
\<close>

definition ETHERNET_HEADER_LEN :: nat where
  "ETHERNET_HEADER_LEN = 14"

definition ETHERTYPE_IPV4 :: u16 where
  "ETHERTYPE_IPV4 = 0x0800"

definition IPPROTO_UDP :: byte where
  "IPPROTO_UDP = 17"

type_synonym datagram = "ipv4addr \<times> u16 \<times> bytes"

definition parse_ipv4_udp :: "bytes \<Rightarrow> datagram option rust" where
  "parse_ipv4_udp ip =
     (if length ip < 20 then Returns None else
      rbind (index ip 0) (\<lambda>b0.
      if drop_bit 4 b0 \<noteq> 4 then Returns None else
      let ihl = unat (b0 AND 0x0f) * 4 in
      if ihl < 20 \<or> length ip < ihl then Returns None else
      rbind (index ip 9) (\<lambda>proto.
      if proto \<noteq> IPPROTO_UDP then Returns None else
      rbind (index ip 12) (\<lambda>s0.
      rbind (index ip 13) (\<lambda>s1.
      rbind (index ip 14) (\<lambda>s2.
      rbind (index ip 15) (\<lambda>s3.
      rbind (slice_from ip ihl) (\<lambda>udp.
      if length udp < 8 then Returns None else
      rbind (index udp 2) (\<lambda>p0.
      rbind (index udp 3) (\<lambda>p1.
      rbind (index udp 4) (\<lambda>l0.
      rbind (index udp 5) (\<lambda>l1.
      let dst_port = of_be16 [p0, p1]; udp_len = unat (of_be16 [l0, l1]) in
      if udp_len < 8 \<or> length udp < udp_len then Returns None else
      rbind (slice udp 8 udp_len) (\<lambda>payload.
      Returns (Some (Ipv4Addr s0 s1 s2 s3, dst_port, payload)))))))))))))))"

definition parse_ethernet_ipv4_udp :: "bytes \<Rightarrow> datagram option rust" where
  "parse_ethernet_ipv4_udp frame =
     (if length frame < ETHERNET_HEADER_LEN then Returns None else
      rbind (index frame 12) (\<lambda>t0.
      rbind (index frame 13) (\<lambda>t1.
      if of_be16 [t0, t1] \<noteq> ETHERTYPE_IPV4 then Returns None else
      rbind (slice_from frame ETHERNET_HEADER_LEN) parse_ipv4_udp)))"

section \<open>The accepted frames\<close>

text \<open>The header length in bytes, and the fields at their fixed offsets.\<close>

definition ihl_of :: "byte \<Rightarrow> nat" where
  "ihl_of b0 = unat (b0 AND 0x0f) * 4"

definition udp_len_of :: "bytes \<Rightarrow> nat" where
  "udp_len_of ip = unat (of_be16 [ip ! (ihl_of (ip ! 0) + 4), ip ! (ihl_of (ip ! 0) + 5)])"

definition udp_packet :: "bytes \<Rightarrow> bool" where
  "udp_packet ip \<longleftrightarrow>
     20 \<le> length ip \<and> drop_bit 4 (ip ! 0) = 4 \<and> 20 \<le> ihl_of (ip ! 0) \<and>
     ip ! 9 = IPPROTO_UDP \<and> ihl_of (ip ! 0) + 8 \<le> length ip \<and>
     8 \<le> udp_len_of ip \<and> ihl_of (ip ! 0) + udp_len_of ip \<le> length ip"

definition datagram_of :: "bytes \<Rightarrow> datagram" where
  "datagram_of ip =
     (Ipv4Addr (ip ! 12) (ip ! 13) (ip ! 14) (ip ! 15),
      of_be16 [ip ! (ihl_of (ip ! 0) + 2), ip ! (ihl_of (ip ! 0) + 3)],
      take (udp_len_of ip - 8) (drop (ihl_of (ip ! 0) + 8) ip))"

lemma index_from_20: "20 \<le> length ip \<Longrightarrow> i < 20 \<Longrightarrow> index ip i = Returns (ip ! i)"
  by (simp add: panic_simps)

lemma index_udp: "h + 8 \<le> length ip \<Longrightarrow> i < 8 \<Longrightarrow> index (drop h ip) i = Returns (ip ! (h + i))"
  by (simp add: panic_simps)

lemma slice_udp:
  "h + n \<le> length ip \<Longrightarrow> 8 \<le> n \<Longrightarrow>
     slice (drop h ip) 8 n = Returns (take (n - 8) (drop (h + 8) ip))"
  by (simp add: panic_simps add.commute)

lemma parse_ipv4_udp_eq:
  "parse_ipv4_udp ip = Returns (if udp_packet ip then Some (datagram_of ip) else None)"
proof (cases "20 \<le> length ip \<and> ihl_of (ip ! 0) + 8 \<le> length ip")
  case True
  then have len: "20 \<le> length ip" and h: "ihl_of (ip ! 0) + 8 \<le> length ip" by simp_all
  note idx = index_from_20[OF len] index_udp[OF h]
  show ?thesis
  proof (cases "8 \<le> udp_len_of ip \<and> ihl_of (ip ! 0) + udp_len_of ip \<le> length ip")
    case True
    with len h slice_udp[of "ihl_of (ip ! 0)" "udp_len_of ip" ip] show ?thesis
      by (simp add: parse_ipv4_udp_def Let_def idx slice_from_Returns udp_packet_def datagram_of_def
            ihl_of_def [symmetric] udp_len_of_def [symmetric]) linarith
  next
    case False
    with len h show ?thesis
      by (simp add: parse_ipv4_udp_def Let_def idx slice_from_Returns udp_packet_def
            ihl_of_def [symmetric] udp_len_of_def [symmetric]) linarith
  qed
next
  case False
  show ?thesis
  proof (cases "20 \<le> length ip")
    case True
    with False show ?thesis
      by (simp add: parse_ipv4_udp_def Let_def index_from_20[OF True] slice_from_def udp_packet_def
            ihl_of_def [symmetric])
  qed (simp add: parse_ipv4_udp_def udp_packet_def)
qed

lemma parse_ipv4_udp_no_panic: "parse_ipv4_udp ip \<noteq> Panic"
  by (simp add: parse_ipv4_udp_eq)

lemma parse_ipv4_udp_Some:
  "parse_ipv4_udp ip = Returns (Some d) \<longleftrightarrow> udp_packet ip \<and> d = datagram_of ip"
  by (auto simp: parse_ipv4_udp_eq)

definition ethernet_ipv4 :: "bytes \<Rightarrow> bool" where
  "ethernet_ipv4 frame \<longleftrightarrow>
     14 \<le> length frame \<and> of_be16 [frame ! 12, frame ! 13] = ETHERTYPE_IPV4"

lemma parse_ethernet_eq:
  "parse_ethernet_ipv4_udp frame =
     (if ethernet_ipv4 frame then parse_ipv4_udp (drop 14 frame) else Returns None)"
  by (auto simp: parse_ethernet_ipv4_udp_def ethernet_ipv4_def ETHERNET_HEADER_LEN_def panic_simps)

lemma parse_ethernet_no_panic: "parse_ethernet_ipv4_udp frame \<noteq> Panic"
  by (simp add: parse_ethernet_eq parse_ipv4_udp_no_panic)

lemma parse_ethernet_Some:
  "parse_ethernet_ipv4_udp frame = Returns (Some d) \<longleftrightarrow>
     ethernet_ipv4 frame \<and> udp_packet (drop 14 frame) \<and> d = datagram_of (drop 14 frame)"
  by (simp add: parse_ethernet_eq parse_ipv4_udp_Some)

section \<open>Well-formed frames\<close>

text \<open>
  A frame as a sender lays it out: two MAC addresses, the type field, an IPv4 header whose
  first byte announces its length (options included), the UDP header and payload, padding.
\<close>

definition ipv4_header :: "bytes \<Rightarrow> ipv4addr \<Rightarrow> bool" where
  "ipv4_header hdr src \<longleftrightarrow>
     20 \<le> length hdr \<and> drop_bit 4 (hdr ! 0) = 4 \<and> ihl_of (hdr ! 0) = length hdr \<and>
     hdr ! 9 = IPPROTO_UDP \<and> take 4 (drop 12 hdr) = ipv4_octets src"

definition udp_frame :: "bytes \<Rightarrow> bytes \<Rightarrow> bytes \<Rightarrow> u16 \<Rightarrow> bytes \<Rightarrow> bytes \<Rightarrow> bytes \<Rightarrow> bytes" where
  "udp_frame macs hdr sport dport csum payload pad =
     macs @ be16 ETHERTYPE_IPV4 @ hdr @ sport @ be16 dport @
     be16 (word_of_nat (8 + length payload)) @ csum @ payload @ pad"

lemma be16_pair: "\<exists>a b. be16 w = [a, b] \<and> of_be16 [a, b] = w"
proof -
  have "length (be16 w) = 2" by simp
  then obtain a b where "be16 w = [a, b]"
    by (cases "be16 w"; cases "tl (be16 w)") auto
  then show ?thesis by (metis of_be16_be16)
qed

lemma take4_nth:
  assumes "take 4 (drop 12 hdr) = ipv4_octets src" "20 \<le> length hdr"
  shows "Ipv4Addr (hdr ! 12) (hdr ! 13) (hdr ! 14) (hdr ! 15) = src"
proof -
  have "take 4 (drop 12 hdr) ! i = hdr ! (12 + i)" if "i < 4" for i
    using assms(2) that by simp
  from this[of 0] this[of 1] this[of 2] this[of 3] show ?thesis
    unfolding assms(1) by (cases src) (simp add: numeral_eq_Suc)
qed

lemma udp_packet_frame:
  fixes dport :: u16 and pad :: bytes
  assumes hdr: "ipv4_header hdr src" and "length sport = 2" "length csum = 2"
    and small: "8 + length payload < 65536"
  defines "ip \<equiv> hdr @ sport @ be16 dport @ be16 (word_of_nat (8 + length payload)) @ csum @ payload @ pad"
  shows "udp_packet ip \<and> datagram_of ip = (src, dport, payload)"
proof -
  obtain a b where dp: "be16 dport = [a, b]" "of_be16 [a, b] = dport"
    using be16_pair by blast
  obtain c d where ln: "be16 (word_of_nat (8 + length payload)) = [c, d]"
    "of_be16 [c, d] = (word_of_nat (8 + length payload) :: u16)"
    using be16_pair by blast
  have len: "unat (of_be16 [c, d]) = 8 + length payload"
    using ln(2) small by (simp add: unat_of_nat del: of_nat_add)
  obtain s0 s1 where sp: "sport = [s0, s1]" using assms(2) by (cases sport; cases "tl sport") auto
  obtain k0 k1 where cs: "csum = [k0, k1]" using assms(3) by (cases csum; cases "tl csum") auto
  have ip: "ip = hdr @ [s0, s1, a, b, c, d, k0, k1] @ payload @ pad"
    unfolding ip_def sp dp(1) ln(1) cs by simp
  have h: "20 \<le> length hdr" "ihl_of (hdr ! 0) = length hdr" "drop_bit 4 (hdr ! 0) = 4"
    "hdr ! 9 = IPPROTO_UDP" and src: "take 4 (drop 12 hdr) = ipv4_octets src"
    using hdr by (auto simp: ipv4_header_def)
  have nth_hdr: "ip ! i = hdr ! i" if "i < 20" for i
    using that h(1) by (simp add: ip nth_append)
  have nth_udp: "ip ! (length hdr + i) = [s0, s1, a, b, c, d, k0, k1] ! i" if "i < 8" for i
  proof -
    have "ip = (hdr @ [s0, s1, a, b, c, d, k0, k1]) @ payload @ pad" by (simp add: ip)
    with that show ?thesis by (simp only: nth_append) simp
  qed
  have n: "udp_len_of ip = 8 + length payload"
    using h(2) len nth_udp[of 4] nth_udp[of 5] by (simp add: udp_len_of_def nth_hdr)
  have "drop (length hdr + 8) ip = payload @ pad" by (simp add: ip)
  moreover have "length ip = length hdr + 8 + length payload + length pad" by (simp add: ip)
  ultimately show ?thesis
    using h take4_nth[OF src h(1)] n dp(2) nth_udp[of 2] nth_udp[of 3]
    by (simp add: udp_packet_def datagram_of_def nth_hdr)
qed

lemma parse_udp_frame:
  assumes "ipv4_header hdr src" "length macs = 12" "length sport = 2" "length csum = 2"
    and "8 + length payload < 65536"
  shows "parse_ethernet_ipv4_udp (udp_frame macs hdr sport dport csum payload pad) =
           Returns (Some (src, dport, payload))"
proof -
  obtain a b where e: "be16 ETHERTYPE_IPV4 = [a, b]" "of_be16 [a, b] = ETHERTYPE_IPV4"
    using be16_pair by blast
  let ?ip = "hdr @ sport @ be16 dport @ be16 (word_of_nat (8 + length payload)) @ csum @ payload @ pad"
  have f: "udp_frame macs hdr sport dport csum payload pad = macs @ [a, b] @ ?ip"
    by (simp add: udp_frame_def e(1))
  have "ethernet_ipv4 (macs @ [a, b] @ ?ip)"
    using e(2) assms(2) by (simp add: ethernet_ipv4_def nth_append)
  moreover have "drop 14 (macs @ [a, b] @ ?ip) = ?ip" using assms(2) by simp
  ultimately show ?thesis
    using udp_packet_frame[OF assms(1,3-5), of dport pad] unfolding f parse_ethernet_Some by metis
qed

lemma of_be16_eq_iff: "of_be16 [a, b] = (w :: u16) \<longleftrightarrow> be16 w = [a, b]"
proof -
  obtain c d where w: "be16 w = [c, d]" "of_be16 [c, d] = w" using be16_pair by blast
  show ?thesis
  proof
    assume "of_be16 [a, b] = w"
    have "be16 (of_be16 [a, b] :: u16) = [a, b]" by (rule u16_field.enc_dec) simp
    then show "be16 w = [a, b]" using \<open>of_be16 [a, b] = w\<close> by simp
  qed (use w in simp)
qed

lemma split_at_nth: "i + n \<le> length xs \<Longrightarrow> take n (drop i xs) = map (\<lambda>j. xs ! (i + j)) [0..<n]"
  by (rule nth_equalityI) simp_all

text \<open>Whatever the parser accepts is laid out like that.\<close>

lemma accepted_layout:
  assumes "ethernet_ipv4 frame" "udp_packet (drop 14 frame)" "datagram_of (drop 14 frame) = (src, dport, payload)"
  shows "\<exists>macs hdr sport csum pad. frame = udp_frame macs hdr sport dport csum payload pad \<and> length macs = 12 \<and>
     ipv4_header hdr src \<and> length sport = 2 \<and> length csum = 2 \<and> 8 + length payload < 65536"
proof -
  define ip where "ip = drop 14 frame"
  define h where "h = ihl_of (ip ! 0)"
  define u where "u = drop h ip"
  have e: "14 \<le> length frame" "of_be16 [frame ! 12, frame ! 13] = ETHERTYPE_IPV4"
    using assms(1) by (simp_all add: ethernet_ipv4_def)
  have p: "20 \<le> length ip" "drop_bit 4 (ip ! 0) = 4" "20 \<le> h" "ip ! 9 = IPPROTO_UDP" "h + 8 \<le> length ip"
    "8 \<le> udp_len_of ip" "h + udp_len_of ip \<le> length ip"
    using assms(2) by (simp_all add: udp_packet_def ip_def h_def)
  have len: "udp_len_of ip = unat (of_be16 [u ! 4, u ! 5] :: u16)"
    using p by (simp add: udp_len_of_def u_def h_def)
  have d: "src = Ipv4Addr (ip ! 12) (ip ! 13) (ip ! 14) (ip ! 15)" "dport = of_be16 [u ! 2, u ! 3]"
    "payload = take (udp_len_of ip - 8) (drop 8 u)"
    using assms(3) p by (simp_all add: datagram_of_def ip_def[symmetric] h_def[symmetric] u_def add.commute)
  have plen: "length payload = udp_len_of ip - 8" using p by (simp add: d(3) u_def)
  have "take 14 frame = take 12 frame @ take 2 (drop 12 frame)" using take_add[of 12 2 frame] by simp
  moreover have "take 2 (drop 12 frame) = [frame ! 12, frame ! 13]"
    using e(1) split_at_nth[of 12 2 frame] by (simp add: upt_rec)
  moreover have "frame = take 14 frame @ ip" by (simp add: ip_def)
  ultimately have "frame = take 12 frame @ be16 ETHERTYPE_IPV4 @ ip"
    using of_be16_eq_iff e(2) by (metis append.assoc)
  moreover have "ip = take h ip @ u" by (simp add: u_def)
  moreover obtain u0 u1 u2 u3 u4 u5 u6 u7 rest where u: "u = [u0, u1, u2, u3, u4, u5, u6, u7] @ rest"
  proof -
    have "8 \<le> length u" using p by (simp add: u_def)
    then show thesis using that by (auto simp: Suc_le_length_iff numeral_eq_Suc)
  qed
  have fields: "be16 dport = [u2, u3]" "be16 (word_of_nat (8 + length payload)) = [u4, u5]"
  proof -
    show "be16 dport = [u2, u3]" by (simp add: d(2) u flip: of_be16_eq_iff)
    have "word_of_nat (8 + length payload) = (of_be16 [u4, u5] :: u16)"
      using p(6) len by (simp add: plen u del: of_nat_add)
    then show "be16 (word_of_nat (8 + length payload)) = [u4, u5]" by (simp only: flip: of_be16_eq_iff)
  qed
  moreover have "u = [u0, u1] @ [u2, u3] @ [u4, u5] @ [u6, u7] @ payload @ drop (udp_len_of ip - 8) rest"
    by (simp add: u d(3))
  ultimately have "frame = udp_frame (take 12 frame) (take h ip) [u0, u1] dport [u6, u7] payload
      (drop (udp_len_of ip - 8) rest)"
    unfolding udp_frame_def by (metis append.assoc)
  moreover have "ipv4_header (take h ip) src"
    using p by (simp add: ipv4_header_def h_def[symmetric] d(1) drop_take split_at_nth upt_rec)
  moreover have "length [u0, u1] = 2" "length [u6, u7] = 2" "length (take 12 frame) = 12"
    using e(1) by simp_all
  moreover have "8 + length payload < 65536"
    using unsigned_less[of "of_be16 [u ! 4, u ! 5] :: u16", where ?'a = nat] p(6) by (simp add: plen len)
  ultimately show ?thesis by blast
qed

section \<open>Property\<close>

text \<open>
  C32: For every frame, of any length and content, the packet parser returns without panicking, and
  it returns a source address, a destination port and a payload exactly when the frame is two MAC
  addresses, the type of IPv4, an IPv4 header of the length it announces, options included, with
  protocol UDP and that source, a UDP header with that port and the length of that payload, the
  payload, and any padding. Nothing else of the headers counts: neither the checksums nor the total
  length nor the fragment offset, so that a later fragment which reads like this is accepted too.
\<close>

theorem packet_parser_exact:
  "parse_ethernet_ipv4_udp frame \<noteq> Panic \<and>
   (parse_ethernet_ipv4_udp frame = Returns (Some (src, dport, payload)) \<longleftrightarrow>
     (\<exists>macs hdr sport csum pad. frame = udp_frame macs hdr sport dport csum payload pad \<and> length macs = 12 \<and>
        ipv4_header hdr src \<and> length sport = 2 \<and> length csum = 2 \<and> 8 + length payload < 65536))"
proof (intro conjI iffI)
  show "parse_ethernet_ipv4_udp frame \<noteq> Panic" by (rule parse_ethernet_no_panic)
  assume "parse_ethernet_ipv4_udp frame = Returns (Some (src, dport, payload))"
  then show "\<exists>macs hdr sport csum pad. frame = udp_frame macs hdr sport dport csum payload pad \<and> length macs = 12 \<and>
        ipv4_header hdr src \<and> length sport = 2 \<and> length csum = 2 \<and> 8 + length payload < 65536"
    using accepted_layout[of frame src dport payload] by (simp add: parse_ethernet_Some)
next
  assume "\<exists>macs hdr sport csum pad. frame = udp_frame macs hdr sport dport csum payload pad \<and> length macs = 12 \<and>
        ipv4_header hdr src \<and> length sport = 2 \<and> length csum = 2 \<and> 8 + length payload < 65536"
  then show "parse_ethernet_ipv4_udp frame = Returns (Some (src, dport, payload))"
    using parse_udp_frame by blast
qed

end
