(* ===== verification/Knock_Sniffer.thy ===== *)
theory Knock_Sniffer
  imports Knock_Auth Packet_Parser Rust_Strings
begin

text \<open>
  The server's knock gate: the nftables commands of \<open>firewall.rs\<close>, the kernel packet filter
  and the sniffing loop of \<open>sniffer.rs\<close>. What \<open>recv\<close> returns, the clock and whether \<open>nft\<close>
  succeeds are inputs of each turn of the loop; running a filter program is the kernel's and
  enters as a parameter with the documented meaning of the instructions used.
\<close>

section \<open>Firewall commands\<close>

record firewall =
  fw_table :: string
  fw_set :: string
  fw_ttl_secs :: u64

definition add_element_args :: "firewall \<Rightarrow> ipv4addr \<Rightarrow> string list" where
  "add_element_args fw ip =
     [''add'', ''element'', ''inet'', fw_table fw, fw_set fw,
      ''{ '' @ ipv4_to_string ip @ '' timeout '' @ nat_to_dec (unat (fw_ttl_secs fw)) @ ''s }'']"

text \<open>\<open>allow\<close>: the command that is run; whether it succeeds is an input.\<close>

definition allow :: "firewall \<Rightarrow> bool \<Rightarrow> ipv4addr \<Rightarrow> bool \<times> string list" where
  "allow fw nft_ok ip = (nft_ok, ''nft'' # add_element_args fw ip)"

definition base_ruleset :: "string \<Rightarrow> string \<Rightarrow> u16 \<Rightarrow> string" where
  "base_ruleset table_name set_name dport =
     ''table inet '' @ table_name @ '' {'' @ newline @
     ''  set '' @ set_name @ '' { type ipv4_addr; flags timeout; }'' @ newline @
     ''  chain input {'' @ newline @
     ''    type filter hook input priority 0; policy drop;'' @ newline @
     ''    ct state established,related accept'' @ newline @
     ''    iif lo accept'' @ newline @
     ''    ip saddr @'' @ set_name @ '' tcp dport '' @ nat_to_dec (unat dport) @ '' accept'' @ newline @
     ''  }'' @ newline @ ''}'' @ newline"

section \<open>The kernel filter\<close>

record sock_filter =
  bpf_code :: u16
  bpf_jt :: byte
  bpf_jf :: byte
  bpf_k :: u32

definition bpf :: "u16 \<Rightarrow> byte \<Rightarrow> byte \<Rightarrow> u32 \<Rightarrow> sock_filter" where
  "bpf code jt jf k = \<lparr>bpf_code = code, bpf_jt = jt, bpf_jf = jf, bpf_k = k\<rparr>"

definition knock_filter :: "u16 \<Rightarrow> sock_filter list" where
  "knock_filter knock_port =
     [bpf 0x28 0 0 12,
      bpf 0x15 0 8 0x0800,
      bpf 0x30 0 0 23,
      bpf 0x15 0 6 17,
      bpf 0x28 0 0 20,
      bpf 0x45 4 0 0x1fff,
      bpf 0xb1 0 0 14,
      bpf 0x48 0 0 16,
      bpf 0x15 0 1 (ucast knock_port),
      bpf 0x06 0 0 0x00040000,
      bpf 0x06 0 0 0]"

text \<open>
  The classic BPF instructions the program uses, as documented: \<open>run prog pc a x pkt\<close> is the
  verdict from instruction \<open>pc\<close> with accumulator \<open>a\<close> and index register \<open>x\<close>. Loads are
  big-endian and a load beyond the packet rejects it.
\<close>

type_synonym bpf_machine = "sock_filter list \<Rightarrow> nat \<Rightarrow> u32 \<Rightarrow> u32 \<Rightarrow> bytes \<Rightarrow> u32"

definition load_half :: "bytes \<Rightarrow> nat \<Rightarrow> u32" where
  "load_half pkt i = ucast (of_be16 [pkt ! i, pkt ! (i + 1)])"

definition bpf_instruction :: "bpf_machine \<Rightarrow> bpf_machine" where
  "bpf_instruction run prog pc a x pkt =
     (let ins = prog ! pc; k = unat (bpf_k ins); c = bpf_code ins;
          next = (\<lambda>jump. pc + 1 + unat jump) in
      if c = 0x28 then (if k + 2 \<le> length pkt then run prog (pc + 1) (load_half pkt k) x pkt else 0)
      else if c = 0x30 then (if k < length pkt then run prog (pc + 1) (ucast (pkt ! k)) x pkt else 0)
      else if c = 0x48 then
        (if unat x + k + 2 \<le> length pkt then run prog (pc + 1) (load_half pkt (unat x + k)) x pkt else 0)
      else if c = 0xb1 then
        (if k < length pkt then run prog (pc + 1) a (word_of_nat (4 * unat (pkt ! k AND 0x0f))) pkt else 0)
      else if c = 0x15 then run prog (next (if a = bpf_k ins then bpf_jt ins else bpf_jf ins)) a x pkt
      else if c = 0x45 then run prog (next (if a AND bpf_k ins \<noteq> 0 then bpf_jt ins else bpf_jf ins)) a x pkt
      else bpf_k ins)"

definition bpf_lawful :: "bpf_machine \<Rightarrow> bool" where
  "bpf_lawful run \<longleftrightarrow>
     (\<forall>prog pc a x pkt. pc < length prog \<and> bpf_code (prog ! pc) \<in> {0x28, 0x30, 0x48, 0xb1, 0x15, 0x45, 0x06} \<longrightarrow>
        run prog pc a x pkt = bpf_instruction run prog pc a x pkt)"

definition filter_passes :: "bpf_machine \<Rightarrow> u16 \<Rightarrow> bytes \<Rightarrow> bool" where
  "filter_passes run knock_port pkt \<longleftrightarrow> run (knock_filter knock_port) 0 0 0 pkt \<noteq> 0"

section \<open>The sniffing loop\<close>

definition RECENT_ALLOW_CAP :: nat where
  "RECENT_ALLOW_CAP = 4096"

definition RECV_BUF :: nat where
  "RECV_BUF = 65536"

record sniffer_config =
  sc_knock_port :: u16
  sc_tunnel_port :: u16
  sc_cooldown :: u64
  sc_firewall :: firewall

record sniffer =
  sn_verifier :: knock_verifier
  recent_allows :: "(ipv4addr \<times> u64) list"

definition sniffer_start :: "crypto \<Rightarrow> psk \<Rightarrow> public_key \<Rightarrow> u64 \<Rightarrow> sniffer" where
  "sniffer_start C p server_pub window_secs =
     \<lparr>sn_verifier = verifier_new C p server_pub window_secs, recent_allows = []\<rparr>"

datatype recv_result = RecvError bool | RecvBytes bytes

datatype verdict = Ignored | Opened ipv4addr "string list" | OpenFailed ipv4addr "string list"

text \<open>The cooldown per source address, and the call of \<open>nft\<close> with its record.\<close>

definition allow_source ::
    "sniffer_config \<Rightarrow> (ipv4addr \<times> u64) list \<Rightarrow> ipv4addr \<Rightarrow> u64 \<Rightarrow> bool \<Rightarrow>
     verdict \<times> (ipv4addr \<times> u64) list" where
  "allow_source cfg recent src now nft_ok =
     (if (case map_of recent src of
            Some t \<Rightarrow> saturating_sub now t < sc_cooldown cfg
          | None \<Rightarrow> False)
      then (Ignored, recent)
      else
        let recent1 = (if RECENT_ALLOW_CAP \<le> length recent
                       then retain (\<lambda>t. saturating_sub now t < sc_cooldown cfg) recent
                       else recent) in
        case allow (sc_firewall cfg) nft_ok src of
          (True, cmd) \<Rightarrow> (Opened src cmd, AList.update src now recent1)
        | (False, cmd) \<Rightarrow> (OpenFailed src cmd, recent1))"

definition sniffer_turn ::
    "crypto \<Rightarrow> sniffer_config \<Rightarrow> sniffer \<Rightarrow> recv_result \<Rightarrow> u64 option \<Rightarrow> bool \<Rightarrow> (verdict \<times> sniffer) rust" where
  "sniffer_turn C cfg s received clock nft_ok =
     (case received of
        RecvError interrupted \<Rightarrow> Returns (Ignored, s)
      | RecvBytes bs \<Rightarrow>
          let frame = take RECV_BUF bs in
          if frame = [] then Returns (Ignored, s) else
          rbind (parse_ethernet_ipv4_udp frame) (\<lambda>parsed.
          case parsed of
            None \<Rightarrow> Returns (Ignored, s)
          | Some (src, dst_port, payload) \<Rightarrow>
              if dst_port \<noteq> sc_knock_port cfg \<or> length payload \<noteq> PACKET_LEN then Returns (Ignored, s) else
              let now = now_unix clock in
              rbind (verifier_open C (sn_verifier s) payload now) (\<lambda>(result, v).
              case result of
                Inl e \<Rightarrow> Returns (Ignored, s\<lparr>sn_verifier := v\<rparr>)
              | Inr k \<Rightarrow>
                  if tunnel_port k \<noteq> sc_tunnel_port cfg then Returns (Ignored, s\<lparr>sn_verifier := v\<rparr>) else
                  (case allow_source cfg (recent_allows s) src now nft_ok of
                     (verdict, recent) \<Rightarrow>
                       Returns (verdict, s\<lparr>sn_verifier := v, recent_allows := recent\<rparr>)))))"


section \<open>What the filter lets through\<close>

definition filter_spec :: "u16 \<Rightarrow> bytes \<Rightarrow> bool" where
  "filter_spec knock_port pkt \<longleftrightarrow>
     24 \<le> length pkt \<and> of_be16 [pkt ! 12, pkt ! 13] = ETHERTYPE_IPV4 \<and> pkt ! 23 = IPPROTO_UDP \<and>
     of_be16 [pkt ! 20, pkt ! 21] AND 0x1fff = 0 \<and>
     ihl_of (pkt ! 14) + 18 \<le> length pkt \<and>
     of_be16 [pkt ! (ihl_of (pkt ! 14) + 16), pkt ! (ihl_of (pkt ! 14) + 17)] = knock_port"

lemma unat_ucast16: "unat (ucast (w :: u16) :: u32) = unat w"
proof -
  have "unat w < 65536" using unsigned_less[of w, where ?'a = nat] by simp
  then show ?thesis by (simp add: unsigned_ucast_eq take_bit_nat_eq_self_iff)
qed

lemma unat_ucast8: "unat (ucast (w :: byte) :: u32) = unat w"
proof -
  have "unat w < 4294967296" by (rule less_trans[OF unat_byte_less]) simp
  then show ?thesis by (simp add: unsigned_ucast_eq take_bit_nat_eq_self_iff)
qed

lemma ucast_eq_iff: "(ucast (w :: u16) :: u32) = ucast v \<longleftrightarrow> w = v"
  by (metis unat_ucast16 word_unat_eq_iff)

lemma ihl_less: "ihl_of b < 64"
proof -
  have "unat (b AND 0x0f) \<le> unat (0x0f :: byte)" by (intro word_le_nat_alt[THEN iffD1] word_and_le1)
  then show ?thesis by (simp add: ihl_of_def)
qed

lemma bpf_step:
  assumes "bpf_lawful run" "pc < 11"
  shows "run (knock_filter p) pc a x pkt = bpf_instruction run (knock_filter p) pc a x pkt"
proof -
  have "pc \<in> set [0..<11]" using assms(2) by simp
  then have "pc < length (knock_filter p) \<and>
      bpf_code (knock_filter p ! pc) \<in> {0x28, 0x30, 0x48, 0xb1, 0x15, 0x45, 0x06}"
    unfolding knock_filter_def bpf_def by (simp add: upt_rec) (elim disjE; simp)
  with assms(1) show ?thesis unfolding bpf_lawful_def by blast
qed

lemma filter_steps:
  fixes knock_port :: u16
  assumes "bpf_lawful run"
  defines "prog \<equiv> knock_filter knock_port"
  shows "run prog 0 a x pkt = (if 14 \<le> length pkt then run prog 1 (load_half pkt 12) x pkt else 0)"
    and "run prog 1 a x pkt = (if a = 0x0800 then run prog 2 a x pkt else run prog 10 a x pkt)"
    and "run prog 2 a x pkt = (if 24 \<le> length pkt then run prog 3 (ucast (pkt ! 23)) x pkt else 0)"
    and "run prog 3 a x pkt = (if a = 17 then run prog 4 a x pkt else run prog 10 a x pkt)"
    and "run prog 4 a x pkt = (if 22 \<le> length pkt then run prog 5 (load_half pkt 20) x pkt else 0)"
    and "run prog 5 a x pkt = (if a AND 0x1fff \<noteq> 0 then run prog 10 a x pkt else run prog 6 a x pkt)"
    and "run prog 6 a x pkt =
      (if 15 \<le> length pkt then run prog 7 a (word_of_nat (ihl_of (pkt ! 14))) pkt else 0)"
    and "run prog 7 a x pkt =
      (if unat x + 18 \<le> length pkt then run prog 8 (load_half pkt (unat x + 16)) x pkt else 0)"
    and "run prog 8 a x pkt = (if a = ucast knock_port then run prog 9 a x pkt else run prog 10 a x pkt)"
    and "run prog 9 a x pkt = 0x00040000"
    and "run prog 10 a x pkt = 0"
proof -
  note step = bpf_step[OF assms(1), of _ knock_port a x pkt]
  note defs = knock_filter_def bpf_def bpf_instruction_def Let_def ihl_of_def mult.commute
  show "run prog 0 a x pkt = (if 14 \<le> length pkt then run prog 1 (load_half pkt 12) x pkt else 0)"
    unfolding prog_def by (subst step) (simp_all add: defs)
  show "run prog 1 a x pkt = (if a = 0x0800 then run prog 2 a x pkt else run prog 10 a x pkt)"
    unfolding prog_def by (subst step) (simp_all add: defs numeral_2_eq_2 [symmetric])
  show "run prog 2 a x pkt = (if 24 \<le> length pkt then run prog 3 (ucast (pkt ! 23)) x pkt else 0)"
    unfolding prog_def by (subst step) (simp_all add: defs)
  show "run prog 3 a x pkt = (if a = 17 then run prog 4 a x pkt else run prog 10 a x pkt)"
    unfolding prog_def by (subst step) (simp_all add: defs)
  show "run prog 4 a x pkt = (if 22 \<le> length pkt then run prog 5 (load_half pkt 20) x pkt else 0)"
    unfolding prog_def by (subst step) (simp_all add: defs)
  show "run prog 5 a x pkt = (if a AND 0x1fff \<noteq> 0 then run prog 10 a x pkt else run prog 6 a x pkt)"
    unfolding prog_def by (subst step) (simp_all add: defs)
  show "run prog 6 a x pkt =
      (if 15 \<le> length pkt then run prog 7 a (word_of_nat (ihl_of (pkt ! 14))) pkt else 0)"
    unfolding prog_def by (subst step) (simp_all add: defs)
  show "run prog 7 a x pkt =
      (if unat x + 18 \<le> length pkt then run prog 8 (load_half pkt (unat x + 16)) x pkt else 0)"
    unfolding prog_def by (subst step) (simp_all add: defs)
  show "run prog 8 a x pkt = (if a = ucast knock_port then run prog 9 a x pkt else run prog 10 a x pkt)"
    unfolding prog_def by (subst step) (simp_all add: defs)
  show "run prog 9 a x pkt = 0x00040000"
    unfolding prog_def by (subst step) (simp_all add: defs)
  show "run prog 10 a x pkt = 0"
    unfolding prog_def by (subst step) (simp_all add: defs)
qed

lemma filter_passes_iff:
  assumes "bpf_lawful run"
  shows "filter_passes run knock_port pkt \<longleftrightarrow> filter_spec knock_port pkt"
proof -
  note steps = filter_steps[OF assms, of knock_port, unfolded One_nat_def]
  have ihl: "unat (word_of_nat (ihl_of b) :: u32) = ihl_of b" for b
    using ihl_less[of b] by (simp add: unat_of_nat)
  have half: "load_half pkt i = ucast w \<longleftrightarrow> of_be16 [pkt ! i, pkt ! (i + 1)] = w" for i and w :: u16
    by (simp add: load_half_def ucast_eq_iff)
  have type: "load_half pkt 12 = 0x0800 \<longleftrightarrow> of_be16 [pkt ! 12, pkt ! 13] = ETHERTYPE_IPV4"
    using half[of 12 ETHERTYPE_IPV4] by (simp add: ETHERTYPE_IPV4_def)
  have proto: "(ucast (pkt ! 23) :: u32) = 17 \<longleftrightarrow> pkt ! 23 = IPPROTO_UDP"
    by (simp add: word_unat_eq_iff unat_ucast8 IPPROTO_UDP_def)
  have frag: "load_half pkt 20 AND 0x1fff = 0 \<longleftrightarrow> of_be16 [pkt ! 20, pkt ! 21] AND 0x1fff = 0"
    by (simp add: load_half_def word_unat_eq_iff unsigned_and_eq unat_ucast16)
  have port: "load_half pkt (n + 16) = ucast knock_port \<longleftrightarrow>
      of_be16 [pkt ! (n + 16), pkt ! (n + 17)] = knock_port" for n
  proof -
    have "n + 16 + 1 = n + 17" by simp
    from half[of "n + 16" knock_port, unfolded this] show ?thesis .
  qed
  show ?thesis
    unfolding filter_passes_def filter_spec_def
    by (auto simp: steps ihl type proto frag port)
qed


text \<open>A machine with these instructions, for concrete instances; every jump goes forward.\<close>

function bpf_machine :: bpf_machine where
  "bpf_machine prog pc a x pkt =
     (if length prog \<le> pc then 0
      else bpf_instruction (\<lambda>prog' pc' a' x' pkt'.
             if pc < pc' \<and> prog' = prog then bpf_machine prog pc' a' x' pkt' else 0) prog pc a x pkt)"
  by pat_completeness auto
termination
  by (relation "measure (\<lambda>(prog, pc, a, x, pkt). length prog - pc)") auto

declare bpf_machine.simps [simp del]

lemma bpf_machine_lawful: "bpf_lawful bpf_machine"
  unfolding bpf_lawful_def
  by (intro allI impI, subst bpf_machine.simps) (auto simp: bpf_instruction_def Let_def)

section \<open>The cooldown as a filter\<close>

definition allow_check ::
    "sniffer_config \<Rightarrow> (ipv4addr \<times> u64) list \<Rightarrow> ipv4addr \<times> bool \<Rightarrow> u64 \<Rightarrow> bool \<times> (ipv4addr \<times> u64) list" where
  "allow_check cfg recent req now =
     (case allow_source cfg recent (fst req) now (snd req) of
        (Opened ip cmd, recent') \<Rightarrow> (True, recent')
      | (v, recent') \<Rightarrow> (False, recent'))"

definition cooldown_wf :: "sniffer_config \<Rightarrow> (ipv4addr \<times> u64) list \<Rightarrow> bool" where
  "cooldown_wf cfg recent \<longleftrightarrow> distinct (map fst recent) \<and> 0 < unat (sc_cooldown cfg)"

lemma allow_check_cases:
  assumes "cooldown_wf cfg recent" "allow_check cfg recent req now = (b, recent')"
  obtains
    (cooling) t where "map_of recent (fst req) = Some t" "unat now - unat t < unat (sc_cooldown cfg)"
      "\<not> b" "recent' = recent"
  | (called) kept where "\<And>t. map_of recent (fst req) = Some t \<Longrightarrow> unat (sc_cooldown cfg) \<le> unat now - unat t"
      "kept = recent \<or> kept = retain (\<lambda>t. saturating_sub now t < sc_cooldown cfg) recent"
      "b = snd req" "recent' = (if b then AList.update (fst req) now kept else kept)"
proof (cases "map_of recent (fst req)")
  case None
  with assms show ?thesis
    by (intro called[of "if RECENT_ALLOW_CAP \<le> length recent
          then retain (\<lambda>t. saturating_sub now t < sc_cooldown cfg) recent else recent"])
       (auto simp: allow_check_def allow_source_def allow_def Let_def split: bool.splits if_splits)
next
  case (Some t)
  show ?thesis
  proof (cases "saturating_sub now t < sc_cooldown cfg")
    case True
    with Some assms(2) show ?thesis
      by (intro cooling) (auto simp: allow_check_def allow_source_def time_simps)
  next
    case False
    with Some assms show ?thesis
      by (intro called[of "if RECENT_ALLOW_CAP \<le> length recent
            then retain (\<lambda>t. saturating_sub now t < sc_cooldown cfg) recent else recent"])
         (auto simp: allow_check_def allow_source_def allow_def Let_def time_simps
            split: bool.splits if_splits)
  qed
qed

lemma kept_wf: "cooldown_wf cfg recent \<Longrightarrow>
    kept = recent \<or> kept = retain (\<lambda>t. saturating_sub now t < sc_cooldown cfg) recent \<Longrightarrow>
    distinct (map fst kept) \<and>
    (map_of recent k = Some t \<and> unat now - unat t < unat (sc_cooldown cfg) \<longrightarrow> map_of kept k = Some t)"
  by (auto simp: cooldown_wf_def distinct_retain map_of_retain time_simps set_retain)

interpretation cooldown: replay_filter "allow_check cfg" fst map_of "cooldown_wf cfg"
  "\<lambda>_. unat (sc_cooldown cfg) - 1" for cfg
proof unfold_locales
  fix s s' :: "(ipv4addr \<times> u64) list" and k :: "ipv4addr \<times> bool" and now b
  assume s: "cooldown_wf cfg s" and c: "allow_check cfg s k now = (b, s')"
  from s c show "cooldown_wf cfg s' \<and> unat (sc_cooldown cfg) - 1 = unat (sc_cooldown cfg) - 1"
  proof (cases rule: allow_check_cases)
    case (called kept)
    have "distinct (map fst kept)" using called(2) s by (auto simp: cooldown_wf_def distinct_retain)
    with called(4) s show ?thesis by (simp add: cooldown_wf_def distinct_update)
  qed (use s in simp)
next
  fix s s' :: "(ipv4addr \<times> u64) list" and k :: "ipv4addr \<times> bool" and now
  assume "cooldown_wf cfg s" "allow_check cfg s k now = (True, s')"
  then show "map_of s' (fst k) = Some now"
    by (cases rule: allow_check_cases) (auto simp: update_conv')
next
  fix s :: "(ipv4addr \<times> u64) list" and k :: "ipv4addr \<times> bool" and t now :: u64
  assume s: "cooldown_wf cfg s" "map_of s (fst k) = Some t" "unat now - unat t \<le> unat (sc_cooldown cfg) - 1"
  obtain b s' where c: "allow_check cfg s k now = (b, s')" by fastforce
  with s(1) show "\<not> fst (allow_check cfg s k now)"
    by (cases rule: allow_check_cases) (use s c in \<open>auto simp: cooldown_wf_def\<close>)
next
  fix s s' :: "(ipv4addr \<times> u64) list" and k :: "ipv4addr \<times> bool" and n and t now :: u64 and b
  assume s: "cooldown_wf cfg s" "map_of s n = Some t" "unat now - unat t \<le> unat (sc_cooldown cfg) - 1"
    and c: "allow_check cfg s k now = (b, s')"
  from s have fresh: "unat now - unat t < unat (sc_cooldown cfg)" by (auto simp: cooldown_wf_def)
  from s(1) c show "map_of s' n = Some t"
  proof (cases rule: allow_check_cases)
    case (called kept)
    with fresh s(2) have "fst k \<noteq> n" by force
    with kept_wf[OF s(1) called(2), of n t] called(4) s(2) fresh show ?thesis
      by (auto simp: update_conv')
  qed (use s in simp)
qed


section \<open>The loop as a filter over frames\<close>

definition datagram_in :: "bytes \<Rightarrow> datagram option" where
  "datagram_in bs =
     (let frame = take RECV_BUF bs in
      if ethernet_ipv4 frame \<and> udp_packet (drop 14 frame) then Some (datagram_of (drop 14 frame)) else None)"

definition source_of :: "bytes \<Rightarrow> ipv4addr" where
  "source_of bs = fst (datagram_of (drop 14 (take RECV_BUF bs)))"

lemma turn_eq:
  "sniffer_turn C cfg s (RecvBytes bs) clock nft_ok =
     (case datagram_in bs of
        None \<Rightarrow> Returns (Ignored, s)
      | Some (src, dst_port, payload) \<Rightarrow>
          if dst_port \<noteq> sc_knock_port cfg \<or> length payload \<noteq> PACKET_LEN then Returns (Ignored, s) else
          rbind (verifier_open C (sn_verifier s) payload (now_unix clock)) (\<lambda>(result, v).
          case result of
            Inl e \<Rightarrow> Returns (Ignored, s\<lparr>sn_verifier := v\<rparr>)
          | Inr k \<Rightarrow>
              if tunnel_port k \<noteq> sc_tunnel_port cfg then Returns (Ignored, s\<lparr>sn_verifier := v\<rparr>) else
              (case allow_source cfg (recent_allows s) src (now_unix clock) nft_ok of
                 (verdict, recent) \<Rightarrow>
                   Returns (verdict, s\<lparr>sn_verifier := v, recent_allows := recent\<rparr>))))"
  by (auto simp: sniffer_turn_def datagram_in_def parse_ethernet_eq parse_ipv4_udp_eq Let_def
      ethernet_ipv4_def split: option.splits prod.splits)

lemma datagram_in_source: "datagram_in bs = Some (src, p, m) \<Longrightarrow> source_of bs = src"
  by (auto simp: datagram_in_def source_of_def Let_def split: if_splits)

lemma allow_source_opened:
  "allow_source cfg recent src now ok = (Opened ip cmd, recent') \<Longrightarrow>
     ip = src \<and> ok \<and> cmd = ''nft'' # add_element_args (sc_firewall cfg) src"
  by (auto simp: allow_source_def allow_def Let_def split: bool.splits if_splits)

lemma sniffer_turn_cases:
  obtains
    (panic) payload where "verifier_open C (sn_verifier s) payload (now_unix clock) = Panic"
      "sniffer_turn C cfg s (RecvBytes bs) clock nft_ok = Panic"
  | (ignored) v where "sniffer_turn C cfg s (RecvBytes bs) clock nft_ok = Returns (Ignored, s\<lparr>sn_verifier := v\<rparr>)"
  | (knock) src payload k v verdict recent where
      "datagram_in bs = Some (src, sc_knock_port cfg, payload)"
      "verifier_open C (sn_verifier s) payload (now_unix clock) = Returns (Inr k, v)"
      "tunnel_port k = sc_tunnel_port cfg"
      "allow_source cfg (recent_allows s) src (now_unix clock) nft_ok = (verdict, recent)"
      "sniffer_turn C cfg s (RecvBytes bs) clock nft_ok =
         Returns (verdict, s\<lparr>sn_verifier := v, recent_allows := recent\<rparr>)"
proof (cases "\<exists>src payload. datagram_in bs = Some (src, sc_knock_port cfg, payload) \<and> length payload = PACKET_LEN")
  case False
  then have "sniffer_turn C cfg s (RecvBytes bs) clock nft_ok = Returns (Ignored, s\<lparr>sn_verifier := sn_verifier s\<rparr>)"
    by (auto simp: turn_eq split: option.splits)
  then show thesis by (rule ignored)
next
  case True
  then obtain src payload where d: "datagram_in bs = Some (src, sc_knock_port cfg, payload)"
    "length payload = PACKET_LEN" by blast
  show thesis
  proof (cases "verifier_open C (sn_verifier s) payload (now_unix clock)")
    case Panic
    with d show ?thesis by (intro panic) (auto simp: turn_eq)
  next
    case (Returns rv)
    obtain r v where rv: "rv = (r, v)" by (cases rv)
    obtain verdict recent where al: "allow_source cfg (recent_allows s) src (now_unix clock) nft_ok = (verdict, recent)"
      by fastforce
    show ?thesis
    proof (cases "\<exists>k. r = Inr k \<and> tunnel_port k = sc_tunnel_port cfg")
      case True
      then obtain k where k: "r = Inr k" "tunnel_port k = sc_tunnel_port cfg" by blast
      with Returns rv have vo: "verifier_open C (sn_verifier s) payload (now_unix clock) = Returns (Inr k, v)"
        by simp
      have "sniffer_turn C cfg s (RecvBytes bs) clock nft_ok =
          Returns (verdict, s\<lparr>sn_verifier := v, recent_allows := recent\<rparr>)"
        using d vo k(2) al by (simp add: turn_eq)
      then show ?thesis by (rule knock[OF d(1) vo k(2) al])
    next
      case False
      with d Returns rv show ?thesis by (intro ignored[of v]) (cases r; auto simp: turn_eq)
    qed
  qed
qed

lemma turn_no_panic:
  assumes "aead_lawful C"
  shows "sniffer_turn C cfg s received clock nft_ok \<noteq> Panic"
proof (cases received)
  case (RecvBytes bs)
  show ?thesis unfolding RecvBytes
    by (cases rule: sniffer_turn_cases[of C s clock cfg bs nft_ok])
      (use verifier_open_no_panic[OF assms] in auto)
qed (simp add: sniffer_turn_def)

definition sniffer_check :: "crypto \<Rightarrow> sniffer_config \<Rightarrow> sniffer \<Rightarrow> bytes \<times> bool \<Rightarrow> u64 \<Rightarrow> bool \<times> sniffer" where
  "sniffer_check C cfg s e now =
     (case sniffer_turn C cfg s (RecvBytes (fst e)) (Some now) (snd e) of
        Returns (Opened ip cmd, s') \<Rightarrow> (True, s')
      | Returns (v, s') \<Rightarrow> (False, s')
      | Panic \<Rightarrow> (False, s))"

lemma sniffer_check_cases:
  assumes "sniffer_check C cfg s e now = (b, s')"
  obtains "\<not> b" "recent_allows s' = recent_allows s"
  | "allow_check cfg (recent_allows s) (source_of (fst e), snd e) now = (b, recent_allows s')"
proof (cases rule: sniffer_turn_cases[of C s "Some now" cfg "fst e" "snd e"])
  case (panic payload)
  with assms that(1) show thesis by (simp add: sniffer_check_def)
next
  case (ignored v)
  with assms that(1) show thesis by (auto simp: sniffer_check_def)
next
  case (knock src payload k v verdict recent)
  from datagram_in_source[OF knock(1)] have src: "source_of (fst e) = src" .
  show thesis
    using assms that(2) knock(4,5)
    by (auto simp: sniffer_check_def allow_check_def src now_unix_def split: verdict.splits)
qed

lemma datagram_in_udp_frame:
  assumes "ipv4_header hdr src" "length macs = 12" "length sport = 2" "length csum = 2"
    and "8 + length payload < 65536" "length (udp_frame macs hdr sport dport csum payload pad) \<le> RECV_BUF"
  shows "datagram_in (udp_frame macs hdr sport dport csum payload pad) = Some (src, dport, payload)"
  using parse_udp_frame[OF assms(1-5), of dport pad] assms(6)
  by (auto simp: datagram_in_def parse_ethernet_Some)

lemma turn_sealed:
  assumes "aead_lawful C" "verifier_for C p pub (sn_verifier s)" "length nonce = 12"
    and "datagram_in bs = Some (src, sc_knock_port cfg, seal_at C p pub (sc_tunnel_port cfg) ts nonce)"
    and "\<not> window (replay (sn_verifier s)) < abs_diff now ts"
    and "check_and_record (replay (sn_verifier s)) nonce now = (True, g)"
    and "\<And>t. map_of (recent_allows s) src = Some t \<Longrightarrow> sc_cooldown cfg \<le> saturating_sub now t"
  shows "\<exists>recent. map_of recent src = Some now \<and>
    sniffer_turn C cfg s (RecvBytes bs) (Some now) True =
      Returns (Opened src (''nft'' # add_element_args (sc_firewall cfg) src),
        s\<lparr>sn_verifier := (sn_verifier s)\<lparr>replay := g\<rparr>, recent_allows := recent\<rparr>)"
proof -
  have o: "verifier_open C (sn_verifier s) (seal_at C p pub (sc_tunnel_port cfg) ts nonce) now =
      Returns (Inr \<lparr>tunnel_port = sc_tunnel_port cfg\<rparr>, (sn_verifier s)\<lparr>replay := g\<rparr>)"
    using assms(5,6) by (simp add: open_sealed[OF assms(1,3,2)])
  have len: "length (seal_at C p pub (sc_tunnel_port cfg) ts nonce) = PACKET_LEN"
    by (simp add: seal_at_parts(1)[OF assms(1,3)] packet_consts)
  let ?kept = "if RECENT_ALLOW_CAP \<le> length (recent_allows s)
    then retain (\<lambda>t. saturating_sub now t < sc_cooldown cfg) (recent_allows s) else recent_allows s"
  have "allow_source cfg (recent_allows s) src now True =
      (Opened src (''nft'' # add_element_args (sc_firewall cfg) src), AList.update src now ?kept)"
    using assms(7) by (auto simp: allow_source_def allow_def Let_def not_less[symmetric] split: option.splits)
  then show ?thesis
    using assms(4) o len
    by (intro exI[of _ "AList.update src now ?kept"]) (simp add: turn_eq now_unix_def update_conv')
qed

interpretation sniffer: replay_filter "sniffer_check C cfg" "\<lambda>e. source_of (fst e)"
  "\<lambda>s. map_of (recent_allows s)" "\<lambda>s. cooldown_wf cfg (recent_allows s)"
  "\<lambda>_. unat (sc_cooldown cfg) - 1" for C cfg
proof unfold_locales
  fix s s' :: sniffer and k :: "bytes \<times> bool" and now b
  assume a: "cooldown_wf cfg (recent_allows s)" and c: "sniffer_check C cfg s k now = (b, s')"
  from c show "cooldown_wf cfg (recent_allows s') \<and> unat (sc_cooldown cfg) - 1 = unat (sc_cooldown cfg) - 1"
    by (cases rule: sniffer_check_cases) (use a cooldown.wf_check[OF a] in auto)
next
  fix s s' :: sniffer and k :: "bytes \<times> bool" and now
  assume a: "cooldown_wf cfg (recent_allows s)" and c: "sniffer_check C cfg s k now = (True, s')"
  from c show "map_of (recent_allows s') (source_of (fst k)) = Some now"
    by (cases rule: sniffer_check_cases) (use cooldown.check_records[OF a] in fastforce)+
next
  fix s :: sniffer and k :: "bytes \<times> bool" and t now :: u64
  assume a: "cooldown_wf cfg (recent_allows s)" "map_of (recent_allows s) (source_of (fst k)) = Some t"
    "unat now - unat t \<le> unat (sc_cooldown cfg) - 1"
  obtain b s' where c: "sniffer_check C cfg s k now = (b, s')" by fastforce
  then show "\<not> fst (sniffer_check C cfg s k now)"
    by (cases rule: sniffer_check_cases)
       (use c cooldown.check_blocks[OF a(1), of "(source_of (fst k), snd k)" t now] a in auto)
next
  fix s s' :: sniffer and k :: "bytes \<times> bool" and n and t now :: u64 and b
  assume a: "cooldown_wf cfg (recent_allows s)" "map_of (recent_allows s) n = Some t"
    "unat now - unat t \<le> unat (sc_cooldown cfg) - 1" and c: "sniffer_check C cfg s k now = (b, s')"
  from c show "map_of (recent_allows s') n = Some t"
    by (cases rule: sniffer_check_cases) (use a cooldown.check_keeps[OF a] in auto)
qed


section \<open>Properties\<close>

lemma opened_by_knock:
  assumes "aead_lawful C" "aead_authentic C" "verifier_for C p pub (sn_verifier s)"
    and "sniffer_turn C cfg s (RecvBytes bs) clock nft_ok = Returns (Opened src cmd, s')"
  shows "\<exists>ts nonce. nft_ok \<and> length nonce = 12 \<and>
    datagram_in bs = Some (src, sc_knock_port cfg, seal_at C p pub (sc_tunnel_port cfg) ts nonce) \<and>
    unat (abs_diff (now_unix clock) ts) \<le> unat (window (replay (sn_verifier s))) \<and>
    fst (check_and_record (replay (sn_verifier s)) nonce (now_unix clock)) \<and>
    cmd = ''nft'' # add_element_args (sc_firewall cfg) src"
proof (cases rule: sniffer_turn_cases[of C s clock cfg bs nft_ok])
  case (knock ip payload k v verdict recent)
  from knock(5) assms(4) have "verdict = Opened src cmd" by simp
  with allow_source_opened[of cfg "recent_allows s" ip "now_unix clock" nft_ok src cmd recent] knock(4)
  have "src = ip" "nft_ok" "cmd = ''nft'' # add_element_args (sc_firewall cfg) src" by auto
  moreover from verifier_open_sound[OF assms(1-3) knock(2)] obtain ts nonce g where
    "length nonce = 12" "payload = seal_at C p pub (tunnel_port k) ts nonce"
    "unat (abs_diff (now_unix clock) ts) \<le> unat (window (replay (sn_verifier s)))"
    "check_and_record (replay (sn_verifier s)) nonce (now_unix clock) = (True, g)" by blast
  ultimately show ?thesis using knock(1,3) by (intro exI[of _ ts] exI[of _ nonce]) simp
qed (use assms(4) in simp_all)

text \<open>
  The firewall is opened for an address only by a frame that carries, from that very
  address to the knock port, a knock sealed with the shared key for this server and its
  tunnel port, stamped within the window and not seen within it; and the command that is run
  adds exactly that address, with the configured lifetime, to the configured set.
\<close>

theorem firewall_opened_only_by_knock:
  assumes "aead_lawful C" "aead_authentic C" "verifier_for C p pub (sn_verifier s)"
    and "sniffer_turn C cfg s (RecvBytes bs) clock nft_ok = Returns (Opened src cmd, s')"
  shows "\<exists>ts nonce. length nonce = 12 \<and>
    datagram_in bs = Some (src, sc_knock_port cfg, seal_at C p pub (sc_tunnel_port cfg) ts nonce) \<and>
    unat (abs_diff (now_unix clock) ts) \<le> unat (window (replay (sn_verifier s))) \<and>
    fst (check_and_record (replay (sn_verifier s)) nonce (now_unix clock)) \<and>
    cmd = ''nft'' # add_element_args (sc_firewall cfg) src"
  using opened_by_knock[OF assms] by blast

definition sample_sniffer_config :: sniffer_config where
  "sample_sniffer_config = \<lparr>sc_knock_port = 62201, sc_tunnel_port = 8443, sc_cooldown = 30,
     sc_firewall = \<lparr>fw_table = ''hyperion'', fw_set = ''knock_allow'', fw_ttl_secs = 60\<rparr>\<rparr>"

definition sample_frame :: "u64 \<Rightarrow> bytes" where
  "sample_frame ts = udp_frame (replicate 12 0)
     ([0x45] @ replicate 8 0 @ [17, 0, 0, 203, 0, 113, 7] @ replicate 4 0) [1, 2] 62201 [0, 0] (sample_packet ts) []"

lemma sample_packet_length: "length (sample_packet ts) = 44"
  by (simp add: sample_packet_def seal_at_parts(1)[OF toy_aead_lawful] del: replicate.simps)

lemma sample_header: "ipv4_header ([0x45] @ replicate 8 0 @ [17, 0, 0, 203, 0, 113, 7] @ replicate 4 0) (Ipv4Addr 203 0 113 7)"
  by code_simp

lemma sample_datagram: "datagram_in (sample_frame ts) = Some (Ipv4Addr 203 0 113 7, 62201, sample_packet ts)"
  unfolding sample_frame_def
  by (rule datagram_in_udp_frame[OF sample_header])
     (simp_all add: sample_packet_length udp_frame_def RECV_BUF_def)

lemma sample_opened:
  "\<exists>s'. sniffer_turn toy_crypto sample_sniffer_config (sniffer_start toy_crypto sample_psk sample_server 30)
     (RecvBytes (sample_frame 1000)) (Some 1005) True =
   Returns (Opened (Ipv4Addr 203 0 113 7) (''nft'' # add_element_args (sc_firewall sample_sniffer_config)
     (Ipv4Addr 203 0 113 7)), s')"
proof -
  let ?s = "sniffer_start toy_crypto sample_psk sample_server 30"
  have v: "verifier_for toy_crypto sample_psk sample_server (sn_verifier ?s)" by (simp add: sniffer_start_def)
  have r: "replay (sn_verifier ?s) = replay_guard_new 30" "recent_allows ?s = []"
    by (simp_all add: sniffer_start_def verifier_new_def)
  have d: "datagram_in (sample_frame 1000) = Some (Ipv4Addr 203 0 113 7, sc_knock_port sample_sniffer_config,
      seal_at toy_crypto sample_psk sample_server (sc_tunnel_port sample_sniffer_config) 1000 (replicate 12 1))"
    by (simp add: sample_datagram sample_packet_def sample_sniffer_config_def)
  have g: "check_and_record (replay (sn_verifier ?s)) (replicate 12 1) 1005 =
      (True, \<lparr>seen = [(replicate 12 1, 1005)], window = 30\<rparr>)"
    unfolding r by (simp add: check_and_record_def Let_def replay_guard_new_def REPLAY_CAP_def)
  have w: "\<not> window (replay (sn_verifier ?s)) < abs_diff 1005 1000"
    unfolding r by (simp add: replay_guard_new_def abs_diff_def)
  from turn_sealed[OF toy_aead_lawful v _ d w g] show ?thesis by (auto simp: r)
qed

theorem firewall_opened_only_by_knock_witness:
  "\<exists>ts nonce. length nonce = 12 \<and>
    datagram_in (sample_frame 1000) =
      Some (Ipv4Addr 203 0 113 7, 62201, seal_at toy_crypto sample_psk sample_server 8443 ts nonce)"
proof -
  have "verifier_for toy_crypto sample_psk sample_server (sn_verifier (sniffer_start toy_crypto sample_psk sample_server 30))"
    by (simp add: sniffer_start_def)
  note opens = firewall_opened_only_by_knock[OF toy_aead_lawful toy_aead_authentic this]
  obtain s' where "sniffer_turn toy_crypto sample_sniffer_config (sniffer_start toy_crypto sample_psk sample_server 30)
     (RecvBytes (sample_frame 1000)) (Some 1005) True =
   Returns (Opened (Ipv4Addr 203 0 113 7) (''nft'' # add_element_args (sc_firewall sample_sniffer_config)
     (Ipv4Addr 203 0 113 7)), s')" using sample_opened by blast
  from opens[OF this] obtain ts nonce where "length nonce = 12"
    "datagram_in (sample_frame 1000) = Some (Ipv4Addr 203 0 113 7, sc_knock_port sample_sniffer_config,
       seal_at toy_crypto sample_psk sample_server (sc_tunnel_port sample_sniffer_config) ts nonce)" by blast
  then show ?thesis by (intro exI[of _ ts] exI[of _ nonce]) (simp add: sample_sniffer_config_def)
qed

text \<open>
  C34: while the clock does not run backwards, two frames from the same address never open the
  firewall less than the cooldown apart, whatever arrives in between and also when the table
  of recent addresses is being pruned.
\<close>

theorem firewall_cooldown:
  assumes "distinct (map fst (recent_allows s))" "0 < unat (sc_cooldown cfg)"
    and "sorted (map (\<lambda>e. unat (snd e)) es)" "i < j" "j < length es"
    and "source_of (fst (fst (es ! i))) = source_of (fst (fst (es ! j)))"
    and "run_checks (sniffer_check C cfg) s es ! i" "run_checks (sniffer_check C cfg) s es ! j"
  shows "unat (sc_cooldown cfg) \<le> unat (snd (es ! j)) - unat (snd (es ! i))"
proof (rule ccontr)
  assume close: "\<not> unat (sc_cooldown cfg) \<le> unat (snd (es ! j)) - unat (snd (es ! i))"
  have "unat (snd (es ! m)) - unat (snd (es ! i)) \<le> unat (sc_cooldown cfg) - 1" if "i < m \<and> m \<le> j" for m
  proof -
    have "unat (snd (es ! m)) \<le> unat (snd (es ! j))"
      using assms(3,5) that sorted_nth_mono[of "map (\<lambda>e. unat (snd e)) es" m j] by simp
    with close show ?thesis by linarith
  qed
  then have "\<not> run_checks (sniffer_check C cfg) s es ! j"
    using assms by (intro sniffer.no_double_acceptance[of cfg s i j es C]) (auto simp: cooldown_wf_def)
  with assms(8) show False by simp
qed

theorem firewall_cooldown_witness:
  "run_checks (sniffer_check toy_crypto sample_sniffer_config) (sniffer_start toy_crypto sample_psk sample_server 30)
     [((sample_frame 1000, True), 1005), ((sample_frame 1020, True), 1020)] ! 1 \<longleftrightarrow> False"
proof -
  let ?es = "[((sample_frame 1000, True), 1005 :: u64), ((sample_frame 1020, True), 1020)]"
  let ?s = "sniffer_start toy_crypto sample_psk sample_server 30"
  have src: "source_of (fst (fst (?es ! 0))) = source_of (fst (fst (?es ! 1)))"
    using datagram_in_source[OF sample_datagram] by simp
  have one: "run_checks (sniffer_check toy_crypto sample_sniffer_config) ?s ?es ! 0"
    using sample_opened by (auto simp: sniffer_check_def split: prod.splits)
  have "\<not> run_checks (sniffer_check toy_crypto sample_sniffer_config) ?s ?es ! 1"
    using firewall_cooldown[of ?s sample_sniffer_config ?es 0 1 toy_crypto, OF _ _ _ _ _ src one]
    by (auto simp: sniffer_start_def sample_sniffer_config_def)
  then show ?thesis by simp
qed

text \<open>An IPv4 fragment other than the first, as the filter sees it.\<close>

definition later_fragment :: "bytes \<Rightarrow> bool" where
  "later_fragment pkt \<longleftrightarrow>
     ethernet_ipv4 pkt \<and> 22 \<le> length pkt \<and> of_be16 [pkt ! 20, pkt ! 21] AND 0x1fff \<noteq> 0"

lemma udp_frame_whole:
  assumes "ipv4_header hdr src" "of_be16 [hdr ! 6, hdr ! 7] AND 0x1fff = 0" "length macs = 12"
  shows "\<not> later_fragment (udp_frame macs hdr sport dport csum payload pad)"
proof -
  have "udp_frame macs hdr sport dport csum payload pad ! 20 = hdr ! 6"
    "udp_frame macs hdr sport dport csum payload pad ! 21 = hdr ! 7"
    using assms(1,3) by (simp_all add: udp_frame_def nth_append ipv4_header_def)
  with assms(2) show ?thesis by (simp add: later_fragment_def)
qed

lemma datagram_passes:
  assumes "datagram_in pkt = Some (src, port, payload)" "\<not> later_fragment pkt"
  shows "filter_spec port pkt"
proof -
  let ?f = "take RECV_BUF pkt"
  from assms(1) have e: "ethernet_ipv4 ?f" and u: "udp_packet (drop 14 ?f)"
    and d: "datagram_of (drop 14 ?f) = (src, port, payload)"
    by (auto simp: datagram_in_def Let_def split: if_splits)
  from u have len: "34 \<le> length ?f" by (auto simp: udp_packet_def)
  then have pkt: "34 \<le> length pkt" by simp
  have nth: "?f ! i = pkt ! i" if "i < 100" for i using that by (simp add: RECV_BUF_def)
  let ?h = "ihl_of (pkt ! 14)"
  have h64: "?h < 64" by (rule ihl_less)
  from u len have h: "?h + 22 \<le> length ?f" "pkt ! 23 = IPPROTO_UDP"
    by (auto simp: udp_packet_def nth)
  have "14 + (?h + 2) = ?h + 16" "14 + (?h + 3) = ?h + 17" by simp_all
  then have "of_be16 [pkt ! (?h + 16), pkt ! (?h + 17)] = port"
    using d len h(1) h64 by (auto simp: datagram_of_def nth add.commute)
  with e pkt h assms(2) nth show ?thesis
    by (simp add: filter_spec_def ethernet_ipv4_def later_fragment_def)
qed

text \<open>
  The filter program attached in the kernel accepts exactly the IPv4/UDP frames to the knock
  port that are long enough to have that port and are not later fragments, and therefore every
  frame, later fragments apart, in which the parser finds a datagram to the knock port.
\<close>

theorem kernel_filter_exact:
  assumes "bpf_lawful run"
  shows "(filter_passes run knock_port pkt \<longleftrightarrow> filter_spec knock_port pkt) \<and>
    (datagram_in pkt = Some (src, knock_port, payload) \<and> \<not> later_fragment pkt \<longrightarrow> filter_passes run knock_port pkt)"
  using filter_passes_iff[OF assms] datagram_passes by blast

theorem kernel_filter_exact_witness:
  "filter_passes bpf_machine 62201 (sample_frame 1000)"
proof -
  have "\<not> later_fragment (sample_frame 1000)"
    by (simp add: later_fragment_def sample_frame_def udp_frame_def nth_append of_be16_def nat_of_be_def)
  then show ?thesis
    using kernel_filter_exact[OF bpf_machine_lawful, of 62201 "sample_frame 1000"] sample_datagram[of 1000]
    by blast
qed

text \<open>
  No frame, however malformed, makes the sniffer panic.
\<close>

theorem sniffer_never_panics:
  assumes "aead_lawful C"
  shows "\<exists>verdict s'. sniffer_turn C cfg s received clock nft_ok = Returns (verdict, s')"
  using turn_no_panic[OF assms, of cfg s received clock nft_ok]
  by (cases "sniffer_turn C cfg s received clock nft_ok") auto

theorem sniffer_never_panics_witness:
  "\<exists>verdict s'. sniffer_turn toy_crypto sample_sniffer_config (sniffer_start toy_crypto sample_psk sample_server 30)
     (RecvBytes [1, 2, 3]) None True = Returns (verdict, s')"
  by (rule sniffer_never_panics[OF toy_aead_lawful])

end
