(* ===== verification/Sniffer_Run.thy ===== *)
theory Sniffer_Run
  imports Knock_Sniffer
begin

text \<open>
  \<open>run_blocking\<close> of \<open>sniffer.rs\<close> as a whole: opening the packet socket, attaching the filter, whose
  failure is only logged, and the loop over what the kernel delivers. The results of the system
  calls, the frames on the wire and the clock are inputs; a socket holds the program attached to it.
  The kernel runs an attached program on every frame and delivers as many of its first bytes as the
  verdict says, none for zero.
\<close>

section \<open>The socket\<close>

record packet_socket =
  ps_fd :: int
  ps_filter :: "sock_filter list option"

text \<open>\<open>setsockopt\<close> returns \<open>rc\<close>; the program is attached when that is zero.\<close>

definition attach_knock_filter ::
    "int \<Rightarrow> string \<Rightarrow> packet_socket \<Rightarrow> u16 \<Rightarrow> (string + unit) \<times> packet_socket" where
  "attach_knock_filter rc last_os_error sock knock_port =
     (let prog = knock_filter knock_port;
          sock1 = (if rc = 0 then sock\<lparr>ps_filter := Some prog\<rparr> else sock) in
      if rc \<noteq> 0 then (Inl last_os_error, sock1) else (Inr (), sock1))"

definition delivered :: "bpf_machine \<Rightarrow> packet_socket \<Rightarrow> bytes \<Rightarrow> bytes option" where
  "delivered run sock pkt =
     (case ps_filter sock of
        None \<Rightarrow> Some pkt
      | Some prog \<Rightarrow>
          let n = unat (run prog 0 0 0 pkt) in if n = 0 then None else Some (take n pkt))"

text \<open>What happens at the socket: a frame arrives or \<open>recv\<close> fails; with the clock and \<open>nft\<close>'s success.\<close>

datatype socket_event = Frame bytes | RecvFails bool

type_synonym turn_input = "u64 option \<times> bool"

definition received_at :: "bpf_machine \<Rightarrow> packet_socket \<Rightarrow> socket_event \<times> turn_input \<Rightarrow> (recv_result \<times> turn_input) option" where
  "received_at run sock ev =
     (case ev of
        (Frame pkt, inp) \<Rightarrow> map_option (\<lambda>bs. (RecvBytes bs, inp)) (delivered run sock pkt)
      | (RecvFails interrupted, inp) \<Rightarrow> Some (RecvError interrupted, inp))"

section \<open>The loop\<close>

text \<open>The loop on the results of \<open>recv\<close> so far: what each turn did, and the state it has reached.\<close>

fun sniff_loop ::
    "crypto \<Rightarrow> sniffer_config \<Rightarrow> sniffer \<Rightarrow> (recv_result \<times> turn_input) list \<Rightarrow> (verdict list \<times> sniffer) rust" where
  "sniff_loop C cfg s [] = Returns ([], s)"
| "sniff_loop C cfg s ((received, clock, nft_ok) # es) =
     rbind (sniffer_turn C cfg s received clock nft_ok) (\<lambda>(v, s1).
     rbind (sniff_loop C cfg s1 es) (\<lambda>(vs, s2). Returns (v # vs, s2)))"

definition run_blocking ::
    "crypto \<Rightarrow> bpf_machine \<Rightarrow> int \<Rightarrow> int \<Rightarrow> string \<Rightarrow> u16 \<Rightarrow> u16 \<Rightarrow> psk \<Rightarrow> public_key \<Rightarrow> u64 \<Rightarrow> u64 \<Rightarrow> firewall \<Rightarrow>
     (socket_event \<times> turn_input) list \<Rightarrow> (string + verdict list \<times> sniffer) rust" where
  "run_blocking C run fd rc last_os_error knock_port dest_port p server_pub window_secs cooldown_secs fw events =
     (if fd < 0 then Returns (Inl last_os_error) else
      let sock = snd (attach_knock_filter rc last_os_error \<lparr>ps_fd = fd, ps_filter = None\<rparr> knock_port);
          cfg = \<lparr>sc_knock_port = knock_port, sc_tunnel_port = dest_port, sc_cooldown = cooldown_secs, sc_firewall = fw\<rparr>
      in rbind (sniff_loop C cfg (sniffer_start C p server_pub window_secs)
                  (List.map_filter (received_at run sock) events)) (\<lambda>r. Returns (Inr r)))"

section \<open>The filter decides nothing\<close>

text \<open>The commands among the verdicts.\<close>

definition commands :: "verdict list \<Rightarrow> verdict list" where
  "commands vs = filter (\<lambda>v. v \<noteq> Ignored) vs"

lemma knock_filter_verdict:
  assumes "bpf_lawful run"
  shows "run (knock_filter port) 0 0 0 pkt = (if filter_spec port pkt then 0x00040000 else 0)"
proof -
  note steps = filter_steps[OF assms, of port, unfolded One_nat_def]
  have "run (knock_filter port) 0 0 0 pkt \<in> {0, 0x00040000}" by (simp add: steps)
  then show ?thesis using filter_passes_iff[OF assms, of port pkt] by (auto simp: filter_passes_def)
qed

lemma delivered_filtered:
  assumes "bpf_lawful run" "ps_filter sock = Some (knock_filter port)"
  shows "delivered run sock pkt = (if filter_spec port pkt then Some (take 0x00040000 pkt) else None)"
  using assms(2) by (simp add: delivered_def knock_filter_verdict[OF assms(1)] Let_def)

lemma turn_prefix:
  assumes "RECV_BUF \<le> n"
  shows "sniffer_turn C cfg s (RecvBytes (take n pkt)) clock ok = sniffer_turn C cfg s (RecvBytes pkt) clock ok"
  using assms by (simp add: sniffer_turn_def min_absorb1)

text \<open>A frame the filter drops, later fragments apart, is one that the loop ignores.\<close>

lemma dropped_is_ignored:
  assumes "\<not> filter_spec (sc_knock_port cfg) pkt" "\<not> later_fragment pkt"
  shows "sniffer_turn C cfg s (RecvBytes pkt) clock ok = Returns (Ignored, s)"
proof (cases "datagram_in pkt")
  case None
  then show ?thesis by (simp add: turn_eq)
next
  case (Some d)
  obtain src port payload where d: "d = (src, port, payload)" by (cases d)
  with Some assms datagram_passes have "port \<noteq> sc_knock_port cfg" by blast
  with Some d show ?thesis by (simp add: turn_eq)
qed

definition on_wire :: "(bytes \<Rightarrow> bool) \<Rightarrow> socket_event \<times> turn_input \<Rightarrow> bool" where
  "on_wire P ev \<longleftrightarrow> (case fst ev of Frame pkt \<Rightarrow> P pkt | RecvFails interrupted \<Rightarrow> False)"

lemma received_unfiltered: "ps_filter sock = None \<Longrightarrow> received_at run sock (Frame pkt, inp) = Some (RecvBytes pkt, inp)"
  by (simp add: received_at_def delivered_def)

lemma received_filtered:
  assumes "bpf_lawful run" "ps_filter sock = Some (knock_filter port)"
  shows "received_at run sock (Frame pkt, inp) =
           (if filter_spec port pkt then Some (RecvBytes (take 0x00040000 pkt), inp) else None)"
  by (simp add: received_at_def delivered_filtered[OF assms])

lemma received_error: "received_at run sock (RecvFails i, inp) = Some (RecvError i, inp)"
  by (simp add: received_at_def)

lemma commands_simps [simp]:
  "commands [] = []" "commands (Ignored # vs) = commands vs"
  "v \<noteq> Ignored \<Longrightarrow> commands (v # vs) = v # commands vs" "commands (vs @ ws) = commands vs @ commands ws"
  by (simp_all add: commands_def)

lemma commands_Cons: "commands vs = commands ws \<Longrightarrow> commands (v # vs) = commands (v # ws)"
  by (simp add: commands_def)

lemma later_fragment_dropped: "later_fragment pkt \<Longrightarrow> \<not> filter_spec port pkt"
  by (simp add: later_fragment_def filter_spec_def)

lemma sniff_loop_total:
  assumes "aead_lawful C"
  obtains vs s' where "sniff_loop C cfg s es = Returns (vs, s')"
proof (induction es arbitrary: s thesis)
  case (Cons e es)
  obtain received clock ok where e: "e = (received, clock, ok)" by (cases e)
  obtain v s1 where "sniffer_turn C cfg s received clock ok = Returns (v, s1)"
    using turn_no_panic[OF assms, of cfg s received clock ok]
    by (cases "sniffer_turn C cfg s received clock ok") auto
  moreover obtain vs s2 where "sniff_loop C cfg s1 es = Returns (vs, s2)" using Cons.IH[of s1] by blast
  ultimately show ?case by (intro Cons.prems[of "v # vs" s2]) (simp add: e)
qed simp

text \<open>Two sequences of received frames that leave the same state and the same commands.\<close>

definition agree :: "crypto \<Rightarrow> sniffer_config \<Rightarrow> sniffer \<Rightarrow> (recv_result \<times> turn_input) list \<Rightarrow>
    (recv_result \<times> turn_input) list \<Rightarrow> bool" where
  "agree C cfg s xs ys \<longleftrightarrow>
     (\<exists>vs ws s'. sniff_loop C cfg s xs = Returns (vs, s') \<and> sniff_loop C cfg s ys = Returns (ws, s') \<and>
        commands vs = commands ws)"

lemma agree_Nil: "agree C cfg s [] []"
  by (simp add: agree_def)

lemma agree_turn:
  assumes "sniffer_turn C cfg s r clock ok = Returns (v, s1)" "sniffer_turn C cfg s r' clock ok = Returns (v, s1)"
    and "agree C cfg s1 xs ys"
  shows "agree C cfg s ((r, clock, ok) # xs) ((r', clock, ok) # ys)"
proof -
  from assms(3) obtain vs ws s' where "sniff_loop C cfg s1 xs = Returns (vs, s')"
    "sniff_loop C cfg s1 ys = Returns (ws, s')" "commands vs = commands ws" unfolding agree_def by blast
  with assms(1,2) have "sniff_loop C cfg s ((r, clock, ok) # xs) = Returns (v # vs, s')"
    "sniff_loop C cfg s ((r', clock, ok) # ys) = Returns (v # ws, s')" by simp_all
  moreover have "commands (v # vs) = commands (v # ws)" using \<open>commands vs = commands ws\<close> by (rule commands_Cons)
  ultimately show ?thesis unfolding agree_def by blast
qed

lemma agree_skip:
  assumes "sniffer_turn C cfg s r clock ok = Returns (Ignored, s)" "agree C cfg s xs ys"
  shows "agree C cfg s xs ((r, clock, ok) # ys)"
proof -
  from assms(2) obtain vs ws s' where a: "sniff_loop C cfg s xs = Returns (vs, s')"
    "sniff_loop C cfg s ys = Returns (ws, s')" "commands vs = commands ws" unfolding agree_def by blast
  with assms(1) have "sniff_loop C cfg s ((r, clock, ok) # ys) = Returns (Ignored # ws, s')" by simp
  with a(1,3) show ?thesis unfolding agree_def by (metis commands_simps(2))
qed

lemma loops_agree:
  assumes "aead_lawful C" "bpf_lawful run" "ps_filter on = Some (knock_filter (sc_knock_port cfg))" "ps_filter off = None"
  shows "agree C cfg s (List.map_filter (received_at run on) events)
     (List.map_filter (received_at run off) (filter (\<lambda>ev. \<not> on_wire later_fragment ev) events))"
proof (induction events arbitrary: s)
  case Nil
  show ?case by (simp add: map_filter_simps agree_Nil)
next
  case (Cons ev events)
  obtain w clock ok where ev: "ev = (w, clock, ok)" by (cases ev)
  note simps = ev map_filter_simps on_wire_def received_error received_filtered[OF assms(2,3)]
    received_unfiltered[OF assms(4)]
  show ?case
  proof (cases w)
    case (RecvFails i)
    have "sniffer_turn C cfg s (RecvError i) clock ok = Returns (Ignored, s)" by (simp add: sniffer_turn_def)
    from agree_turn[OF this this Cons.IH[of s]] show ?thesis by (simp add: simps RecvFails)
  next
    case (Frame pkt)
    show ?thesis
    proof (cases "filter_spec (sc_knock_port cfg) pkt")
      case True
      then have fragment: "\<not> later_fragment pkt" using later_fragment_dropped by blast
      obtain v s1 where t: "sniffer_turn C cfg s (RecvBytes pkt) clock ok = Returns (v, s1)"
        using turn_no_panic[OF assms(1), of cfg s "RecvBytes pkt" clock ok]
        by (cases "sniffer_turn C cfg s (RecvBytes pkt) clock ok") auto
      then have "sniffer_turn C cfg s (RecvBytes (take 0x00040000 pkt)) clock ok = Returns (v, s1)"
        by (simp add: turn_prefix RECV_BUF_def)
      from agree_turn[OF this t Cons.IH[of s1]] show ?thesis
        using True fragment by (simp add: simps Frame)
    next
      case False
      show ?thesis
      proof (cases "later_fragment pkt")
        case True
        with False Cons.IH[of s] show ?thesis by (simp add: simps Frame)
      next
        case fragment: False
        from agree_skip[OF dropped_is_ignored[OF False fragment, of C s clock ok] Cons.IH[of s]] False fragment
        show ?thesis by (simp add: simps Frame)
      qed
    qed
  qed
qed

section \<open>The verifier along the loop\<close>

text \<open>
  The knock a received frame carries for the verifier; what the loop does not hand to it counts as
  the empty packet, which the verifier refuses without a trace.
\<close>

definition knock_of :: "sniffer_config \<Rightarrow> recv_result \<Rightarrow> bytes" where
  "knock_of cfg received =
     (case received of
        RecvError interrupted \<Rightarrow> []
      | RecvBytes bs \<Rightarrow>
          (case datagram_in bs of
             None \<Rightarrow> []
           | Some (src, dst_port, payload) \<Rightarrow>
               if dst_port = sc_knock_port cfg \<and> length payload = PACKET_LEN then payload else []))"

definition knocks_of :: "sniffer_config \<Rightarrow> (recv_result \<times> turn_input) list \<Rightarrow> (bytes \<times> u64) list" where
  "knocks_of cfg es = map (\<lambda>(received, clock, ok). (knock_of cfg received, now_unix clock)) es"

lemma verifier_check_empty: "verifier_check C v [] now = (False, v)"
  by (simp add: verifier_check_def verifier_open_def packet_consts)

lemma turn_verifier:
  assumes "sniffer_turn C cfg s received clock ok = Returns (v, s')"
  shows "\<exists>b. verifier_check C (sn_verifier s) (knock_of cfg received) (now_unix clock) = (b, sn_verifier s') \<and>
    (v \<noteq> Ignored \<longrightarrow> b)"
proof (cases received)
  case (RecvError i)
  with assms show ?thesis by (auto simp: knock_of_def sniffer_turn_def verifier_check_empty)
next
  case (RecvBytes bs)
  show ?thesis
  proof (cases "\<exists>src payload. datagram_in bs = Some (src, sc_knock_port cfg, payload) \<and> length payload = PACKET_LEN")
    case False
    with assms RecvBytes have "v = Ignored \<and> s' = s" by (auto simp: turn_eq split: option.splits)
    moreover from False have "knock_of cfg received = []"
      by (auto simp: RecvBytes knock_of_def split: option.splits)
    ultimately show ?thesis by (auto simp: verifier_check_empty)
  next
    case True
    then obtain src payload where d: "datagram_in bs = Some (src, sc_knock_port cfg, payload)"
      "length payload = PACKET_LEN" by blast
    then have k: "knock_of cfg (RecvBytes bs) = payload" by (simp add: knock_of_def)
    have "verifier_open C (sn_verifier s) payload (now_unix clock) \<noteq> Panic"
      using assms d by (auto simp: RecvBytes turn_eq)
    then obtain r v1 where o: "verifier_open C (sn_verifier s) payload (now_unix clock) = Returns (r, v1)"
      by (cases "verifier_open C (sn_verifier s) payload (now_unix clock)") auto
    then have c: "verifier_check C (sn_verifier s) payload (now_unix clock) = (\<exists>k. r = Inr k, v1)"
      by (simp add: verifier_check_def split: sum.splits)
    have "sn_verifier s' = v1 \<and> (v \<noteq> Ignored \<longrightarrow> (\<exists>k. r = Inr k))"
      using assms by (cases r) (auto simp: RecvBytes turn_eq d o split: if_splits prod.splits)
    with c show ?thesis by (simp add: RecvBytes k)
  qed
qed

lemma loop_verifier:
  "sniff_loop C cfg s es = Returns (vs, s') \<Longrightarrow>
     length vs = length es \<and>
     (\<forall>i < length es. vs ! i \<noteq> Ignored \<longrightarrow> run_checks (verifier_check C) (sn_verifier s) (knocks_of cfg es) ! i)"
proof (induction es arbitrary: s vs)
  case Nil
  then show ?case by simp
next
  case (Cons e es)
  obtain received clock ok where e: "e = (received, clock, ok)" by (cases e)
  from Cons.prems obtain v s1 where t: "sniffer_turn C cfg s received clock ok = Returns (v, s1)"
    unfolding e by (cases "sniffer_turn C cfg s received clock ok") auto
  with Cons.prems obtain ws where w: "sniff_loop C cfg s1 es = Returns (ws, s')" "vs = v # ws"
    unfolding e by (cases "sniff_loop C cfg s1 es") auto
  from turn_verifier[OF t] obtain b where
    b: "verifier_check C (sn_verifier s) (knock_of cfg received) (now_unix clock) = (b, sn_verifier s1)" "v \<noteq> Ignored \<longrightarrow> b"
    by blast
  from Cons.IH[OF w(1)] b show ?case
    by (auto simp: w(2) e knocks_of_def nth_Cons split: nat.splits)
qed

lemma loop_nth:
  "sniff_loop C cfg s es = Returns (vs, s') \<Longrightarrow> verifier_for C p pub (sn_verifier s) \<Longrightarrow> v \<in> set vs \<Longrightarrow>
     \<exists>received clock ok s1 s2. (received, clock, ok) \<in> set es \<and> sniffer_turn C cfg s1 received clock ok = Returns (v, s2) \<and>
       verifier_for C p pub (sn_verifier s1) \<and> window (replay (sn_verifier s1)) = window (replay (sn_verifier s))"
proof (induction es arbitrary: s vs)
  case Nil
  then show ?case by simp
next
  case (Cons e es)
  obtain received clock ok where e: "e = (received, clock, ok)" by (cases e)
  from Cons.prems(1) obtain v1 s1 where t: "sniffer_turn C cfg s received clock ok = Returns (v1, s1)"
    unfolding e by (cases "sniffer_turn C cfg s received clock ok") auto
  with Cons.prems(1) obtain ws where w: "sniff_loop C cfg s1 es = Returns (ws, s')" "vs = v1 # ws"
    unfolding e by (cases "sniff_loop C cfg s1 es") auto
  from turn_verifier[OF t] verifier_for_check[OF Cons.prems(2)] have
    inv: "verifier_for C p pub (sn_verifier s1)" "window (replay (sn_verifier s1)) = window (replay (sn_verifier s))"
    by blast+
  show ?case
  proof (cases "v = v1")
    case True
    with t Cons.prems(2) e show ?thesis by fastforce
  next
    case False
    with Cons.prems(3) w(2) have "v \<in> set ws" by simp
    from Cons.IH[OF w(1) inv(1) this] inv(2) show ?thesis by fastforce
  qed
qed

section \<open>A knock through the noise\<close>

text \<open>An event at the socket that brings no datagram to the knock port.\<close>

definition off_port :: "u16 \<Rightarrow> socket_event \<times> turn_input \<Rightarrow> bool" where
  "off_port knock_port ev \<longleftrightarrow>
     (case fst ev of
        RecvFails interrupted \<Rightarrow> True
      | Frame pkt \<Rightarrow> (case datagram_in pkt of None \<Rightarrow> True | Some (src, port, payload) \<Rightarrow> port \<noteq> knock_port))"

lemma off_port_ignored:
  assumes "bpf_lawful run" "ps_filter sock = None \<or> ps_filter sock = Some (knock_filter port)"
    and "off_port (sc_knock_port cfg) ev" "received_at run sock ev = Some (received, clock, ok)"
  shows "sniffer_turn C cfg s received clock ok = Returns (Ignored, s)"
proof (cases "fst ev")
  case (RecvFails i)
  with assms(4) have "received = RecvError i" by (cases ev) (auto simp: received_error)
  then show ?thesis by (simp add: sniffer_turn_def)
next
  case (Frame pkt)
  then have ev: "ev = (Frame pkt, snd ev)" by (cases ev) simp
  from assms(3) have "sniffer_turn C cfg s (RecvBytes pkt) clock ok = Returns (Ignored, s)"
    by (auto simp: off_port_def Frame turn_eq split: option.splits)
  moreover have "received = RecvBytes pkt \<or> received = RecvBytes (take 0x00040000 pkt)"
    using assms(2,4) received_unfiltered[of sock run pkt "snd ev"] received_filtered[OF assms(1), of sock port pkt "snd ev"] ev
    by (auto split: if_splits)
  ultimately show ?thesis by (auto simp: turn_prefix RECV_BUF_def)
qed

lemma noise_ignored:
  assumes "bpf_lawful run" "ps_filter sock = None \<or> ps_filter sock = Some (knock_filter port)"
    and "\<forall>ev\<in>set noise. off_port (sc_knock_port cfg) ev"
    and "sniff_loop C cfg s (List.map_filter (received_at run sock) es) = Returns (vs, s')"
  shows "\<exists>us. sniff_loop C cfg s (List.map_filter (received_at run sock) (noise @ es)) = Returns (us @ vs, s') \<and> commands us = []"
  using assms(3)
proof (induction noise)
  case Nil
  with assms(4) show ?case by (auto intro: exI[of _ "[]"])
next
  case (Cons ev noise)
  then obtain us where us: "commands us = []"
    "sniff_loop C cfg s (List.map_filter (received_at run sock) (noise @ es)) = Returns (us @ vs, s')" by auto
  show ?case
  proof (cases "received_at run sock ev")
    case None
    with us show ?thesis by (auto simp: map_filter_simps)
  next
    case (Some r)
    obtain received clock ok where r: "r = (received, clock, ok)" by (cases r)
    from off_port_ignored[OF assms(1,2) _ Some[unfolded r]] Cons.prems
    have "sniffer_turn C cfg s received clock ok = Returns (Ignored, s)" by simp
    with us Some r have "sniff_loop C cfg s (List.map_filter (received_at run sock) ((ev # noise) @ es)) =
        Returns ((Ignored # us) @ vs, s')" by (simp add: map_filter_simps)
    moreover have "commands (Ignored # us) = []" using us(1) by simp
    ultimately show ?thesis by blast
  qed
qed

text \<open>The first knock opens the gate for its source, whatever else has passed.\<close>

lemma knock_opens_gate:
  assumes "aead_lawful C" "bpf_lawful run" "0 \<le> fd" "length nonce = 12"
    and "datagram_in pkt = Some (src, knock_port, seal_at C p pub dest_port ts nonce)" "\<not> later_fragment pkt"
    and "unat (abs_diff now ts) \<le> unat w" "\<forall>ev\<in>set noise. off_port knock_port ev"
  shows "\<exists>vs s. run_blocking C run fd rc err knock_port dest_port p pub w cd fw (noise @ [(Frame pkt, Some now, True)]) =
       Returns (Inr (vs, s)) \<and> commands vs = [Opened src (''nft'' # add_element_args fw src)]"
proof -
  let ?cfg = "\<lparr>sc_knock_port = knock_port, sc_tunnel_port = dest_port, sc_cooldown = cd, sc_firewall = fw\<rparr>"
  let ?sock = "snd (attach_knock_filter rc err \<lparr>ps_fd = fd, ps_filter = None\<rparr> knock_port)"
  let ?s = "sniffer_start C p pub w"
  have sock: "ps_filter ?sock = None \<or> ps_filter ?sock = Some (knock_filter knock_port)"
    by (simp add: attach_knock_filter_def Let_def)
  have fresh: "replay (sn_verifier ?s) = replay_guard_new w" "recent_allows ?s = []"
    by (simp_all add: sniffer_start_def verifier_new_def)
  have v: "verifier_for C p pub (sn_verifier ?s)" by (simp add: sniffer_start_def)
  have near: "\<not> window (replay (sn_verifier ?s)) < abs_diff now ts"
    using assms(7) unfolding fresh by (simp add: replay_guard_new_def word_less_nat_alt)
  obtain g where g: "check_and_record (replay (sn_verifier ?s)) nonce now = (True, g)"
    unfolding fresh by (simp add: check_and_record_def Let_def replay_guard_new_def REPLAY_CAP_def)
  obtain s' where turn: "sniffer_turn C ?cfg ?s (RecvBytes pkt) (Some now) True =
      Returns (Opened src (''nft'' # add_element_args fw src), s')"
    using turn_sealed[OF assms(1) v assms(4), where cfg = ?cfg and bs = pkt and src = src, OF _ near g] assms(5) fresh(2)
    by auto
  have "filter_spec knock_port pkt" by (rule datagram_passes[OF assms(5,6)])
  then have "\<exists>bs. received_at run ?sock (Frame pkt, Some now, True) = Some (RecvBytes bs, Some now, True) \<and>
      sniffer_turn C ?cfg ?s (RecvBytes bs) (Some now) True = Returns (Opened src (''nft'' # add_element_args fw src), s')"
    using sock turn received_unfiltered[of ?sock run pkt] received_filtered[OF assms(2), of ?sock knock_port pkt]
    by (auto simp: turn_prefix RECV_BUF_def)
  then have "sniff_loop C ?cfg ?s (List.map_filter (received_at run ?sock) [(Frame pkt, Some now, True)]) =
      Returns ([Opened src (''nft'' # add_element_args fw src)], s')"
    by (auto simp: map_filter_simps)
  from noise_ignored[OF assms(2) sock _ this, of noise] assms(8) obtain us where
    "sniff_loop C ?cfg ?s (List.map_filter (received_at run ?sock) (noise @ [(Frame pkt, Some now, True)])) =
       Returns (us @ [Opened src (''nft'' # add_element_args fw src)], s')" "commands us = []"
    by auto
  with assms(3) show ?thesis
    by (intro exI[of _ "us @ [Opened src (''nft'' # add_element_args fw src)]"] exI[of _ s'])
      (simp add: run_blocking_def Let_def)
qed

section \<open>Properties\<close>

lemma run_blocking_Inr:
  assumes "run_blocking C run fd rc err knock_port dest_port p pub w cd fw events = Returns (Inr (vs, s))"
  obtains sock where "ps_filter sock = None \<or> ps_filter sock = Some (knock_filter knock_port)"
    "sniff_loop C \<lparr>sc_knock_port = knock_port, sc_tunnel_port = dest_port, sc_cooldown = cd, sc_firewall = fw\<rparr>
       (sniffer_start C p pub w) (List.map_filter (received_at run sock) events) = Returns (vs, s)"
proof -
  let ?sock = "snd (attach_knock_filter rc err \<lparr>ps_fd = fd, ps_filter = None\<rparr> knock_port)"
  let ?loop = "sniff_loop C \<lparr>sc_knock_port = knock_port, sc_tunnel_port = dest_port, sc_cooldown = cd, sc_firewall = fw\<rparr>
       (sniffer_start C p pub w) (List.map_filter (received_at run ?sock) events)"
  have "ps_filter ?sock = None \<or> ps_filter ?sock = Some (knock_filter knock_port)"
    by (simp add: attach_knock_filter_def Let_def)
  moreover from assms have "?loop = Returns (vs, s)"
    by (cases ?loop) (auto simp: run_blocking_def Let_def split: if_splits)
  ultimately show thesis by (rule that)
qed

lemma datagram_prefix: "RECV_BUF \<le> n \<Longrightarrow> datagram_in (take n pkt) = datagram_in pkt"
  by (simp add: datagram_in_def min_absorb1)

lemma received_frame:
  assumes "bpf_lawful run" "ps_filter sock = None \<or> ps_filter sock = Some (knock_filter port)"
    and "(RecvBytes bs, inp) \<in> set (List.map_filter (received_at run sock) events)"
  obtains pkt where "(Frame pkt, inp) \<in> set events" "datagram_in bs = datagram_in pkt"
proof -
  from assms(3) obtain w where w: "(w, inp) \<in> set events" "received_at run sock (w, inp) = Some (RecvBytes bs, inp)"
    by (auto simp: map_filter_def received_at_def split: socket_event.splits)
  then obtain pkt where pkt: "w = Frame pkt" by (cases w) (auto simp: received_error)
  have "bs = pkt \<or> bs = take 0x00040000 pkt"
    using assms(2) w(2) received_unfiltered[of sock run pkt inp] received_filtered[OF assms(1), of sock port pkt inp]
    by (auto simp: pkt split: if_splits)
  then have "datagram_in bs = datagram_in pkt" by (auto simp: datagram_prefix RECV_BUF_def)
  with w(1) pkt that show thesis by blast
qed

lemma opened_on_wire:
  assumes "aead_lawful C" "aead_authentic C" "bpf_lawful run"
    and "run_blocking C run fd rc err knock_port dest_port p pub w cd fw events = Returns (Inr (vs, s))"
    and "Opened src cmd \<in> set vs"
  shows "\<exists>pkt clock ts nonce. (Frame pkt, clock, True) \<in> set events \<and> length nonce = 12 \<and>
     datagram_in pkt = Some (src, knock_port, seal_at C p pub dest_port ts nonce) \<and>
     unat (abs_diff (now_unix clock) ts) \<le> unat w \<and> cmd = ''nft'' # add_element_args fw src"
proof -
  let ?cfg = "\<lparr>sc_knock_port = knock_port, sc_tunnel_port = dest_port, sc_cooldown = cd, sc_firewall = fw\<rparr>"
  obtain sock where sock: "ps_filter sock = None \<or> ps_filter sock = Some (knock_filter knock_port)"
    "sniff_loop C ?cfg (sniffer_start C p pub w) (List.map_filter (received_at run sock) events) = Returns (vs, s)"
    using run_blocking_Inr[OF assms(4)] by blast
  have start: "verifier_for C p pub (sn_verifier (sniffer_start C p pub w))"
    "window (replay (sn_verifier (sniffer_start C p pub w))) = w"
    by (simp_all add: sniffer_start_def verifier_new_def replay_guard_new_def verifier_for_new[unfolded verifier_new_def replay_guard_new_def])
  from loop_nth[OF sock(2) start(1) assms(5)] start(2) obtain received clock ok s1 s2 where
    t: "(received, clock, ok) \<in> set (List.map_filter (received_at run sock) events)"
      "sniffer_turn C ?cfg s1 received clock ok = Returns (Opened src cmd, s2)"
      "verifier_for C p pub (sn_verifier s1)" "window (replay (sn_verifier s1)) = w" by auto
  from t(2) obtain bs where bs: "received = RecvBytes bs" by (cases received) (auto simp: sniffer_turn_def)
  from opened_by_knock[OF assms(1,2) t(3) t(2)[unfolded bs]] obtain ts nonce where
    k: "ok" "length nonce = 12" "datagram_in bs = Some (src, knock_port, seal_at C p pub dest_port ts nonce)"
      "unat (abs_diff (now_unix clock) ts) \<le> unat w" "cmd = ''nft'' # add_element_args fw src"
    by (auto simp: t(4))
  obtain pkt where "(Frame pkt, clock, ok) \<in> set events" "datagram_in bs = datagram_in pkt"
    using received_frame[OF assms(3) sock(1) t(1)[unfolded bs]] by blast
  with k show ?thesis by metis
qed

lemma sample_unfragmented: "\<not> later_fragment (sample_frame ts)"
  by (simp add: later_fragment_def sample_frame_def udp_frame_def nth_append of_be16_def nat_of_be_def)

lemma sample_knock_of: "knock_of sample_sniffer_config (RecvBytes (sample_frame ts)) = sample_packet ts"
  by (simp add: knock_of_def sample_datagram sample_packet_length packet_consts sample_sniffer_config_def)

definition sample_run :: "int \<Rightarrow> (socket_event \<times> turn_input) list \<Rightarrow> (string + verdict list \<times> sniffer) rust" where
  "sample_run rc events = run_blocking toy_crypto bpf_machine 3 rc ''EPERM'' 62201 8443 sample_psk sample_server 30 30
     (sc_firewall sample_sniffer_config) events"

lemma sample_run_opens:
  "\<exists>s. sample_run 0 [(Frame (sample_frame 1000), Some 1005, True)] =
     Returns (Inr ([Opened (Ipv4Addr 203 0 113 7)
       (''nft'' # add_element_args (sc_firewall sample_sniffer_config) (Ipv4Addr 203 0 113 7))], s))"
proof -
  let ?on = "\<lparr>ps_fd = 3, ps_filter = Some (knock_filter 62201)\<rparr>"
  have "filter_spec 62201 (sample_frame 1000)"
    by (rule datagram_passes[OF sample_datagram sample_unfragmented])
  then have r: "received_at bpf_machine ?on (Frame (sample_frame 1000), inp) =
      Some (RecvBytes (take 0x00040000 (sample_frame 1000)), inp)" for inp
    by (simp add: received_filtered[OF bpf_machine_lawful, of ?on 62201])
  have cfg: "\<lparr>sc_knock_port = 62201, sc_tunnel_port = 8443, sc_cooldown = 30,
      sc_firewall = sc_firewall sample_sniffer_config\<rparr> = sample_sniffer_config"
    by (simp add: sample_sniffer_config_def)
  from sample_opened show ?thesis
    by (auto simp: sample_run_def run_blocking_def attach_knock_filter_def Let_def map_filter_simps r cfg
        turn_prefix RECV_BUF_def)
qed

text \<open>
  C7: Over a whole run of the sniffer, with or without the kernel filter and whatever arrives, the
  firewall is opened for an address only because a frame came from that very address to the knock
  port with a knock sealed under the shared key for this server and its tunnel port, stamped within
  the window of the clock; the command adds exactly that address with the configured lifetime.
\<close>

theorem gate_opens_only_for_knocks:
  assumes "aead_lawful C" "aead_authentic C" "bpf_lawful run"
    and "run_blocking C run fd rc err knock_port dest_port p pub w cd fw events = Returns (Inr (vs, s))"
    and "Opened src cmd \<in> set vs"
  shows "\<exists>pkt clock ts nonce. (Frame pkt, clock, True) \<in> set events \<and> length nonce = 12 \<and>
     datagram_in pkt = Some (src, knock_port, seal_at C p pub dest_port ts nonce) \<and>
     unat (abs_diff (now_unix clock) ts) \<le> unat w \<and> cmd = ''nft'' # add_element_args fw src"
  by (rule opened_on_wire[OF assms])

theorem gate_opens_only_for_knocks_witness:
  "\<exists>pkt clock ts nonce. (Frame pkt, clock, True) \<in> {(Frame (sample_frame 1000), Some 1005, True)} \<and>
     datagram_in pkt = Some (Ipv4Addr 203 0 113 7, 62201, seal_at toy_crypto sample_psk sample_server 8443 ts nonce)"
proof -
  obtain s where r: "sample_run 0 [(Frame (sample_frame 1000), Some 1005, True)] =
     Returns (Inr ([Opened (Ipv4Addr 203 0 113 7)
       (''nft'' # add_element_args (sc_firewall sample_sniffer_config) (Ipv4Addr 203 0 113 7))], s))"
    using sample_run_opens by blast
  from gate_opens_only_for_knocks[OF toy_aead_lawful toy_aead_authentic bpf_machine_lawful r[unfolded sample_run_def]]
  show ?thesis by fastforce
qed

text \<open>
  C8: A captured knock opens nothing more. While the clock does not run backwards, once a frame
  with a knock stamped not ahead of the clock has had the firewall opened, no later frame with the
  same knock does, from whatever address it comes and whatever arrives in between.
\<close>

theorem captured_knock_opens_once:
  assumes "aead_lawful C" "length nonce = 12"
    and "sniff_loop C cfg (sniffer_start C p pub w) es = Returns (vs, s)"
    and "sorted (map (\<lambda>(received, clock, ok). unat (now_unix clock)) es)" "i < j" "j < length es"
    and "knock_of cfg (fst (es ! i)) = seal_at C p pub port ts nonce" "knock_of cfg (fst (es ! j)) = knock_of cfg (fst (es ! i))"
    and "unat ts \<le> unat (now_unix (fst (snd (es ! i))))" "vs ! i \<noteq> Ignored"
  shows "vs ! j = Ignored"
proof (rule ccontr)
  assume again: "vs ! j \<noteq> Ignored"
  let ?v = "sn_verifier (sniffer_start C p pub w)"
  have start: "verifier_for C p pub ?v" by (simp add: sniffer_start_def)
  have nth: "knocks_of cfg es ! m = (knock_of cfg (fst (es ! m)), now_unix (fst (snd (es ! m))))" if "m < length es" for m
    using that by (simp add: knocks_of_def case_prod_beta)
  have len: "length (knocks_of cfg es) = length es" by (simp add: knocks_of_def)
  have "map (\<lambda>e. unat (snd e)) (knocks_of cfg es) = map (\<lambda>(received, clock, ok). unat (now_unix clock)) es"
    by (simp add: knocks_of_def case_prod_beta)
  with assms(4) have sorted: "sorted (map (\<lambda>e. unat (snd e)) (knocks_of cfg es))" by simp
  have runs: "run_checks (verifier_check C) ?v (knocks_of cfg es) ! i" "run_checks (verifier_check C) ?v (knocks_of cfg es) ! j"
    using loop_verifier[OF assms(3)] assms(5,6,10) again by auto
  have "\<not> run_checks (verifier_check C) ?v (knocks_of cfg es) ! j"
    by (rule accepted_never_again[OF assms(1) start assms(2) sorted assms(5)])
       (use assms(5-9) nth len runs(1) in auto)
  with runs(2) show False by simp
qed

theorem captured_knock_opens_once_witness:
  "\<exists>v s. sniff_loop toy_crypto sample_sniffer_config (sniffer_start toy_crypto sample_psk sample_server 30)
     [(RecvBytes (sample_frame 1000), Some 1005, True), (RecvBytes (sample_frame 1000), Some 1009, True)] =
     Returns ([v, Ignored], s) \<and> v \<noteq> Ignored"
proof -
  let ?es = "[(RecvBytes (sample_frame 1000), Some 1005, True), (RecvBytes (sample_frame 1000), Some (1009 :: u64), True)]"
  let ?s = "sniffer_start toy_crypto sample_psk sample_server 30"
  obtain vs s where l: "sniff_loop toy_crypto sample_sniffer_config ?s ?es = Returns (vs, s)"
    by (rule sniff_loop_total[OF toy_aead_lawful])
  obtain s1 cmd where "sniffer_turn toy_crypto sample_sniffer_config ?s (RecvBytes (sample_frame 1000)) (Some 1005) True =
      Returns (Opened (Ipv4Addr 203 0 113 7) cmd, s1)" using sample_opened by blast
  with l have first: "vs ! 0 \<noteq> Ignored" "length vs = 2"
    by (cases "sniffer_turn toy_crypto sample_sniffer_config s1 (RecvBytes (sample_frame 1000)) (Some 1009) True"; auto)+
  have n: "knock_of sample_sniffer_config (RecvBytes (sample_frame 1000)) =
      seal_at toy_crypto sample_psk sample_server 8443 1000 (replicate 12 1)"
    by (simp add: sample_knock_of sample_packet_def)
  have "vs ! 1 = Ignored"
    by (rule captured_knock_opens_once[OF toy_aead_lawful _ l, of "replicate 12 1" 0 1 8443 1000])
       (use n first in \<open>simp_all add: now_unix_def\<close>)
  with first have "vs = [vs ! 0, Ignored]" by (cases vs; cases "tl vs") auto
  with l first(1) show ?thesis by metis
qed

text \<open>
  The nonces are in memory only: a server that is started again within the window takes a captured
  knock once more, from whatever address it comes now.
\<close>

theorem restart_forgets_knocks:
  assumes "aead_lawful C" "bpf_lawful run" "0 \<le> fd" "0 \<le> fd'" "length nonce = 12"
    and "datagram_in pkt = Some (src, knock_port, seal_at C p pub dest_port ts nonce)" "\<not> later_fragment pkt"
    and "datagram_in pkt' = Some (src', knock_port, seal_at C p pub dest_port ts nonce)" "\<not> later_fragment pkt'"
    and "unat (abs_diff now ts) \<le> unat w" "unat (abs_diff now' ts) \<le> unat w"
    and "\<forall>ev\<in>set noise \<union> set noise'. off_port knock_port ev"
  shows "\<exists>vs s vs' s'.
     run_blocking C run fd rc err knock_port dest_port p pub w cd fw (noise @ [(Frame pkt, Some now, True)]) =
       Returns (Inr (vs, s)) \<and> commands vs = [Opened src (''nft'' # add_element_args fw src)] \<and>
     run_blocking C run fd' rc' err' knock_port dest_port p pub w cd fw (noise' @ [(Frame pkt', Some now', True)]) =
       Returns (Inr (vs', s')) \<and> commands vs' = [Opened src' (''nft'' # add_element_args fw src')]"
proof -
  have noise: "\<forall>ev\<in>set noise. off_port knock_port ev" "\<forall>ev\<in>set noise'. off_port knock_port ev"
    using assms(12) by blast+
  from knock_opens_gate[OF assms(1,2,3,5,6,7,10) noise(1)] knock_opens_gate[OF assms(1,2,4,5,8,9,11) noise(2)]
  show ?thesis by metis
qed

theorem restart_forgets_knocks_witness:
  "\<exists>vs s vs' s'. sample_run 0 [(Frame (sample_frame 1000), Some 1005, True)] = Returns (Inr (vs, s)) \<and>
     sample_run 0 [(Frame (sample_frame 1000), Some 1010, True)] = Returns (Inr (vs', s')) \<and>
     commands vs \<noteq> [] \<and> commands vs = commands vs'"
proof -
  note frame = sample_datagram[unfolded sample_packet_def]
  have near: "unat (abs_diff 1005 (1000 :: u64)) \<le> unat (30 :: u64)" "unat (abs_diff 1010 (1000 :: u64)) \<le> unat (30 :: u64)"
    by (simp_all add: abs_diff_def)
  from restart_forgets_knocks[OF toy_aead_lawful bpf_machine_lawful _ _ _ frame sample_unfragmented frame sample_unfragmented near,
      of 3 3 "[]" "[]"]
  show ?thesis by (force simp: sample_run_def)
qed

text \<open>
  C33: The kernel filter changes no decision. With the filter attached, and the socket unfiltered
  because attaching failed, the same frames lead to the same commands and the same state of the
  sniffer, once later fragments of IPv4 packets, which only the filter recognises, are left out.
\<close>

theorem filter_decides_nothing:
  assumes "aead_lawful C" "bpf_lawful run" "0 \<le> fd" "rc \<noteq> 0"
  shows "\<exists>vs ws s.
     run_blocking C run fd 0 err knock_port dest_port p pub w cd fw events = Returns (Inr (vs, s)) \<and>
     run_blocking C run fd rc err knock_port dest_port p pub w cd fw
       (filter (\<lambda>ev. \<not> on_wire later_fragment ev) events) = Returns (Inr (ws, s)) \<and>
     commands vs = commands ws"
proof -
  let ?cfg = "\<lparr>sc_knock_port = knock_port, sc_tunnel_port = dest_port, sc_cooldown = cd, sc_firewall = fw\<rparr>"
  let ?on = "\<lparr>ps_fd = fd, ps_filter = Some (knock_filter knock_port)\<rparr>" and ?off = "\<lparr>ps_fd = fd, ps_filter = None\<rparr>"
  have on: "ps_filter ?on = Some (knock_filter (sc_knock_port ?cfg))" and off: "ps_filter ?off = None" by simp_all
  from loops_agree[OF assms(1,2) on off, of "sniffer_start C p pub w" events] obtain vs ws s where
    a: "sniff_loop C ?cfg (sniffer_start C p pub w) (List.map_filter (received_at run ?on) events) = Returns (vs, s)"
      "sniff_loop C ?cfg (sniffer_start C p pub w)
         (List.map_filter (received_at run ?off) (filter (\<lambda>ev. \<not> on_wire later_fragment ev) events)) = Returns (ws, s)"
      "commands vs = commands ws" unfolding agree_def by blast
  have "run_blocking C run fd 0 err knock_port dest_port p pub w cd fw events = Returns (Inr (vs, s))"
    using a(1) assms(3) by (simp add: run_blocking_def attach_knock_filter_def Let_def)
  moreover have "run_blocking C run fd rc err knock_port dest_port p pub w cd fw
       (filter (\<lambda>ev. \<not> on_wire later_fragment ev) events) = Returns (Inr (ws, s))"
    using a(2) assms(3,4) by (simp add: run_blocking_def attach_knock_filter_def Let_def)
  ultimately show ?thesis using a(3) by blast
qed

theorem filter_decides_nothing_witness:
  "\<exists>vs ws s. sample_run 0 [(Frame [1, 2, 3], None, True), (Frame (sample_frame 1000), Some 1005, True)] = Returns (Inr (vs, s)) \<and>
     sample_run (-1) [(Frame [1, 2, 3], None, True), (Frame (sample_frame 1000), Some 1005, True)] = Returns (Inr (ws, s)) \<and>
     commands vs = commands ws"
proof -
  have "filter (\<lambda>ev. \<not> on_wire later_fragment ev) [(Frame [1, 2, 3], None, True), (Frame (sample_frame 1000), Some 1005, True)] =
      [(Frame [1, 2, 3], None, True), (Frame (sample_frame 1000), Some 1005, True)]"
    using sample_unfragmented by (simp add: on_wire_def) (simp add: later_fragment_def)
  with filter_decides_nothing[OF toy_aead_lawful bpf_machine_lawful, of 3 "-1" "''EPERM''" 62201 8443 sample_psk sample_server
      30 30 "sc_firewall sample_sniffer_config" "[(Frame [1, 2, 3], None, True), (Frame (sample_frame 1000), Some 1005, True)]"]
  show ?thesis by (simp add: sample_run_def)
qed

end
