(* ===== verification/Server_Commands.thy ===== *)
theory Server_Commands
  imports Paired_Setup Daemon_Control Sniffer_Run
begin

text \<open>
  The server's commands: \<open>run\<close> with the start of single-packet authorisation (\<open>serve.rs\<close>), \<open>up\<close>,
  \<open>down\<close>, \<open>status\<close> (\<open>daemon.rs\<close>), \<open>init\<close> and \<open>keygen\<close> (\<open>main.rs\<close>). The sniffer runs on a thread
  of its own; starting it yields the arguments of that thread. The accept loop consumes the
  events it selects on and produces the tasks it spawns.
\<close>

section \<open>Serving\<close>

definition SERVE_RETRY_DELAY :: nat where
  "SERVE_RETRY_DELAY = 100"

text \<open>What the spawned thread runs \<open>sniffer::run_blocking\<close> with.\<close>

record spa_job =
  job_knock_port :: u16
  job_tunnel_port :: u16
  job_psk :: psk
  job_server_pub :: public_key
  job_window :: u64
  job_cooldown :: u64
  job_firewall :: firewall

definition start_spa :: "knock_runtime option \<Rightarrow> spa_job option" where
  "start_spa knock =
     (case knock of
        None \<Rightarrow> None
      | Some k \<Rightarrow>
          let fw = \<lparr>fw_table = kr_table k, fw_set = kr_set k, fw_ttl_secs = kr_ttl_secs k\<rparr>;
              cooldown = max (kr_ttl_secs k div 2) 1
          in Some \<lparr>job_knock_port = kr_knock_port k, job_tunnel_port = kr_tunnel_port k, job_psk = kr_psk k,
               job_server_pub = kr_server_pub k, job_window = kr_window_secs k, job_cooldown = cooldown,
               job_firewall = fw\<rparr>)"

text \<open>The thread, on what its system calls return and what arrives at its socket.\<close>

definition spa_thread ::
    "crypto \<Rightarrow> bpf_machine \<Rightarrow> int \<Rightarrow> int \<Rightarrow> string \<Rightarrow> spa_job \<Rightarrow> (socket_event \<times> turn_input) list \<Rightarrow>
     (string + verdict list \<times> sniffer) rust" where
  "spa_thread C run fd rc last_os_error job events =
     run_blocking C run fd rc last_os_error (job_knock_port job) (job_tunnel_port job) (job_psk job)
       (job_server_pub job) (job_window job) (job_cooldown job) (job_firewall job) events"

datatype 'c select_event = ShutdownSignal | Accepted 'c | AcceptFailed

datatype 'c serve_action = ServeConnection 'c server_config | ServeSleep nat

text \<open>The actions, and whether the loop has ended.\<close>

fun serve_loop :: "server_config \<Rightarrow> 'c select_event list \<Rightarrow> 'c serve_action list \<times> bool" where
  "serve_loop cfg [] = ([], False)"
| "serve_loop cfg (ShutdownSignal # es) = ([], True)"
| "serve_loop cfg (Accepted c # es) =
     (case serve_loop cfg es of (acts, ended) \<Rightarrow> (ServeConnection c cfg # acts, ended))"
| "serve_loop cfg (AcceptFailed # es) =
     (case serve_loop cfg es of (acts, ended) \<Rightarrow> (ServeSleep SERVE_RETRY_DELAY # acts, ended))"

record 'c serving =
  run_result :: "unit any option"
  run_spa :: "spa_job option"
  run_actions :: "'c serve_action list"

text \<open>\<open>bind\<close> gives the error of binding an address, if any; a result of \<open>None\<close> means still serving.\<close>

definition server_run ::
    "crypto \<Rightarrow> server_file toml \<Rightarrow> host \<Rightarrow> string \<Rightarrow> (socket_addr \<Rightarrow> string option) \<Rightarrow> 'c select_event list \<Rightarrow>
     'c serving" where
  "server_run C T h config_path bind es =
     (case server_load C T h config_path of
        Inl e \<Rightarrow> \<lparr>run_result = Some (Inl e), run_spa = None, run_actions = []\<rparr>
      | Inr cfg \<Rightarrow>
          let spa = start_spa (ld_knock cfg) in
          (case bind (ld_listen cfg) of
             Some e \<Rightarrow> \<lparr>run_result = Some (Inl e), run_spa = spa, run_actions = []\<rparr>
           | None \<Rightarrow>
               (case serve_loop (ld_server cfg) es of (acts, ended) \<Rightarrow>
                  \<lparr>run_result = (if ended then Some (Inr ()) else None), run_spa = spa, run_actions = acts\<rparr>)))"

section \<open>The background server\<close>

definition SERVER_PROC_NEEDLE :: string where
  "SERVER_PROC_NEEDLE = ''hyperion''"

definition egress_text :: "string \<Rightarrow> u16 list \<Rightarrow> string" where
  "egress_text none allowed =
     (if allowed = [] then none else join_with '', '' (map (\<lambda>p. nat_to_dec (unat p)) allowed))"

definition server_banner :: "host \<Rightarrow> server_side_summary \<Rightarrow> u32 \<Rightarrow> string list" where
  "server_banner h summary pid =
     [''hyperion-server up (pid '' @ nat_to_dec (unat pid) @ '').'', '''',
      ''listen:  '' @ ssm_listen summary,
      ''knock:   '' @ (if ssm_knock_enabled summary then ''enabled'' else ''off''),
      ''egress:  '' @ egress_text ''deny-all'' (ssm_egress summary)] @
     (if ssm_knock_enabled summary
      then ['''', ''NOTE: SPA is on, but the firewall is NOT applied automatically.'',
            ''Apply it deliberately (you can lock yourself out):'',
            ''  hyperion-server print-firewall --tunnel-port '' @ port_of (ssm_listen summary) @ '' | sudo nft -f -'']
      else []) @
     ['''', ''stop with: hyperion-server down'', ''logs:      '' @ server_log_file h]"

datatype 'c server_up_result = ForegroundRun "'c serving" | ServerSpawned u32 | UpFailed string

definition server_pass_var :: "server_side_summary \<Rightarrow> string" where
  "server_pass_var summary =
     (case ssm_passphrase_env summary of Some v \<Rightarrow> v | None \<Rightarrow> ''HYPERION_PASSPHRASE'')"

definition server_ask_passphrase :: "host \<Rightarrow> bool \<Rightarrow> string \<Rightarrow> string option any" where
  "server_ask_passphrase h key_is_passphrase var =
     (if key_is_passphrase \<and> env_vars h var = None
      then any_bind (prompt_passphrase h) (\<lambda>p. Inr (Some p))
      else Inr None)"

definition server_up ::
    "crypto \<Rightarrow> server_file toml \<Rightarrow> (socket_addr \<Rightarrow> string option) \<Rightarrow> 'c select_event list \<Rightarrow>
     host \<Rightarrow> spawn_outcome \<Rightarrow> string \<Rightarrow> bool \<Rightarrow> 'c server_up_result \<times> host" where
  "server_up C T bind es h child config_path foreground =
     (if files h config_path = None
      then (UpFailed (''no config at '' @ config_path @ newline @
              ''run `hyperion-server init --salt <salt> --admin-key <admin_pubkey>` first''), h)
      else
     (case with_context ''reading config'' (server_summarize T h config_path) of
        Inl e \<Rightarrow> (UpFailed e, h)
      | Inr summary \<Rightarrow>
     (if ssm_admin_count summary = 0
      then (UpFailed (''no admin pubkeys configured '' @ em_dash @ '' re-run init with --admin-key''), h)
      else
     (case running_pid h (server_pid_file h) SERVER_PROC_NEEDLE of
        Some pid \<Rightarrow> (UpFailed (''hyperion-server is already up (pid '' @ nat_to_dec (unat pid) @
                        ''); run `hyperion-server down` first''), h)
      | None \<Rightarrow>
     (case server_ask_passphrase h (ssm_key_is_passphrase summary) (server_pass_var summary) of
        Inl e \<Rightarrow> (UpFailed e, h)
      | Inr passphrase \<Rightarrow>
          if foreground
          then (let h1 = case passphrase of
                           Some p \<Rightarrow> h\<lparr>env_vars := (env_vars h)(server_pass_var summary \<mapsto> p)\<rparr>
                         | None \<Rightarrow> h
                in (ForegroundRun (server_run C T h1 config_path bind es), h1))
          else (case spawn_daemon h child [''run'', ''--config'', config_path] (server_pid_file h)
                       (server_log_file h) (map_option (\<lambda>p. (server_pass_var summary, p)) passphrase) of
                  (Inl e, h1) \<Rightarrow> (UpFailed e, h1)
                | (Inr pid, h1) \<Rightarrow> (ServerSpawned pid, println_all h1 (server_banner h1 summary pid))))))))"

definition server_down :: "host \<Rightarrow> unit any \<times> host" where
  "server_down h = stop_daemon h (server_pid_file h) SERVER_PROC_NEEDLE ''hyperion-server''"

definition server_status :: "server_file toml \<Rightarrow> host \<Rightarrow> string \<Rightarrow> unit any \<times> host" where
  "server_status T h config_path =
     (let h1 = println h (case running_pid h (server_pid_file h) SERVER_PROC_NEEDLE of
                            Some pid \<Rightarrow> ''hyperion-server: UP (pid '' @ nat_to_dec (unat pid) @ '')''
                          | None \<Rightarrow> ''hyperion-server: down'') in
      if files h1 config_path \<noteq> None
      then (case server_summarize T h1 config_path of
              Inl e \<Rightarrow> (Inl e, h1)
            | Inr s \<Rightarrow> (Inr (), println_all h1
                [''listen:  '' @ ssm_listen s,
                 ''knock:   '' @ (if ssm_knock_enabled s then ''enabled'' else ''off''),
                 ''admins:  '' @ nat_to_dec (ssm_admin_count s),
                 ''egress:  '' @ egress_text ''deny-all (no ports allowed yet)'' (ssm_egress s)]))
      else (Inr (), println h1 (''no config yet '' @ em_dash @ '' run `hyperion-server init`'')))"

section \<open>Initialisation and keys\<close>

definition server_init ::
    "crypto \<Rightarrow> server_file toml \<Rightarrow> host \<Rightarrow> string \<Rightarrow> string \<Rightarrow> u16 list \<Rightarrow> string \<Rightarrow> bool \<Rightarrow> bytes \<Rightarrow> unit any \<times> host" where
  "server_init C T h salt admin_key allowed listen force random =
     (case server_init_config C T h salt admin_key allowed listen force random of
        (Inl e, h1) \<Rightarrow> (Inl e, h1)
      | (Inr (path, server_pubkey), h1) \<Rightarrow> (Inr (), println_all h1
          ([''hyperion-server initialized.'', '''', ''config:  '' @ path, '''',
            ''server public key (give this to the admin for `add-server`):'', ''  '' @ server_pubkey] @
           (if allowed = []
            then ['''', ''NOTE: egress is deny-all. Re-run init with --allow 22,5432 to permit ports,'',
                  ''      or edit [egress].allow in the config.'']
            else []) @
           ['''', ''next steps:'',
            ''  1. hyperion-server print-firewall --tunnel-port '' @ port_of listen @ '' | sudo nft -f -'',
            ''     (review first '' @ em_dash @ '' this is default-DROP and can lock you out)'',
            ''  2. hyperion-server up''])))"

definition server_keygen :: "crypto \<Rightarrow> host \<Rightarrow> string option \<Rightarrow> bytes \<Rightarrow> unit any \<times> host" where
  "server_keygen C h target random =
     (let keypair = keypair_generate C random;
          h1 = println (println h ''server public key (put in each client's server config):'')
                 (public_to_base64 C (kp_public keypair)) in
      case target of
        Some path \<Rightarrow>
          (case write_secret h1 path (secret_to_base64 C (kp_secret keypair)) of
             (Inl e, h2) \<Rightarrow> (Inl e, h2)
           | (Inr _, h2) \<Rightarrow> (Inr (), println h2 (''server secret key written to '' @ path)))
      | None \<Rightarrow>
          (Inr (), println (println (println h1 '''') ''server secret key (keep private):'')
                     (secret_to_base64 C (kp_secret keypair))))"

section \<open>The accept loop and the gate\<close>

text \<open>What the loop makes of one event.\<close>

definition serve_one :: "server_config \<Rightarrow> 'c select_event \<Rightarrow> 'c serve_action" where
  "serve_one cfg ev = (case ev of Accepted c \<Rightarrow> ServeConnection c cfg | _ \<Rightarrow> ServeSleep SERVE_RETRY_DELAY)"

lemma serve_loop_eq:
  "serve_loop cfg es = (map (serve_one cfg) (takeWhile (\<lambda>ev. ev \<noteq> ShutdownSignal) es), ShutdownSignal \<in> set es)"
  by (induction cfg es rule: serve_loop.induct) (auto simp: serve_one_def)

lemma start_spa_Some:
  "start_spa knock = Some job \<longleftrightarrow>
     (\<exists>k. knock = Some k \<and>
        job = \<lparr>job_knock_port = kr_knock_port k, job_tunnel_port = kr_tunnel_port k, job_psk = kr_psk k,
          job_server_pub = kr_server_pub k, job_window = kr_window_secs k, job_cooldown = max (kr_ttl_secs k div 2) 1,
          job_firewall = \<lparr>fw_table = kr_table k, fw_set = kr_set k, fw_ttl_secs = kr_ttl_secs k\<rparr>\<rparr>)"
  by (auto simp: start_spa_def Let_def split: option.splits)

lemma cooldown_bounds:
  fixes ttl :: u64
  shows "1 \<le> unat (max (ttl div 2) 1)" "2 \<le> unat ttl \<Longrightarrow> 2 * unat (max (ttl div 2) 1) \<le> unat ttl"
proof -
  have m: "unat (max (ttl div 2) 1) = max (unat ttl div 2) 1"
    by (simp add: max_def word_le_nat_alt unat_div)
  show "1 \<le> unat (max (ttl div 2) 1)" by (simp add: m)
  show "2 * unat (max (ttl div 2) 1) \<le> unat ttl" if "2 \<le> unat ttl"
    unfolding m using that by (simp add: max_def)
qed

text \<open>
  C17: A server that serves is gated as configured. It serves exactly the connections accepted
  before the shutdown signal, in order, each under the loaded configuration, and survives failed
  accepts; the packet sniffer runs exactly when knocking is enabled, with the server's own shared
  key and public key, for the listening port; its cooldown is at least a second and at most half
  the lifetime of a firewall entry (when that is two seconds or more), so that a client can renew
  an entry before it expires. Whatever arrives at its socket, every address it opens the firewall
  for has sent it a knock sealed with that key, for this server and that port.
\<close>

theorem server_runs_gated:
  assumes "server_load C T h path = Inr cfg" "bind (ld_listen cfg) = None"
    and "aead_lawful C" "aead_authentic C" "bpf_lawful run"
  shows "run_actions (server_run C T h path bind es) =
           map (serve_one (ld_server cfg)) (takeWhile (\<lambda>ev. ev \<noteq> ShutdownSignal) es) \<and>
         run_result (server_run C T h path bind es) = (if ShutdownSignal \<in> set es then Some (Inr ()) else None) \<and>
         (run_spa (server_run C T h path bind es) = None \<longleftrightarrow> ld_knock cfg = None) \<and>
         (\<forall>job. run_spa (server_run C T h path bind es) = Some job \<longrightarrow>
            1 \<le> unat (job_cooldown job) \<and>
            (2 \<le> unat (fw_ttl_secs (job_firewall job)) \<longrightarrow>
               2 * unat (job_cooldown job) \<le> unat (fw_ttl_secs (job_firewall job))) \<and>
            (\<forall>vs s src cmd. spa_thread C run fd rc err job events = Returns (Inr (vs, s)) \<and> Opened src cmd \<in> set vs \<longrightarrow>
               (\<exists>pkt clock ts nonce. (Frame pkt, clock, True) \<in> set events \<and> length nonce = 12 \<and>
                  datagram_in pkt = Some (src, job_knock_port job, seal_at C (server_psk (ld_server cfg))
                    (secret_public_key C (static_secret (ld_server cfg))) (sock_port (ld_listen cfg)) ts nonce))))"
proof -
  obtain f where f: "ld_knock cfg = knock_runtime_for f (ld_listen cfg) (server_psk (ld_server cfg))
      (secret_public_key C (static_secret (ld_server cfg)))"
    by (rule server_load_Inr[OF assms(1)]) simp
  have run: "server_run C T h path bind es =
     \<lparr>run_result = (if ShutdownSignal \<in> set es then Some (Inr ()) else None), run_spa = start_spa (ld_knock cfg),
      run_actions = map (serve_one (ld_server cfg)) (takeWhile (\<lambda>ev. ev \<noteq> ShutdownSignal) es)\<rparr>"
    using assms(1,2) by (simp add: server_run_def serve_loop_eq)
  have none: "start_spa (ld_knock cfg) = None \<longleftrightarrow> ld_knock cfg = None"
    by (simp add: start_spa_def Let_def split: option.splits)
  have job: "1 \<le> unat (job_cooldown job) \<and>
      (2 \<le> unat (fw_ttl_secs (job_firewall job)) \<longrightarrow> 2 * unat (job_cooldown job) \<le> unat (fw_ttl_secs (job_firewall job))) \<and>
      job_tunnel_port job = sock_port (ld_listen cfg) \<and> job_psk job = server_psk (ld_server cfg) \<and>
      job_server_pub job = secret_public_key C (static_secret (ld_server cfg))"
    if "start_spa (ld_knock cfg) = Some job" for job
    using that cooldown_bounds unfolding start_spa_Some by (auto simp: f knock_runtime_for_def split: if_splits)
  have "\<exists>pkt clock ts nonce. (Frame pkt, clock, True) \<in> set events \<and> length nonce = 12 \<and>
        datagram_in pkt = Some (src, job_knock_port job, seal_at C (server_psk (ld_server cfg))
          (secret_public_key C (static_secret (ld_server cfg))) (sock_port (ld_listen cfg)) ts nonce)"
    if "start_spa (ld_knock cfg) = Some job" "spa_thread C run fd rc err job events = Returns (Inr (vs, s))"
      "Opened src cmd \<in> set vs" for job vs s src cmd
    using opened_on_wire[OF assms(3-5) that(2)[unfolded spa_thread_def] that(3)] job[OF that(1)] by auto
  with job none show ?thesis unfolding run serving.select_convs by blast
qed

theorem server_runs_gated_witness:
  "\<exists>h cfg. server_load toy_crypto pair_server_toml h (server_config_file pair_host) = Inr cfg \<and>
     run_actions (server_run toy_crypto pair_server_toml h (server_config_file pair_host) (\<lambda>_. None)
        [Accepted (1 :: nat), AcceptFailed, Accepted 2, ShutdownSignal, Accepted 3]) =
       [ServeConnection 1 (ld_server cfg), ServeSleep 100, ServeConnection 2 (ld_server cfg)]"
proof -
  obtain h cfg where l: "server_load toy_crypto pair_server_toml h (server_config_file pair_host) = Inr cfg"
    using pair_loads by blast
  have "run_actions (server_run toy_crypto pair_server_toml h (server_config_file pair_host) (\<lambda>_. None)
        [Accepted (1 :: nat), AcceptFailed, Accepted 2, ShutdownSignal, Accepted 3]) =
      map (serve_one (ld_server cfg)) [Accepted 1, AcceptFailed, Accepted 2]"
    using server_runs_gated[OF l _ toy_aead_lawful toy_aead_authentic bpf_machine_lawful, of "\<lambda>_. None"
        "[Accepted (1 :: nat), AcceptFailed, Accepted 2, ShutdownSignal, Accepted 3]" 3 0 "''''" "[]"] by simp
  with l show ?thesis by (auto simp: serve_one_def SERVE_RETRY_DELAY_def)
qed

section \<open>The background server: one at a time\<close>

lemma server_pid_machine: "same_machine h h' \<Longrightarrow> server_pid_file h' = server_pid_file h"
  by (simp add: server_pid_file_def same_machine_dir)

lemma server_files_differ: "server_log_file h \<noteq> server_pid_file h"
  using path_join_inject[of "''hyperion-server.log''" "''hyperion-server.pid''" "config_dir h"]
  by (simp add: server_log_file_def server_pid_file_def)

lemma server_asked_passphrase:
  "server_ask_passphrase h key_is_passphrase var = Inr (Some p) \<Longrightarrow> prompt_reply h = Some p \<and> env_vars h var = None"
  by (auto simp: server_ask_passphrase_def any_bind_Inr_iff prompt_passphrase_def split: if_splits)

lemma server_up_background:
  assumes "server_up C T bind es h child config_path False = (r, h')"
  shows "background_outcome SERVER_PROC_NEEDLE (server_pid_file h) (server_log_file h)
     [''run'', ''--config'', config_path] child h h'"
proof (cases "h' = h")
  case False
  with assms obtain summary passphrase where s: "running_pid h (server_pid_file h) SERVER_PROC_NEEDLE = None"
    "server_ask_passphrase h (ssm_key_is_passphrase summary) (server_pass_var summary) = Inr passphrase"
    "(case spawn_daemon h child [''run'', ''--config'', config_path] (server_pid_file h)
                 (server_log_file h) (map_option (\<lambda>p. (server_pass_var summary, p)) passphrase) of
            (Inl e, h1) \<Rightarrow> (UpFailed e, h1)
          | (Inr pid, h1) \<Rightarrow> (ServerSpawned pid, println_all h1 (server_banner h1 summary pid))) = (r, h')"
    by (auto simp: server_up_def split: if_splits sum.splits option.splits)
  obtain r1 h1 where sp: "spawn_daemon h child [''run'', ''--config'', config_path] (server_pid_file h)
      (server_log_file h) (map_option (\<lambda>p. (server_pass_var summary, p)) passphrase) = (r1, h1)" by fastforce
  with s(3) obtain ls where "h' = println_all h1 ls"
    by (cases r1) (auto intro: that[of "[]"])
  moreover have "typed_secret h (map_option (\<lambda>p. (server_pass_var summary, p)) passphrase)"
    using server_asked_passphrase s(2) by (cases passphrase) (auto simp: typed_secret_def)
  ultimately show ?thesis using s(1) sp unfolding background_outcome_def by blast
qed (simp add: background_outcome_def)

lemma server_status_frame: "server_status T h path = (r, h') \<Longrightarrow> view_of p h' = view_of p h \<and> same_machine h h'"
  by (auto simp: server_status_def Let_def same_machine_steps same_machine_println_all split: if_splits sum.splits)

end
