(* ===== verification/Server_Main.thy ===== *)
theory Server_Main
  imports Server_Commands Cli_Args
begin

text \<open>
  The server program, \<open>main.rs\<close>: its command line, the core-dump limit set before anything else, the
  dispatch of each command, and what holds over any sequence of commands. Matching the arguments is
  clap's (theory \<open>Cli_Args\<close>).
\<close>

section \<open>The command line\<close>

datatype server_cli =
    SrvInit string string "u16 list" string bool
  | SrvUp "string option" bool
  | SrvDown
  | SrvStatus "string option"
  | SrvRun "string option"
  | SrvKeygen "string option"
  | SrvPrintFirewall u16 string string

definition server_cli_spec :: cli_spec where
  "server_cli_spec = \<lparr>cli_name = ''hyperion-server'', cli_about = ''Hyperion VPN server daemon'', cli_commands =
     [command ''init'' ''Create server key + config in your user config dir''
        [arg ''salt'' None Required, arg ''admin-key'' None Required, arg ''allow'' None (Repeated (Some CHR '','')),
         arg ''listen'' None (Defaulted (''0.0.0.0:'' @ nat_to_dec (unat DEFAULT_LISTEN_PORT))), arg ''force'' None Switch],
      command ''up'' ''Start the server daemon in the background'' [config_arg, arg ''foreground'' None Switch],
      command ''down'' ''Stop the background server daemon'' [],
      command ''status'' ''Show daemon state and config summary'' [config_arg],
      command ''run'' ''Run in the foreground (load config, start SPA, listen, relay)'' [config_arg],
      command ''keygen'' ''Generate a server static keypair'' [arg ''out'' (Some CHR ''o'') Optional],
      command ''print-firewall'' ''Emit the base nftables ruleset (review before applying)''
        [arg ''tunnel-port'' None Required, arg ''table'' None (Defaulted ''hyperion''),
         arg ''set'' None (Defaulted ''knock_allow'')]]\<rparr>"

fun server_cli_of :: "string \<times> matches \<Rightarrow> server_cli option" where
  "server_cli_of (name, m) =
     (let config = one_value m ''config'' in
      if name = ''init'' then
        Option.bind (one_value m ''salt'') (\<lambda>salt.
        Option.bind (one_value m ''admin-key'') (\<lambda>admin_key.
        Option.bind (List.those (map parse_u16 (all_values m ''allow''))) (\<lambda>allowed.
        Option.bind (one_value m ''listen'') (\<lambda>listen.
          Some (SrvInit salt admin_key allowed listen (given m ''force''))))))
      else if name = ''up'' then Some (SrvUp config (given m ''foreground''))
      else if name = ''down'' then Some SrvDown
      else if name = ''status'' then Some (SrvStatus config)
      else if name = ''run'' then Some (SrvRun config)
      else if name = ''keygen'' then Some (SrvKeygen (one_value m ''out''))
      else if name = ''print-firewall'' then
        Option.bind (typed_value parse_u16 m ''tunnel-port'') (\<lambda>dport.
        Option.bind (one_value m ''table'') (\<lambda>table.
        Option.bind (one_value m ''set'') (\<lambda>set_name. Some (SrvPrintFirewall dport table set_name))))
      else None)"

definition server_parse :: "clap \<Rightarrow> string list \<Rightarrow> server_cli option" where
  "server_parse clap args = Option.bind (clap server_cli_spec args) server_cli_of"

section \<open>Dispatch\<close>

text \<open>What a command meets: the process a spawn yields, random bytes, binding, and the accept loop's events.\<close>

record server_world =
  sw_child :: spawn_outcome
  sw_random :: bytes
  sw_bind :: "socket_addr \<Rightarrow> string option"
  sw_events :: "nat select_event list"

datatype server_outcome = ServerFinished "unit any" | ServerServing "nat serving"

definition server_cfg_path :: "host \<Rightarrow> string option \<Rightarrow> string" where
  "server_cfg_path h config = (case config of Some path \<Rightarrow> path | None \<Rightarrow> server_default_config_path h)"

fun server_main :: "crypto \<Rightarrow> server_file toml \<Rightarrow> server_world \<Rightarrow> host \<Rightarrow> server_cli \<Rightarrow> server_outcome \<times> host" where
  "server_main C T w h (SrvInit salt admin_key allowed listen force) =
     map_prod ServerFinished id (server_init C T h salt admin_key allowed listen force (sw_random w))"
| "server_main C T w h (SrvUp config foreground) =
     (case server_up C T (sw_bind w) (sw_events w) h (sw_child w) (server_cfg_path h config) foreground of
        (UpFailed e, h1) \<Rightarrow> (ServerFinished (Inl e), h1)
      | (ForegroundRun s, h1) \<Rightarrow> (ServerServing s, h1)
      | (ServerSpawned pid, h1) \<Rightarrow> (ServerFinished (Inr ()), h1))"
| "server_main C T w h SrvDown = map_prod ServerFinished id (server_down h)"
| "server_main C T w h (SrvStatus config) = map_prod ServerFinished id (server_status T h (server_cfg_path h config))"
| "server_main C T w h (SrvRun config) =
     (ServerServing (server_run C T h (server_cfg_path h config) (sw_bind w) (sw_events w)), h)"
| "server_main C T w h (SrvKeygen target) = map_prod ServerFinished id (server_keygen C h target (sw_random w))"
| "server_main C T w h (SrvPrintFirewall dport table set_name) =
     (ServerFinished (Inr ()), print_text h (base_ruleset table set_name dport))"

section \<open>Core dumps\<close>

record rlimit =
  rlim_cur :: u64
  rlim_max :: u64

definition RLIMIT_CORE :: nat where
  "RLIMIT_CORE = 4"

text \<open>On Linux; the result of \<open>setrlimit\<close> is not looked at, and lowering a limit is always permitted.\<close>

definition harden :: "(nat \<Rightarrow> rlimit) \<Rightarrow> (nat \<Rightarrow> rlimit)" where
  "harden limits = limits(RLIMIT_CORE := \<lparr>rlim_cur = 0, rlim_max = 0\<rparr>)"

text \<open>The process: the limit first, then the arguments; a command line that does not parse ends it.\<close>

definition server_process ::
    "clap \<Rightarrow> crypto \<Rightarrow> server_file toml \<Rightarrow> server_world \<Rightarrow> (nat \<Rightarrow> rlimit) \<Rightarrow> string list \<Rightarrow> host \<Rightarrow>
     server_outcome option \<times> (nat \<Rightarrow> rlimit) \<times> host" where
  "server_process clap C T w limits args h =
     (let limits1 = harden limits in
      case server_parse clap args of
        None \<Rightarrow> (None, limits1, h)
      | Some cmd \<Rightarrow> (case server_main C T w h cmd of (r, h1) \<Rightarrow> (Some r, limits1, h1)))"

section \<open>What a command leaves alone\<close>

fun server_spares :: "string \<Rightarrow> server_cli \<Rightarrow> bool" where
  "server_spares p (SrvKeygen target) \<longleftrightarrow> target \<noteq> Some p"
| "server_spares p _ \<longleftrightarrow> True"

lemma server_paths_differ: "server_config_file h \<noteq> server_pid_file h" "server_key_file h \<noteq> server_pid_file h"
  using path_join_inject[of "''server.toml''" "''hyperion-server.pid''" "config_dir h"]
    path_join_inject[of "''server.key''" "''hyperion-server.pid''" "config_dir h"]
  by (simp_all add: server_config_file_def server_pid_file_def server_key_file_def)

lemma quiet_server_init:
  "server_init_config C T h salt k allowed listen force r1 = (r, h') \<Longrightarrow> quiet (server_pid_file h) h h'"
  using server_paths_differ[of h]
  by (auto simp: server_init_config_def Let_def split: if_splits sum.splits prod.splits option.splits
      dest!: quiet_write_secret[of _ _ _ _ _ "server_pid_file h"] quiet_write_str[of _ _ _ _ _ "server_pid_file h"]
      intro: quiet_trans)

lemma quiet_server_keygen: "server_keygen C h target random = (r, h') \<Longrightarrow> target \<noteq> Some p \<Longrightarrow> quiet p h h'"
  by (auto simp: server_keygen_def Let_def split: sum.splits prod.splits option.splits
      dest!: quiet_write_secret[of _ _ _ _ _ p])

lemma quiet_server_status: "server_status T h path = (r, h') \<Longrightarrow> quiet p h h'"
  by (auto simp: server_status_def Let_def split: if_splits sum.splits)

lemma server_up_foreground:
  "server_up C T bind es h child path True = (r, h') \<Longrightarrow> \<exists>e. h' = h\<lparr>env_vars := e\<rparr>"
  by (auto simp: server_up_def Let_def split: if_splits sum.splits option.splits
      intro: exI[of _ "env_vars h"])

lemma server_main_quiet:
  assumes "server_main C T w h cmd = (r, h1)" "server_spares (server_pid_file h) cmd"
    and "cmd \<noteq> SrvDown" "\<And>config. cmd \<noteq> SrvUp config False"
  shows "quiet (server_pid_file h) h (process_end h h1)"
proof -
  have quiet: "quiet (server_pid_file h) h h1 \<Longrightarrow> ?thesis"
    by (simp add: process_end_machine quiet_def)
  show ?thesis
  proof (cases cmd)
    case (SrvInit salt admin_key allowed listen force)
    obtain r0 g where i: "server_init_config C T h salt admin_key allowed listen force (sw_random w) = (r0, g)" by fastforce
    from quiet_server_init[OF i] assms(1) SrvInit show ?thesis
      by (intro quiet) (auto simp: server_init_def i split: sum.splits prod.splits)
  next
    case (SrvUp config foreground)
    with assms(4) have "foreground" by (cases foreground) auto
    with assms(1) SrvUp server_up_foreground[of C T "sw_bind w" "sw_events w" h "sw_child w" "server_cfg_path h config"]
    obtain e where "h1 = h\<lparr>env_vars := e\<rparr>"
      by (auto split: prod.splits server_up_result.splits)
    then show ?thesis by (simp add: quiet_def process_end_variable) (simp add: process_end_def)
  next
    case (SrvStatus config)
    with assms(1) quiet_server_status[of T h "server_cfg_path h config"] show ?thesis
      by (intro quiet) (cases "server_status T h (server_cfg_path h config)", auto)
  next
    case (SrvKeygen target)
    with assms(1,2) quiet_server_keygen[of C h target "sw_random w"] show ?thesis
      by (intro quiet) (cases "server_keygen C h target (sw_random w)", auto)
  qed (use assms(1,3) in \<open>auto intro!: quiet simp: print_text_def process_end_machine\<close>)
qed

section \<open>One daemon at a time\<close>

text \<open>
  Running any command of the server to its end: a process that is started has a fresh pid and the
  program's name, and the command is not told to overwrite the pid file.
\<close>

inductive server_command :: "crypto \<Rightarrow> server_file toml \<Rightarrow> host \<Rightarrow> host \<Rightarrow> bool" for C T where
  run_server: "fresh_child SERVER_PROC_NEEDLE h (sw_child w) \<Longrightarrow> server_spares (server_pid_file h) cmd \<Longrightarrow>
    server_main C T w h cmd = (r, h1) \<Longrightarrow> server_command C T h (process_end h h1)"

inductive_cases server_commandE: "server_command C T h h'"

lemma server_up_host:
  assumes "server_main C T w h (SrvUp config False) = (r, h1)"
  shows "\<exists>r0. server_up C T (sw_bind w) (sw_events w) h (sw_child w) (server_cfg_path h config) False = (r0, h1)"
  using assms by (auto split: prod.splits server_up_result.splits)

lemma server_command_cases:
  assumes "server_command C T h h'"
  obtains (quiet) "quiet (server_pid_file h) h h'"
  | (up) child path where "fresh_child SERVER_PROC_NEEDLE h child"
      "background_outcome SERVER_PROC_NEEDLE (server_pid_file h) (server_log_file h) [''run'', ''--config'', path] child h h'"
  | (down) r where "stop_daemon h (server_pid_file h) SERVER_PROC_NEEDLE ''hyperion-server'' = (r, h')"
proof -
  from assms obtain w cmd r h1 where c: "fresh_child SERVER_PROC_NEEDLE h (sw_child w)" "server_spares (server_pid_file h) cmd"
    "server_main C T w h cmd = (r, h1)" "h' = process_end h h1" by (rule server_commandE)
  consider "cmd = SrvDown" | config where "cmd = SrvUp config False"
    | "cmd \<noteq> SrvDown" "\<And>config. cmd \<noteq> SrvUp config False" by blast
  then show thesis
  proof cases
    case 1
    with c(3) have s: "stop_daemon h (server_pid_file h) SERVER_PROC_NEEDLE ''hyperion-server'' = (fst (server_down h), h1)"
      by (cases "server_down h") (auto simp: server_down_def)
    then show ?thesis using c(4) process_end_machine[OF stop_daemon_machine[OF s]] down by metis
  next
    case (2 config)
    from server_up_host[OF c(3)[unfolded 2]] server_up_background obtain path where
      b: "background_outcome SERVER_PROC_NEEDLE (server_pid_file h) (server_log_file h) [''run'', ''--config'', path] (sw_child w) h h1"
      by blast
    then show ?thesis using c(1,4) process_end_machine[OF background_machine[OF b]] up by metis
  next
    case 3
    with server_main_quiet[OF c(3,2)] c(4) quiet show ?thesis by blast
  qed
qed

interpretation server_daemon: daemon_program "server_command C T" server_pid_file SERVER_PROC_NEEDLE for C T
proof
  fix h h' assume "server_command C T h h'"
  then show "same_machine h h'"
    by (cases rule: server_command_cases) (auto simp: quiet_def dest: background_machine stop_daemon_machine)
next
  fix h h' assume c: "server_command C T h h'"
    and w: "openable h (server_pid_file h)" "storable h (server_pid_file h)"
  from c show "view_of (server_pid_file h) h' = view_of (server_pid_file h) h \<or>
      daemon_step SERVER_PROC_NEEDLE (view_of (server_pid_file h) h) (view_of (server_pid_file h) h')"
  proof (cases rule: server_command_cases)
    case quiet
    then show ?thesis using quiet_view by blast
  next
    case (up child path)
    from background_step[OF up(2,1) server_files_differ w] show ?thesis .
  next
    case (down r)
    then show ?thesis by (rule stop_daemon_step)
  qed
qed (rule server_pid_machine)

text \<open>A world in which nothing is started or bound, for concrete instances.\<close>

definition idle_server_world :: server_world where
  "idle_server_world = \<lparr>sw_child = None, sw_random = [], sw_bind = (\<lambda>_. None), sw_events = []\<rparr>"

lemma server_command_down: "server_down h = (r, h') \<Longrightarrow> server_command C T h h'"
proof -
  assume d: "server_down h = (r, h')"
  then have "same_machine h h'" unfolding server_down_def by (rule stop_daemon_machine)
  with run_server[of h idle_server_world SrvDown C T "ServerFinished r" h'] d show ?thesis
    by (simp add: fresh_child_def idle_server_world_def process_end_machine)
qed

text \<open>
  C15: At most one server daemon. Through any sequence of the server's commands, all seven of them
  and failed ones included, and of processes ending at any time, at most one of the servers that
  were started and not told to stop is alive, the pid file names it, and a \<open>down\<close> that succeeds
  leaves none; provided pids are fresh, the pid file can be written and \<open>keygen\<close> is not told to
  write its key there.
\<close>

theorem one_server_daemon:
  assumes "daemon_session (server_command C T) h0 h" "actions h0 = []"
    and "openable h0 (server_pid_file h0)" "storable h0 (server_pid_file h0)"
  shows "card (live_daemons (view_of (server_pid_file h) h)) \<le> 1 \<and>
     live_daemons (view_of (server_pid_file h) h) \<subseteq> set_option (running_pid h (server_pid_file h) SERVER_PROC_NEEDLE) \<and>
     (\<forall>h'. server_down h = (Inr (), h') \<longrightarrow> live_daemons (view_of (server_pid_file h) h') = {})"
  using server_daemon.at_most_one[OF assms] by (simp add: server_down_def)

theorem one_server_daemon_witness:
  "\<exists>h. daemon_session (server_command toy_crypto pair_server_toml) sample_host h \<and>
     server_down sample_host = (Inr (), h) \<and> card (live_daemons (view_of (server_pid_file h) h)) \<le> 1"
proof -
  have d: "server_down sample_host = (Inr (), println sample_host ''hyperion-server is not running (no pid file)'')" (is "_ = (_, ?h)")
    by (simp add: server_down_def stop_daemon_def read_pid_def read_to_string_def sample_host_def)
  have s: "daemon_session (server_command toy_crypto pair_server_toml) sample_host ?h"
    by (rule daemon_session.session_command, rule begin_session, rule server_command_down[OF d])
  from one_server_daemon[OF s] d s show ?thesis by (auto simp: sample_host_def)
qed

section \<open>The background server is the foreground server\<close>

lemma server_load_cong:
  assumes "env_vars h' = env_vars h" "files h' path = files h path"
    and "\<And>f. server_read_file h T path = Inr f \<Longrightarrow>
      files h' (expand_home h (id_static_key_file (sf_identity f))) = files h (expand_home h (id_static_key_file (sf_identity f))) \<and>
      load_psk C h' (sf_key f) = load_psk C h (sf_key f)"
  shows "server_load C T h' path = server_load C T h path"
proof -
  have same: "server_read_file h' T path = server_read_file h T path"
    using assms(2) by (simp add: server_read_file_def read_to_string_def)
  show ?thesis
  proof (cases "server_read_file h T path")
    case (Inl e)
    then show ?thesis by (simp add: server_load_def same)
  next
    case (Inr f)
    note same_f = assms(3)[OF Inr]
    show ?thesis
      unfolding server_load_def same Inr any_bind.simps Let_def read_to_string_def expand_home_env[OF assms(1)]
        conjunct1[OF same_f] conjunct2[OF same_f] ..
  qed
qed

lemma server_psk_without_prompt:
  assumes "env_vars h' = env_vars h"
    and "sk_source k = ''passphrase'' \<Longrightarrow> \<exists>var p. sk_passphrase_env k = Some var \<and> env_vars h var = Some p"
    and "\<And>file_name. sk_file k = Some file_name \<Longrightarrow> files h' (expand_home h file_name) = files h (expand_home h file_name)"
  shows "load_psk C h' k = load_psk C h k"
proof (cases "sk_source k = ''passphrase''")
  case True
  with assms(2) obtain var p where "sk_passphrase_env k = Some var" "env_vars h var = Some p" by blast
  then have "read_passphrase h' (sk_passphrase_env k) = read_passphrase h (sk_passphrase_env k)"
    using assms(1) by (simp add: read_passphrase_def)
  then show ?thesis using True by (simp add: load_psk_def)
next
  case False
  with assms(1,3) show ?thesis
    by (cases "sk_file k") (simp_all add: load_psk_def expand_home_env[OF assms(1)] read_to_string_def Let_def option_context_def)
qed

lemma server_up_spawned:
  fixes es :: "'c select_event list"
  assumes "server_up C T bind es h child path False = (ServerSpawned pid, h')"
  obtains summary passphrase exe where "server_summarize T h path = Inr summary"
    "server_ask_passphrase h (ssm_key_is_passphrase summary) (server_pass_var summary) = Inr passphrase"
    "actions h' = actions h @ [Started (exe # [''run'', ''--config'', path]) (map_option (\<lambda>p. (server_pass_var summary, p)) passphrase) pid]"
    "env_vars h' = env_vars h" "\<And>q. q \<noteq> server_pid_file h \<Longrightarrow> q \<noteq> server_log_file h \<Longrightarrow> files h' q = files h q"
    "\<And>w. server_up C T bind es h w path True =
       (let h1 = child_host h (map_option (\<lambda>p. (server_pass_var summary, p)) passphrase) (prompt_reply h) in
        (ForegroundRun (server_run C T h1 path bind es), h1))"
proof -
  from assms obtain summary passphrase where s: "files h path \<noteq> None" "server_summarize T h path = Inr summary"
    "0 < ssm_admin_count summary" "running_pid h (server_pid_file h) SERVER_PROC_NEEDLE = None"
    "server_ask_passphrase h (ssm_key_is_passphrase summary) (server_pass_var summary) = Inr passphrase"
    "(case spawn_daemon h child [''run'', ''--config'', path] (server_pid_file h)
                 (server_log_file h) (map_option (\<lambda>p. (server_pass_var summary, p)) passphrase) of
            (Inl e, h1) \<Rightarrow> (UpFailed e, h1)
          | (Inr pid, h1) \<Rightarrow> (ServerSpawned pid, println_all h1 (server_banner h1 summary pid))) =
        (ServerSpawned pid :: 'c server_up_result, h')"
    by (auto simp: server_up_def split: if_splits sum.splits option.splits)
  from s(6) obtain h1 where sp: "spawn_daemon h child [''run'', ''--config'', path] (server_pid_file h)
      (server_log_file h) (map_option (\<lambda>p. (server_pass_var summary, p)) passphrase) = (Inr pid, h1)"
    "h' = println_all h1 (server_banner h1 summary pid)"
    by (auto split: sum.splits prod.splits)
  obtain exe where exe: "actions h1 = actions h @
      [Started (exe # [''run'', ''--config'', path]) (map_option (\<lambda>p. (server_pass_var summary, p)) passphrase) pid]"
    by (rule spawn_daemon_Inr[OF sp(1)]) blast
  have env: "env_vars h1 = env_vars h" using spawn_daemon_machine[OF sp(1)] by (simp add: same_machine_def)
  have kept: "files h1 q = files h q" if "q \<noteq> server_pid_file h" "q \<noteq> server_log_file h" for q
    using spawn_daemon_files[OF sp(1) that] .
  have "env_vars h' = env_vars h1"
    using same_machine_println_all[OF same_machine_refl, of h1] by (simp add: sp(2) same_machine_def)
  moreover have "server_up C T bind es h w path True =
       (let h1 = child_host h (map_option (\<lambda>p. (server_pass_var summary, p)) passphrase) (prompt_reply h) in
        (ForegroundRun (server_run C T h1 path bind es), h1))" for w
    using s(1-5) by (cases passphrase) (auto simp: server_up_def child_host_def Let_def with_context_def)
  ultimately show thesis
    using exe env kept s(2,5) by (intro that[of summary passphrase exe]) (simp_all add: sp(2))
qed

lemma parse_run:
  assumes "clap_lawful clap" "path \<noteq> []" "hd path \<noteq> CHR ''-''"
  shows "server_parse clap [''run'', ''--config'', path] = Some (SrvRun (Some path))"
proof -
  have "find_command server_cli_spec ''run'' = Some [config_arg]"
    by (simp add: find_command_def server_cli_spec_def command_def)
  from parse_config_option[OF assms(1) this assms(2,3)] obtain m where
    "clap server_cli_spec [''run'', ''--config'', path] = Some (''run'', m)" "one_value m ''config'' = Some path"
    by (auto simp: config_arg_def arg_def)
  then show ?thesis by (simp add: server_parse_def)
qed

text \<open>
  The background server runs as in the foreground, hardened. When \<open>up\<close> succeeds in the
  background, it has started one process; with the arguments and the variable it was given that
  process sets its core-dump limit to zero and then serves exactly as \<open>up --foreground\<close> would have
  done, whatever it would be answered at a prompt: the same listener, gate and connections or the
  same error. This needs a home, the path not to look like an option, a passphrase's variable to be
  named, and the configuration and the key files not to be the pid or log file.
\<close>

theorem background_server_is_foreground:
  assumes "clap_lawful clap" "server_main C T w h (SrvUp config False) = (ServerFinished (Inr ()), h')"
    and "path = server_cfg_path h config" "path \<noteq> []" "hd path \<noteq> CHR ''-''"
    and "path \<notin> {server_pid_file h, server_log_file h}"
    and "\<And>f. server_read_file h T path = Inr f \<Longrightarrow>
      expand_home h (id_static_key_file (sf_identity f)) \<notin> {server_pid_file h, server_log_file h} \<and>
      (\<forall>p. sk_file (sf_key f) = Some p \<longrightarrow> expand_home h p \<notin> {server_pid_file h, server_log_file h}) \<and>
      (sk_source (sf_key f) = ''passphrase'' \<longrightarrow> sk_passphrase_env (sf_key f) \<noteq> None)"
    and "env_vars h ''HOME'' \<noteq> None"
  shows "\<exists>exe args env pid. actions h' = actions h @ [Started (exe # args) env pid] \<and>
     (\<forall>reply limits. \<exists>h1. server_process clap C T w limits args (child_host h' env reply) =
        (Some (fst (server_main C T w h (SrvUp config True))), limits(RLIMIT_CORE := \<lparr>rlim_cur = 0, rlim_max = 0\<rparr>), h1))"
proof -
  from assms(2,3) obtain pid where up: "server_up C T (sw_bind w) (sw_events w) h (sw_child w) path False =
      (ServerSpawned pid, h')"
    by (auto split: prod.splits server_up_result.splits)
  obtain summary passphrase exe where s: "server_summarize T h path = Inr summary"
    "server_ask_passphrase h (ssm_key_is_passphrase summary) (server_pass_var summary) = Inr passphrase"
    "actions h' = actions h @ [Started (exe # [''run'', ''--config'', path]) (map_option (\<lambda>p. (server_pass_var summary, p)) passphrase) pid]"
    "env_vars h' = env_vars h" "\<And>q. q \<noteq> server_pid_file h \<Longrightarrow> q \<noteq> server_log_file h \<Longrightarrow> files h' q = files h q"
    and fg: "\<And>c. server_up C T (sw_bind w) (sw_events w) h c path True =
       (let h1 = child_host h (map_option (\<lambda>p. (server_pass_var summary, p)) passphrase) (prompt_reply h) in
        (ForegroundRun (server_run C T h1 path (sw_bind w) (sw_events w)), h1))"
    by (rule server_up_spawned[OF up]) blast
  let ?env = "map_option (\<lambda>p. (server_pass_var summary, p)) passphrase"
  let ?h1 = "child_host h ?env (prompt_reply h)"
  have env: "env_vars (child_host h' ?env reply) = env_vars ?h1" for reply
    by (cases passphrase) (simp_all add: child_host_def s(4))
  have asked: "env_vars h (server_pass_var summary) = None" if "passphrase = Some p" for p
    using s(2) that server_asked_passphrase by blast
  have "home_dir ?h1 = home_dir h"
    using assms(8) asked by (cases passphrase) (auto simp: home_dir_def child_host_def)
  then have home: "expand_home ?h1 q = expand_home h q" for q by (simp add: expand_home_def cong: option.case_cong)
  have load: "server_load C T (child_host h' ?env reply) path = server_load C T ?h1 path" for reply
  proof (rule server_load_cong[OF env])
    show "files (child_host h' ?env reply) path = files ?h1 path"
      using assms(6) s(5) by (simp add: child_host_def)
  next
    fix f assume "server_read_file ?h1 T path = Inr f"
    then have f: "server_read_file h T path = Inr f" by (simp add: server_read_file_def read_to_string_def child_host_def)
    note safe = assms(7)[OF f]
    have "load_psk C (child_host h' ?env reply) (sf_key f) = load_psk C ?h1 (sf_key f)"
    proof (rule server_psk_without_prompt[OF env])
      assume k: "sk_source (sf_key f) = ''passphrase''"
      with safe obtain var where var: "sk_passphrase_env (sf_key f) = Some var" by blast
      from s(1) f k have key: "ssm_passphrase_env summary = sk_passphrase_env (sf_key f)" "ssm_key_is_passphrase summary"
        by (auto simp: server_summarize_def any_bind_Inr_iff Let_def)
      with var have "server_pass_var summary = var" by (simp add: server_pass_var_def)
      then have "env_vars ?h1 var \<noteq> None"
        using s(2) key(2)
        by (cases passphrase) (auto simp: server_ask_passphrase_def child_host_def any_bind_Inr_iff split: if_splits)
      with var show "\<exists>var p. sk_passphrase_env (sf_key f) = Some var \<and> env_vars ?h1 var = Some p" by blast
    next
      fix q assume "sk_file (sf_key f) = Some q"
      with safe s(5) show "files (child_host h' ?env reply) (expand_home ?h1 q) = files ?h1 (expand_home ?h1 q)"
        by (simp add: home) (simp add: child_host_def)
    qed
    moreover have "files (child_host h' ?env reply) (expand_home ?h1 (id_static_key_file (sf_identity f))) =
        files ?h1 (expand_home ?h1 (id_static_key_file (sf_identity f)))"
      using safe s(5) by (simp add: home) (simp add: child_host_def)
    ultimately show "files (child_host h' ?env reply) (expand_home ?h1 (id_static_key_file (sf_identity f))) =
        files ?h1 (expand_home ?h1 (id_static_key_file (sf_identity f))) \<and>
        load_psk C (child_host h' ?env reply) (sf_key f) = load_psk C ?h1 (sf_key f)" by blast
  qed
  let ?serving = "server_run C T ?h1 path (sw_bind w) (sw_events w)"
  have "fst (server_main C T w h (SrvUp config True)) = ServerServing ?serving"
    using fg[of "sw_child w"] unfolding server_main.simps assms(3)[symmetric] by (simp add: Let_def)
  moreover have "server_process clap C T w limits [''run'', ''--config'', path] (child_host h' ?env reply) =
      (Some (ServerServing ?serving), harden limits, child_host h' ?env reply)" for reply limits
    by (simp add: server_process_def parse_run[OF assms(1,4,5)] server_cfg_path_def server_run_def load)
  ultimately show ?thesis using s(3) unfolding harden_def by metis
qed

definition server_up_host :: host where
  "server_up_host = sample_host\<lparr>files := [''c'' \<mapsto> ''3'']\<rparr>"

definition server_up_world :: server_world where
  "server_up_world = idle_server_world\<lparr>sw_child := Some (7, Some ''hyperion-server'', True)\<rparr>"

lemma server_up_file: "server_read_file server_up_host pair_server_toml ''c'' = Inr pair_server_file"
  by (simp add: server_read_file_def read_to_string_def server_up_host_def option_context_def pair_server_toml_def table_toml_def)

lemma server_up_paths:
  "server_pid_file server_up_host = ''/root/.config/hyperion/hyperion-server.pid''"
  "server_log_file server_up_host = ''/root/.config/hyperion/hyperion-server.log''"
  "expand_home server_up_host (server_key_file pair_host) = ''/root/.config/hyperion/server.key''"
  by (simp_all add: server_pid_file_def server_log_file_def config_dir_def server_up_host_def sample_host_def path_join_def
      expand_home_def home_dir_def server_key_file_def pair_host_def strip_prefix_def)

lemma server_up_spawns:
  "\<exists>h'. server_main toy_crypto pair_server_toml server_up_world server_up_host (SrvUp (Some ''c'') False) =
     (ServerFinished (Inr ()), h')"
proof -
  obtain s where s: "server_summarize pair_server_toml server_up_host ''c'' = Inr s" "0 < ssm_admin_count s"
    "ssm_key_is_passphrase s" "ssm_passphrase_env s = Some ''HYPERION_PASSPHRASE''"
    by (simp add: server_summarize_def server_up_file pair_server_file_def Let_def)
  have ask: "server_ask_passphrase server_up_host (ssm_key_is_passphrase s) (server_pass_var s) = Inr (Some ''pw'')"
    by (simp add: server_ask_passphrase_def s server_pass_var_def server_up_host_def sample_host_def prompt_passphrase_def
        option_context_def)
  have run: "running_pid server_up_host (server_pid_file server_up_host) SERVER_PROC_NEEDLE = None"
    unfolding server_up_paths by (simp add: running_pid_def read_pid_def read_to_string_def server_up_host_def)
  have "\<exists>h1. spawn_daemon server_up_host (Some (7, Some ''hyperion-server'', True)) [''run'', ''--config'', ''c'']
      (server_pid_file server_up_host) (server_log_file server_up_host) (Some (server_pass_var s, ''pw'')) = (Inr 7, h1)"
    unfolding server_up_paths
    by (simp add: spawn_daemon_def open_log_def sample_host_def write_pid_def write_str_def server_up_host_def
        open_truncate_def write_all_def is_alive_def Let_def)
  then obtain h1 where h1: "spawn_daemon server_up_host (Some (7, Some ''hyperion-server'', True)) [''run'', ''--config'', ''c'']
      (server_pid_file server_up_host) (server_log_file server_up_host) (Some (server_pass_var s, ''pw'')) = (Inr 7, h1)" by blast
  have present: "files server_up_host ''c'' \<noteq> None" by (simp add: server_up_host_def)
  have "server_up toy_crypto pair_server_toml (sw_bind server_up_world) (sw_events server_up_world) server_up_host
      (sw_child server_up_world) ''c'' False = (ServerSpawned 7, println_all h1 (server_banner h1 s 7))"
    using present s ask run h1
    by (simp add: server_up_def with_context_def server_up_world_def idle_server_world_def)
  then show ?thesis by (simp add: server_cfg_path_def)
qed

theorem background_server_is_foreground_witness:
  "\<exists>h' exe args env pid h1. actions h' = actions server_up_host @ [Started (exe # args) env pid] \<and>
     server_process simple_clap toy_crypto pair_server_toml server_up_world (\<lambda>_. \<lparr>rlim_cur = 1, rlim_max = 1\<rparr>) args
       (child_host h' env None) =
     (Some (fst (server_main toy_crypto pair_server_toml server_up_world server_up_host (SrvUp (Some ''c'') True))),
      (\<lambda>_. \<lparr>rlim_cur = 1, rlim_max = 1\<rparr>)(RLIMIT_CORE := \<lparr>rlim_cur = 0, rlim_max = 0\<rparr>), h1)"
proof -
  obtain h' where h': "server_main toy_crypto pair_server_toml server_up_world server_up_host (SrvUp (Some ''c'') False) =
      (ServerFinished (Inr ()), h')"
    using server_up_spawns by blast
  have "\<exists>exe args env pid. actions h' = actions server_up_host @ [Started (exe # args) env pid] \<and>
     (\<forall>reply limits. \<exists>h1. server_process simple_clap toy_crypto pair_server_toml server_up_world limits args (child_host h' env reply) =
        (Some (fst (server_main toy_crypto pair_server_toml server_up_world server_up_host (SrvUp (Some ''c'') True))),
         limits(RLIMIT_CORE := \<lparr>rlim_cur = 0, rlim_max = 0\<rparr>), h1))"
  proof (rule background_server_is_foreground[OF simple_clap_lawful h', of "''c''"])
    show "''c'' = server_cfg_path server_up_host (Some ''c'')" by (simp add: server_cfg_path_def)
    show "env_vars server_up_host ''HOME'' \<noteq> None" by (simp add: server_up_host_def sample_host_def)
    show "''c'' \<notin> {server_pid_file server_up_host, server_log_file server_up_host}" by (simp add: server_up_paths)
  next
    fix f assume "server_read_file server_up_host pair_server_toml ''c'' = Inr f"
    then have f: "f = pair_server_file" by (simp add: server_up_file)
    show "expand_home server_up_host (id_static_key_file (sf_identity f)) \<notin> {server_pid_file server_up_host, server_log_file server_up_host} \<and>
      (\<forall>p. sk_file (sf_key f) = Some p \<longrightarrow> expand_home server_up_host p \<notin> {server_pid_file server_up_host, server_log_file server_up_host}) \<and>
      (sk_source (sf_key f) = ''passphrase'' \<longrightarrow> sk_passphrase_env (sf_key f) \<noteq> None)"
      using server_up_paths unfolding f pair_server_file_def by simp
  qed simp_all
  then show ?thesis by blast
qed

end
