(* ===== verification/Client_Pool.thy ===== *)
theory Client_Pool
  imports Client_Tunnel
begin

text \<open>
  The pool of \<open>client.rs\<close> at work: its supervisors, the multiplexer driver of every tunnel they
  bring up, and any number of openers, all over the shared slots and the shared counter. Each step
  is one atomic action of one task, between two points at which another task may run; an execution
  is any sequence of steps, so every interleaving is covered. A tunnel is named by its position
  among those that were ever up, an opener's reply channel by a number of its own.
\<close>

section \<open>The tasks\<close>

text \<open>
  A supervisor dials with the back-off it would sleep for, runs a tunnel, or sleeps; an opener is at
  a try of a round (rounds left after this one, tries left in it), holds a clone of a slot's control,
  waits for the reply to its request, sleeps between rounds, or is done.
\<close>

datatype sup_phase = Dialling nat | Running nat | Pausing nat

datatype opener_phase =
    Idle
  | Trying nat nat
  | Holding nat nat nat
  | Waiting nat nat nat nat
  | Napping nat
  | GotStream nat nat nat
  | NoTunnel

record client_pool =
  cp_pool :: "nat pool"
  cp_sups :: "sup_phase list"
  cp_tunnels :: "mux_task list"
  cp_openers :: "nat \<Rightarrow> opener_phase"
  cp_fresh :: nat

definition cp_size :: "client_pool \<Rightarrow> nat" where
  "cp_size st = pool_size (cp_pool st)"

definition client_pool_new :: "nat pool \<Rightarrow> client_pool" where
  "client_pool_new p =
     \<lparr>cp_pool = p, cp_sups = map (\<lambda>s. Dialling BACKOFF_INITIAL) (supervisors p), cp_tunnels = [],
      cp_openers = (\<lambda>a. Idle), cp_fresh = 0\<rparr>"

definition set_slot :: "nat \<Rightarrow> nat option \<Rightarrow> client_pool \<Rightarrow> client_pool" where
  "set_slot i ctl st = st\<lparr>cp_pool := (cp_pool st)\<lparr>slots := (slots (cp_pool st))[i := ctl]\<rparr>\<rparr>"

definition set_sup :: "nat \<Rightarrow> sup_phase \<Rightarrow> client_pool \<Rightarrow> client_pool" where
  "set_sup i s st = st\<lparr>cp_sups := (cp_sups st)[i := s]\<rparr>"

definition set_opener :: "nat \<Rightarrow> opener_phase \<Rightarrow> client_pool \<Rightarrow> client_pool" where
  "set_opener a x st = st\<lparr>cp_openers := (cp_openers st)(a := x)\<rparr>"

definition tunnel_runs :: "client_pool \<Rightarrow> nat \<Rightarrow> bool" where
  "tunnel_runs st g \<longleftrightarrow> snd (cp_tunnels st ! g) = DriverPending"

definition set_tunnel :: "nat \<Rightarrow> mux_event \<Rightarrow> client_pool \<Rightarrow> client_pool" where
  "set_tunnel g e st = st\<lparr>cp_tunnels := (cp_tunnels st)[g := mux_step e (cp_tunnels st ! g)]\<rparr>"

section \<open>The steps\<close>

text \<open>
  The supervisor of a slot: its dial succeeds and the slot gets the new tunnel's control, its dial
  fails, its tunnel's driver has ended and the slot is cleared, its pause is over.
\<close>

datatype sup_step = DialOk | DialFailed | TunnelEnded | PauseOver

fun step_supervisor :: "nat \<Rightarrow> sup_step \<Rightarrow> sup_phase \<Rightarrow> client_pool \<Rightarrow> client_pool option" where
  "step_supervisor i DialOk (Dialling b) st =
     (let g = length (cp_tunnels st) in
      Some (set_sup i (Running g) (set_slot i (Some g) (st\<lparr>cp_tunnels := cp_tunnels st @ [mux_client]\<rparr>))))"
| "step_supervisor i DialFailed (Dialling b) st = Some (set_sup i (Pausing b) st)"
| "step_supervisor i TunnelEnded (Running g) st =
     (if tunnel_runs st g then None
      else Some (set_sup i (Pausing BACKOFF_INITIAL) (set_slot i None st)))"
| "step_supervisor i PauseOver (Pausing b) st = Some (set_sup i (Dialling (min (b * 2) BACKOFF_MAX)) st)"
| "step_supervisor i e s st = None"

text \<open>
  An opener: it starts; draws the next slot from the counter and clones its control if there is one;
  sends its request to that control's driver, which fails when the driver has stopped; takes the
  reply; goes to sleep after a round; wakes up to another round or gives up.
\<close>

datatype opener_step = OpenStart | DrawSlot | SendRequest | TakeReply | RoundOver | NapOver

fun step_opener :: "nat \<Rightarrow> opener_step \<Rightarrow> opener_phase \<Rightarrow> client_pool \<Rightarrow> client_pool option" where
  "step_opener a OpenStart Idle st = Some (set_opener a (Trying (OPEN_GRACE_ATTEMPTS - 1) (cp_size st)) st)"
| "step_opener a DrawSlot (Trying r (Suc k)) st =
     (let i = unat (next_slot (cp_pool st)) mod cp_size st;
          st1 = st\<lparr>cp_pool := (cp_pool st)\<lparr>next_slot := next_slot (cp_pool st) + 1\<rparr>\<rparr> in
      Some (set_opener a (case slots (cp_pool st) ! i of None \<Rightarrow> Trying r k | Some g \<Rightarrow> Holding g r k) st1))"
| "step_opener a SendRequest (Holding g r k) st =
     Some (if tunnel_runs st g
           then set_opener a (Waiting g (cp_fresh st) r k)
                  (set_tunnel g (Request (cp_fresh st)) (st\<lparr>cp_fresh := cp_fresh st + 1\<rparr>))
           else set_opener a (Trying r k) st)"
| "step_opener a TakeReply (Waiting g q r k) st =
     (case control_open (cp_tunnels st ! g) q of
        Done s \<Rightarrow> Some (set_opener a (GotStream g q s) st)
      | Failed e \<Rightarrow> Some (set_opener a (Trying r k) st)
      | Stalled \<Rightarrow> None)"
| "step_opener a RoundOver (Trying r 0) st = Some (set_opener a (Napping r) st)"
| "step_opener a NapOver (Napping (Suc r)) st = Some (set_opener a (Trying r (cp_size st)) st)"
| "step_opener a NapOver (Napping 0) st = Some (set_opener a NoTunnel st)"
| "step_opener a e x st = None"

text \<open>The driver of a tunnel is woken by what its connection has got ready.\<close>

datatype pool_event =
    SupStep nat sup_step
  | DriverWakes nat "outbound list" "inbound list"
  | OpenerStep nat opener_step

fun pool_step :: "pool_event \<Rightarrow> client_pool \<Rightarrow> client_pool option" where
  "pool_step (SupStep i e) st = (if i < length (cp_sups st) then step_supervisor i e (cp_sups st ! i) st else None)"
| "pool_step (DriverWakes g os is) st =
     (if g < length (cp_tunnels st) \<and> tunnel_runs st g then Some (set_tunnel g (Wake os is) st) else None)"
| "pool_step (OpenerStep a e) st = step_opener a e (cp_openers st a) st"

text \<open>An execution; an event that its task is not ready for is none of the execution's.\<close>

fun pool_run :: "pool_event list \<Rightarrow> client_pool \<Rightarrow> client_pool option" where
  "pool_run [] st = Some st"
| "pool_run (e # es) st = (case pool_step e st of None \<Rightarrow> None | Some st' \<Rightarrow> pool_run es st')"


section \<open>The invariant\<close>

named_theorems pool_simps

lemmas [pool_simps] = set_slot_def set_sup_def set_opener_def set_tunnel_def cp_size_def pool_size_def

definition slot_of :: "sup_phase \<Rightarrow> nat option" where
  "slot_of s = (case s of Running g \<Rightarrow> Some g | _ \<Rightarrow> None)"

definition backoff_ok :: "sup_phase \<Rightarrow> bool" where
  "backoff_ok s = (case s of Running g \<Rightarrow> True | Dialling b \<Rightarrow> BACKOFF_INITIAL \<le> b \<and> b \<le> BACKOFF_MAX
     | Pausing b \<Rightarrow> BACKOFF_INITIAL \<le> b \<and> b \<le> BACKOFF_MAX)"

text \<open>A slot shows exactly the tunnel that its own supervisor runs.\<close>

definition sups_inv :: "client_pool \<Rightarrow> bool" where
  "sups_inv st \<longleftrightarrow> 0 < cp_size st \<and> slots (cp_pool st) = map slot_of (cp_sups st) \<and>
     (\<forall>s\<in>set (cp_sups st). backoff_ok s \<and> (\<forall>g. s = Running g \<longrightarrow> g < length (cp_tunnels st))) \<and>
     (\<forall>i < cp_size st. \<forall>j < cp_size st. \<forall>g.
        cp_sups st ! i = Running g \<and> cp_sups st ! j = Running g \<longrightarrow> i = j)"

text \<open>A tunnel's driver has every reply channel once, none of them from the future.\<close>

definition tunnel_inv :: "nat \<Rightarrow> mux_task \<Rightarrow> bool" where
  "tunnel_inv fresh t \<longleftrightarrow> open_rx (fst t) \<and> \<not> senders_gone (fst t) \<and>
     distinct (in_flight (fst t)) \<and> (\<forall>q\<in>set (in_flight (fst t)). q < fresh)"

definition opener_inv :: "nat \<Rightarrow> mux_task list \<Rightarrow> opener_phase \<Rightarrow> bool" where
  "opener_inv n ts x \<longleftrightarrow> (case x of
     Trying r k \<Rightarrow> r < OPEN_GRACE_ATTEMPTS \<and> k \<le> n
   | Holding g r k \<Rightarrow> g < length ts \<and> r < OPEN_GRACE_ATTEMPTS \<and> k < n
   | Waiting g q r k \<Rightarrow> g < length ts \<and> r < OPEN_GRACE_ATTEMPTS \<and> k < n \<and> q \<in> set (in_flight (fst (ts ! g)))
   | Napping r \<Rightarrow> r < OPEN_GRACE_ATTEMPTS
   | GotStream g q s \<Rightarrow> g < length ts \<and> (q, Inr s) \<in> set (replies (fst (ts ! g)))
   | _ \<Rightarrow> True)"

definition channel_of :: "opener_phase \<Rightarrow> nat option" where
  "channel_of x = (case x of Waiting g q r k \<Rightarrow> Some q | GotStream g q s \<Rightarrow> Some q | _ \<Rightarrow> None)"

definition openers_inv :: "client_pool \<Rightarrow> bool" where
  "openers_inv st \<longleftrightarrow>
     (\<forall>a. opener_inv (cp_size st) (cp_tunnels st) (cp_openers st a) \<and>
        (\<forall>q. channel_of (cp_openers st a) = Some q \<longrightarrow> q < cp_fresh st)) \<and>
     (\<forall>a b q. channel_of (cp_openers st a) = Some q \<and> channel_of (cp_openers st b) = Some q \<longrightarrow> a = b)"

definition pool_inv :: "client_pool \<Rightarrow> bool" where
  "pool_inv st \<longleftrightarrow> sups_inv st \<and> (\<forall>t\<in>set (cp_tunnels st). tunnel_inv (cp_fresh st) t) \<and> openers_inv st"

text \<open>How a tunnel's driver may change under the other tasks.\<close>

definition tunnel_grows :: "mux_task \<Rightarrow> mux_task \<Rightarrow> bool" where
  "tunnel_grows t t' \<longleftrightarrow> set (in_flight (fst t)) \<subseteq> set (in_flight (fst t')) \<and>
     set (replies (fst t)) \<subseteq> set (replies (fst t'))"

lemma wake_grows: "tunnel_grows t (mux_step (Wake os is) t)"
  using tunnel.wake_keeps[of t "(os, is)"] by (simp add: tunnel_grows_def)

lemma wake_tunnel_inv: "tunnel_inv fresh t \<Longrightarrow> tunnel_inv fresh (mux_step (Wake os is) t)"
  using wake_effect[of os "is" t] unfolding tunnel_inv_def by metis

lemma request_grows: "tunnel_grows t (mux_step (Request q) t)"
  unfolding tunnel_grows_def by (rule tunnel.request_keeps)

lemma request_tunnel_inv:
  assumes "tunnel_inv fresh t"
  shows "tunnel_inv (fresh + 1) (mux_step (Request fresh) t)"
proof -
  have "distinct (in_flight (fst (mux_step (Request fresh) t)))"
    using assms unfolding tunnel_inv_def by (intro tunnel.request_distinct) auto
  moreover have "\<forall>q\<in>set (in_flight (fst (mux_step (Request fresh) t))). q < fresh + 1"
    using assms tunnel.request_members[of fresh t] unfolding tunnel_inv_def by fastforce
  ultimately show ?thesis
    using assms request_effect[of fresh t] unfolding tunnel_inv_def by metis
qed

lemma request_queued:
  assumes "tunnel_inv fresh t" "snd t = DriverPending"
  shows "q \<in> set (in_flight (fst (mux_step (Request q) t)))"
  by (rule tunnel.request_taken) (use assms in \<open>simp add: tunnel_inv_def takes_requests_def\<close>)

lemma mux_client_inv: "tunnel_inv n mux_client"
  by (simp add: tunnel_inv_def mux_client_def driver_new_def in_flight_def)

lemma tunnel_inv_mono: "tunnel_inv m t \<Longrightarrow> m \<le> n \<Longrightarrow> tunnel_inv n t"
  unfolding tunnel_inv_def by fastforce

section \<open>Every step keeps it\<close>

text \<open>The openers' part survives whatever the drivers do meanwhile.\<close>

definition tunnels_grow :: "mux_task list \<Rightarrow> mux_task list \<Rightarrow> bool" where
  "tunnels_grow ts ts' \<longleftrightarrow> length ts \<le> length ts' \<and> (\<forall>g < length ts. tunnel_grows (ts ! g) (ts' ! g))"

lemma tunnel_grows_refl [simp]: "tunnel_grows t t"
  by (simp add: tunnel_grows_def)

lemma tunnels_grow_simps [simp]: "tunnels_grow ts ts" "tunnels_grow ts (ts @ us)"
  by (simp_all add: tunnels_grow_def nth_append)

lemma tunnels_grow_update: "tunnel_grows (ts ! g) t \<Longrightarrow> tunnels_grow ts (ts[g := t])"
  by (cases "g < length ts") (auto simp: tunnels_grow_def nth_list_update)

lemma opener_inv_grow: "tunnels_grow ts ts' \<Longrightarrow> opener_inv n ts x \<Longrightarrow> opener_inv n ts' x"
  unfolding opener_inv_def tunnels_grow_def tunnel_grows_def by (cases x) fastforce+

lemma openers_inv_grow:
  assumes "openers_inv st" "tunnels_grow (cp_tunnels st) (cp_tunnels st')" "cp_size st' = cp_size st"
    and "cp_openers st' = cp_openers st" "cp_fresh st \<le> cp_fresh st'"
  shows "openers_inv st'"
  using assms opener_inv_grow[OF assms(2)] unfolding openers_inv_def by (metis order_less_le_trans)

lemma openers_inv_set:
  assumes "openers_inv st" "tunnels_grow (cp_tunnels st) (cp_tunnels st')" "cp_size st' = cp_size st"
    and "cp_openers st' = (cp_openers st)(a := x)" "cp_fresh st \<le> cp_fresh st'"
    and "opener_inv (cp_size st) (cp_tunnels st') x"
    and "\<And>q. channel_of x = Some q \<Longrightarrow> q < cp_fresh st' \<and> (\<forall>b. b \<noteq> a \<longrightarrow> channel_of (cp_openers st b) \<noteq> Some q)"
  shows "openers_inv st'"
proof -
  have old: "opener_inv (cp_size st') (cp_tunnels st') (cp_openers st b) \<and>
      (\<forall>q. channel_of (cp_openers st b) = Some q \<longrightarrow> q < cp_fresh st')" for b
    using assms(1,3,5) opener_inv_grow[OF assms(2)] unfolding openers_inv_def by (metis order_less_le_trans)
  show ?thesis
    unfolding openers_inv_def assms(4)
  proof (intro conjI allI impI)
    show "opener_inv (cp_size st') (cp_tunnels st') (((cp_openers st)(a := x)) b)" for b
      using old[of b] assms(3,6) by simp
    show "q < cp_fresh st'" if "channel_of (((cp_openers st)(a := x)) b) = Some q" for b q
      using that old[of b] assms(7)[of q] by (auto split: if_splits)
    show "b = c" if "channel_of (((cp_openers st)(a := x)) b) = Some q \<and> channel_of (((cp_openers st)(a := x)) c) = Some q"
      for b c q
      using that assms(1) assms(7)[of q] unfolding openers_inv_def by (auto split: if_splits)
  qed
qed

lemma sups_inv_length: "sups_inv st \<Longrightarrow> length (cp_sups st) = cp_size st"
  by (simp add: sups_inv_def cp_size_def pool_size_def)

lemma sups_inv_cong:
  assumes "sups_inv st" "slots (cp_pool st') = slots (cp_pool st)" "cp_sups st' = cp_sups st"
    and "length (cp_tunnels st) \<le> length (cp_tunnels st')"
  shows "sups_inv st'"
  using assms unfolding sups_inv_def cp_size_def pool_size_def by (auto intro: order_less_le_trans)

lemma sups_inv_set:
  assumes "sups_inv st" "slots (cp_pool st') = (slots (cp_pool st))[i := slot_of s]" "cp_sups st' = (cp_sups st)[i := s]"
    and "length (cp_tunnels st) \<le> length (cp_tunnels st')" "backoff_ok s"
    and "\<And>g. s = Running g \<Longrightarrow> g < length (cp_tunnels st') \<and> (\<forall>j < cp_size st. cp_sups st ! j \<noteq> Running g)"
  shows "sups_inv st'"
proof -
  have size: "cp_size st' = cp_size st" using assms(2) by (simp add: cp_size_def pool_size_def)
  have all: "backoff_ok x \<and> (\<forall>g. x = Running g \<longrightarrow> g < length (cp_tunnels st'))" if "x \<in> set (cp_sups st')" for x
  proof -
    have "x = s \<or> x \<in> set (cp_sups st)" using that assms(3) by (auto dest: set_update_subset_insert[THEN subsetD])
    then show ?thesis using assms(1,4,5) assms(6) unfolding sups_inv_def by (metis order_less_le_trans)
  qed
  have "j = k" if "j < cp_size st" "k < cp_size st" "cp_sups st' ! j = Running g" "cp_sups st' ! k = Running g" for j k g
  proof -
    have nth: "cp_sups st' ! l = (if i = l then s else cp_sups st ! l)" if "l < cp_size st" for l
      using that sups_inv_length[OF assms(1)] assms(3) by simp
    from that assms(1,6) show ?thesis unfolding sups_inv_def nth[OF that(1)] nth[OF that(2)]
      by (metis (full_types))
  qed
  with all size assms(1-3) show ?thesis unfolding sups_inv_def by (simp add: map_update)
qed

lemma step_supervisor_cases:
  assumes "step_supervisor i e s st = Some st'"
  obtains (up) b where "s = Dialling b" "st' = set_sup i (Running (length (cp_tunnels st)))
      (set_slot i (Some (length (cp_tunnels st))) (st\<lparr>cp_tunnels := cp_tunnels st @ [mux_client]\<rparr>))"
  | (failed) b where "s = Dialling b" "st' = set_sup i (Pausing b) st"
  | (down) g where "s = Running g" "st' = set_sup i (Pausing BACKOFF_INITIAL) (set_slot i None st)"
  | (again) b where "s = Pausing b" "st' = set_sup i (Dialling (min (b * 2) BACKOFF_MAX)) st"
  using assms by (cases e; cases s) (auto simp: Let_def split: if_splits)

text \<open>What every step of a supervisor comes to: its phase and its slot change together.\<close>

lemma sup_step_effect:
  assumes "sups_inv st" "pool_step (SupStep i e) st = Some st'"
  shows "\<exists>s. slots (cp_pool st') = (slots (cp_pool st))[i := slot_of s] \<and> cp_sups st' = (cp_sups st)[i := s] \<and>
     backoff_ok s \<and> cp_openers st' = cp_openers st \<and> cp_fresh st' = cp_fresh st \<and>
     (cp_tunnels st' = cp_tunnels st \<and> slot_of s = None \<or>
      cp_tunnels st' = cp_tunnels st @ [mux_client] \<and> s = Running (length (cp_tunnels st)))"
proof -
  have i: "i < length (cp_sups st)" and s: "step_supervisor i e (cp_sups st ! i) st = Some st'"
    using assms(2) by (auto split: if_splits)
  have ok: "backoff_ok (cp_sups st ! i)" and slot: "slots (cp_pool st) ! i = slot_of (cp_sups st ! i)"
    using assms(1) i unfolding sups_inv_def by simp_all
  have bounds: "BACKOFF_INITIAL \<le> BACKOFF_MAX" by (simp add: BACKOFF_INITIAL_def BACKOFF_MAX_def)
  have keep: "(slots (cp_pool st))[i := None] = slots (cp_pool st)" if "slot_of (cp_sups st ! i) = None"
    using slot that by (metis list_update_id)
  from s show ?thesis
  proof (cases rule: step_supervisor_cases)
    case (up b)
    then show ?thesis
      by (intro exI[of _ "Running (length (cp_tunnels st))"]) (simp add: pool_simps slot_of_def backoff_ok_def)
  next
    case (failed b)
    with ok keep show ?thesis
      by (intro exI[of _ "Pausing b"]) (simp add: pool_simps slot_of_def backoff_ok_def)
  next
    case (down g)
    with bounds show ?thesis
      by (intro exI[of _ "Pausing BACKOFF_INITIAL"]) (simp add: pool_simps slot_of_def backoff_ok_def)
  next
    case (again b)
    with ok keep bounds show ?thesis
      by (intro exI[of _ "Dialling (min (b * 2) BACKOFF_MAX)"]) (simp add: pool_simps slot_of_def backoff_ok_def)
  qed
qed

lemma sup_step_inv:
  assumes "pool_inv st" "pool_step (SupStep i e) st = Some st'"
  shows "pool_inv st'"
proof -
  have inv: "sups_inv st" "\<forall>t\<in>set (cp_tunnels st). tunnel_inv (cp_fresh st) t" "openers_inv st"
    using assms(1) by (simp_all add: pool_inv_def)
  from sup_step_effect[OF inv(1) assms(2)] obtain s where
    new: "slots (cp_pool st') = (slots (cp_pool st))[i := slot_of s]" "cp_sups st' = (cp_sups st)[i := s]"
      "backoff_ok s" "cp_openers st' = cp_openers st" "cp_fresh st' = cp_fresh st"
    and tunnels: "cp_tunnels st' = cp_tunnels st \<and> slot_of s = None \<or>
      cp_tunnels st' = cp_tunnels st @ [mux_client] \<and> s = Running (length (cp_tunnels st))"
    by blast
  have fresh: "\<forall>j < cp_size st. cp_sups st ! j \<noteq> Running (length (cp_tunnels st))"
    using inv(1) sups_inv_length[OF inv(1)] unfolding sups_inv_def by (metis less_irrefl nth_mem)
  have "sups_inv st'"
    by (rule sups_inv_set[OF inv(1) new(1,2) _ new(3)]) (use tunnels fresh in \<open>auto simp: slot_of_def\<close>)
  moreover have "\<forall>t\<in>set (cp_tunnels st'). tunnel_inv (cp_fresh st') t"
    using inv(2) new(5) tunnels mux_client_inv by auto
  moreover have "openers_inv st'"
    by (rule openers_inv_grow[OF inv(3)]) (use new tunnels in \<open>auto simp: cp_size_def pool_size_def\<close>)
  ultimately show ?thesis by (simp add: pool_inv_def)
qed

lemma wake_step_inv:
  assumes "pool_inv st" "pool_step (DriverWakes g os is) st = Some st'"
  shows "pool_inv st'"
proof -
  have inv: "sups_inv st" "\<forall>t\<in>set (cp_tunnels st). tunnel_inv (cp_fresh st) t" "openers_inv st"
    using assms(1) by (simp_all add: pool_inv_def)
  have g: "g < length (cp_tunnels st)" and st': "st' = set_tunnel g (Wake os is) st"
    using assms(2) by (auto split: if_splits)
  have "sups_inv st'" by (rule sups_inv_cong[OF inv(1)]) (simp_all add: st' set_tunnel_def)
  moreover have "\<forall>t\<in>set (cp_tunnels st'). tunnel_inv (cp_fresh st') t"
    using inv(2) g wake_tunnel_inv[of "cp_fresh st" "cp_tunnels st ! g"]
    by (auto simp: st' set_tunnel_def dest!: set_update_subset_insert[THEN subsetD])
  moreover have "openers_inv st'"
    by (rule openers_inv_grow[OF inv(3)])
       (simp_all add: st' set_tunnel_def cp_size_def tunnels_grow_update wake_grows)
  ultimately show ?thesis by (simp add: pool_inv_def)
qed

text \<open>The steps of an opener, by the phase they start from.\<close>

definition draw :: "client_pool \<Rightarrow> client_pool" where
  "draw st = st\<lparr>cp_pool := (cp_pool st)\<lparr>next_slot := next_slot (cp_pool st) + 1\<rparr>\<rparr>"

definition next_index :: "client_pool \<Rightarrow> nat" where
  "next_index st = unat (next_slot (cp_pool st)) mod cp_size st"

lemma step_opener_cases:
  assumes "step_opener a e x st = Some st'"
  obtains (begin_open) "e = OpenStart" "x = Idle" "st' = set_opener a (Trying (OPEN_GRACE_ATTEMPTS - 1) (cp_size st)) st"
  | (empty) r k where "e = DrawSlot" "x = Trying r (Suc k)" "slots (cp_pool st) ! next_index st = None"
      "st' = set_opener a (Trying r k) (draw st)"
  | (drawn) r k g where "e = DrawSlot" "x = Trying r (Suc k)" "slots (cp_pool st) ! next_index st = Some g"
      "st' = set_opener a (Holding g r k) (draw st)"
  | (request) g r k where "e = SendRequest" "x = Holding g r k" "tunnel_runs st g"
      "st' = set_opener a (Waiting g (cp_fresh st) r k)
         (set_tunnel g (Request (cp_fresh st)) (st\<lparr>cp_fresh := cp_fresh st + 1\<rparr>))"
  | (stopped) g r k where "e = SendRequest" "x = Holding g r k" "st' = set_opener a (Trying r k) st"
  | (got) g q r k s where "e = TakeReply" "x = Waiting g q r k" "control_open (cp_tunnels st ! g) q = Done s"
      "st' = set_opener a (GotStream g q s) st"
  | (refused) g q r k where "e = TakeReply" "x = Waiting g q r k" "st' = set_opener a (Trying r k) st"
  | (round_over) r where "e = RoundOver" "x = Trying r 0" "st' = set_opener a (Napping r) st"
  | (again) r where "e = NapOver" "x = Napping (Suc r)" "st' = set_opener a (Trying r (cp_size st)) st"
  | (gives_up) "e = NapOver" "x = Napping 0" "st' = set_opener a NoTunnel st"
  using assms
  by (induction a e x st rule: step_opener.induct)
     (auto simp: Let_def draw_def next_index_def split: if_splits option.splits outcome.splits)

lemma control_open_Done: "control_open t q = Done s \<Longrightarrow> (q, Inr s) \<in> set (replies (fst t))"
  by (cases t) (auto simp: control_open_def split: option.splits sum.splits if_splits dest: map_of_SomeD)

lemma opener_step_inv:
  assumes "pool_inv st" "pool_step (OpenerStep a e) st = Some st'"
  shows "pool_inv st'"
proof -
  have inv: "sups_inv st" "\<forall>t\<in>set (cp_tunnels st). tunnel_inv (cp_fresh st) t" "openers_inv st"
    using assms(1) by (simp_all add: pool_inv_def)
  let ?x = "cp_openers st a"
  have x: "opener_inv (cp_size st) (cp_tunnels st) ?x" "\<And>q. channel_of ?x = Some q \<Longrightarrow> q < cp_fresh st"
    and other: "\<And>b q. channel_of ?x = Some q \<Longrightarrow> channel_of (cp_openers st b) = Some q \<Longrightarrow> b = a"
    using inv(3) unfolding openers_inv_def by blast+
  have older: "\<And>b. channel_of (cp_openers st b) \<noteq> Some (cp_fresh st)"
    using inv(3) unfolding openers_inv_def by blast
  have index: "next_index st < cp_size st" using inv(1) by (simp add: sups_inv_def next_index_def)
  have held: "g < length (cp_tunnels st)" if "slots (cp_pool st) ! next_index st = Some g" for g
  proof -
    have "slot_of (cp_sups st ! next_index st) = Some g"
      using that inv(1) index sups_inv_length[OF inv(1)] unfolding sups_inv_def by simp
    then have "cp_sups st ! next_index st = Running g" by (auto simp: slot_of_def split: sup_phase.splits)
    with inv(1) index sups_inv_length[OF inv(1)] show ?thesis unfolding sups_inv_def by (metis nth_mem)
  qed
  have s: "step_opener a e ?x st = Some st'" using assms(2) by simp
  define y where "y = cp_openers st' a"
  have st': "cp_openers st' = (cp_openers st)(a := y)" "cp_size st' = cp_size st"
    "slots (cp_pool st') = slots (cp_pool st)" "cp_sups st' = cp_sups st"
    using s unfolding y_def by (cases rule: step_opener_cases; simp add: pool_simps draw_def)+
  have "opener_inv (cp_size st) (cp_tunnels st') y \<and> cp_fresh st \<le> cp_fresh st' \<and>
      (\<forall>t\<in>set (cp_tunnels st'). tunnel_inv (cp_fresh st') t) \<and> tunnels_grow (cp_tunnels st) (cp_tunnels st') \<and>
      (\<forall>q. channel_of y = Some q \<longrightarrow> q < cp_fresh st' \<and> (\<forall>b. b \<noteq> a \<longrightarrow> channel_of (cp_openers st b) \<noteq> Some q))"
    using s
  proof (cases rule: step_opener_cases)
    case (request g r k)
    with x(1) have g: "g < length (cp_tunnels st)" "r < OPEN_GRACE_ATTEMPTS" "k < cp_size st"
      by (simp_all add: opener_inv_def)
    let ?t = "mux_step (Request (cp_fresh st)) (cp_tunnels st ! g)"
    have t: "tunnel_inv (cp_fresh st) (cp_tunnels st ! g)" using inv(2) g(1) by simp
    have "cp_tunnels st' = (cp_tunnels st)[g := ?t]" "y = Waiting g (cp_fresh st) r k" "cp_fresh st' = cp_fresh st + 1"
      using request by (simp_all add: y_def pool_simps)
    moreover have "cp_fresh st \<in> set (in_flight (fst ?t))"
      by (rule request_queued[OF t]) (use request in \<open>simp add: tunnel_runs_def\<close>)
    moreover have "\<forall>u\<in>set ((cp_tunnels st)[g := ?t]). tunnel_inv (cp_fresh st + 1) u"
      using inv(2) request_tunnel_inv[OF t] tunnel_inv_mono[of "cp_fresh st" _ "cp_fresh st + 1"]
      by (auto dest!: set_update_subset_insert[THEN subsetD])
    moreover have "tunnels_grow (cp_tunnels st) ((cp_tunnels st)[g := ?t])"
      by (rule tunnels_grow_update[OF request_grows])
    ultimately show ?thesis using g older by (simp add: opener_inv_def channel_of_def)
  qed (use x other inv(2) held index in
      \<open>auto simp: y_def pool_simps draw_def opener_inv_def channel_of_def OPEN_GRACE_ATTEMPTS_def dest: control_open_Done\<close>)
  then have "openers_inv st'" and t: "\<forall>t\<in>set (cp_tunnels st'). tunnel_inv (cp_fresh st') t"
      "tunnels_grow (cp_tunnels st) (cp_tunnels st')"
    using openers_inv_set[OF inv(3) _ st'(2,1)] by blast+
  moreover have "sups_inv st'"
    by (rule sups_inv_cong[OF inv(1) st'(3,4)]) (use t(2) in \<open>simp add: tunnels_grow_def\<close>)
  ultimately show ?thesis by (simp add: pool_inv_def)
qed

lemma pool_step_inv: "pool_inv st \<Longrightarrow> pool_step e st = Some st' \<Longrightarrow> pool_inv st'"
  by (cases e) (blast intro: sup_step_inv wake_step_inv opener_step_inv)+

lemma pool_run_inv: "pool_inv st \<Longrightarrow> pool_run es st = Some st' \<Longrightarrow> pool_inv st'"
  by (induction es arbitrary: st) (auto split: option.splits dest: pool_step_inv)

lemma pool_inv_new: "pool_inv (client_pool_new (build_pool addr params n))"
  by (auto simp: pool_inv_def sups_inv_def openers_inv_def opener_inv_def channel_of_def client_pool_new_def build_pool_def
      Let_def slot_of_def backoff_ok_def cp_size_def pool_size_def BACKOFF_INITIAL_def BACKOFF_MAX_def map_replicate_const
      intro!: nth_equalityI)

section \<open>An opener's way\<close>

text \<open>The steps an opener has left at most, and the draws it has left if it is to give up.\<close>

definition effort :: "nat \<Rightarrow> opener_phase \<Rightarrow> nat" where
  "effort n x = (let per_round = 3 * n + 2 in case x of
     Idle \<Rightarrow> OPEN_GRACE_ATTEMPTS * per_round + 1
   | Trying r k \<Rightarrow> r * per_round + 3 * k + 2
   | Holding g r k \<Rightarrow> r * per_round + 3 * k + 4
   | Waiting g q r k \<Rightarrow> r * per_round + 3 * k + 3
   | Napping r \<Rightarrow> r * per_round + 1
   | GotStream g q s \<Rightarrow> 0
   | NoTunnel \<Rightarrow> 0)"

definition draws_left :: "nat \<Rightarrow> opener_phase \<Rightarrow> nat" where
  "draws_left n x = (case x of
     Idle \<Rightarrow> OPEN_GRACE_ATTEMPTS * n
   | Trying r k \<Rightarrow> r * n + k
   | Holding g r k \<Rightarrow> r * n + k
   | Waiting g q r k \<Rightarrow> r * n + k
   | Napping r \<Rightarrow> r * n
   | _ \<Rightarrow> 0)"

definition has_stream :: "opener_phase \<Rightarrow> bool" where
  "has_stream x \<longleftrightarrow> (case x of GotStream g q s \<Rightarrow> True | _ \<Rightarrow> False)"

lemma step_opener_progress:
  assumes "step_opener a e x st = Some st'" "cp_size st = n"
  shows "effort n (cp_openers st' a) < effort n x \<and> \<not> has_stream x \<and>
    (has_stream (cp_openers st' a) \<or>
       draws_left n (cp_openers st' a) + (if e = DrawSlot then 1 else 0) = draws_left n x)"
  using assms(1)
  by (cases rule: step_opener_cases)
     (simp_all add: assms(2) effort_def draws_left_def has_stream_def set_opener_def set_tunnel_def draw_def OPEN_GRACE_ATTEMPTS_def)

lemma pool_step_cases:
  assumes "pool_step e st = Some st'"
  obtains (sup) i d where "e = SupStep i d" "i < length (cp_sups st)" "step_supervisor i d (cp_sups st ! i) st = Some st'"
  | (wake) g os "is" where "e = DriverWakes g os is" "st' = set_tunnel g (Wake os is) st"
  | (opener) a d where "e = OpenerStep a d" "step_opener a d (cp_openers st a) st = Some st'"
  using assms by (cases e) (auto split: if_splits)

lemma step_others:
  assumes "pool_step e st = Some st'" "\<forall>d. e \<noteq> OpenerStep a d"
  shows "cp_openers st' a = cp_openers st a"
  using assms(1)
proof (cases rule: pool_step_cases)
  case (sup i d)
  from sup(3) show ?thesis by (cases rule: step_supervisor_cases) (simp_all add: pool_simps)
next
  case (opener b d)
  with assms(2) have "b \<noteq> a" by blast
  with opener(2) show ?thesis by (cases rule: step_opener_cases) (simp_all add: pool_simps draw_def)
qed (simp add: pool_simps)

lemma step_sizes:
  assumes "pool_step e st = Some st'"
  shows "cp_size st' = cp_size st \<and> length (cp_sups st') = length (cp_sups st)"
  using assms
proof (cases rule: pool_step_cases)
  case (sup i d)
  from sup(3) show ?thesis by (cases rule: step_supervisor_cases) (simp_all add: pool_simps)
next
  case (opener b d)
  from opener(2) show ?thesis by (cases rule: step_opener_cases) (simp_all add: pool_simps draw_def)
qed (simp add: pool_simps)

lemmas step_size = step_sizes[THEN conjunct1]

definition steps_of :: "nat \<Rightarrow> pool_event list \<Rightarrow> opener_step list" where
  "steps_of a es = List.map_filter (\<lambda>e. case e of OpenerStep b d \<Rightarrow> if b = a then Some d else None | _ \<Rightarrow> None) es"

lemma steps_of_simps [simp]:
  "steps_of a [] = []"
  "steps_of a (OpenerStep a d # es) = d # steps_of a es"
  "\<forall>d. e \<noteq> OpenerStep a d \<Longrightarrow> steps_of a (e # es) = steps_of a es"
  by (auto simp: steps_of_def map_filter_simps split: pool_event.splits)

lemma opener_run:
  assumes "pool_run es st = Some st'" "cp_size st = n"
  shows "length (steps_of a es) + effort n (cp_openers st' a) \<le> effort n (cp_openers st a)"
    "\<not> has_stream (cp_openers st' a) \<Longrightarrow>
       length (filter (\<lambda>d. d = DrawSlot) (steps_of a es)) + draws_left n (cp_openers st' a) =
         draws_left n (cp_openers st a)"
proof -
  have "length (steps_of a es) + effort n (cp_openers st' a) \<le> effort n (cp_openers st a) \<and>
      (\<not> has_stream (cp_openers st' a) \<longrightarrow>
         length (filter (\<lambda>d. d = DrawSlot) (steps_of a es)) + draws_left n (cp_openers st' a) =
           draws_left n (cp_openers st a)) \<and>
      (has_stream (cp_openers st a) \<longrightarrow> has_stream (cp_openers st' a))"
    using assms
  proof (induction es arbitrary: st)
    case (Cons e es)
    then obtain st1 where s: "pool_step e st = Some st1" "pool_run es st1 = Some st'"
      by (auto split: option.splits)
    note ih = Cons.IH[OF s(2), unfolded step_size[OF s(1)], OF Cons.prems(2)]
    show ?case
    proof (cases "\<exists>d. e = OpenerStep a d")
      case True
      then obtain d where d: "e = OpenerStep a d" by blast
      with s(1) have "step_opener a d (cp_openers st a) st = Some st1" by simp
      from step_opener_progress[OF this Cons.prems(2)] ih show ?thesis by (auto simp: d)
    next
      case False
      with ih step_others[OF s(1), of a] show ?thesis by simp
    qed
  qed simp
  then show "length (steps_of a es) + effort n (cp_openers st' a) \<le> effort n (cp_openers st a)"
    "\<not> has_stream (cp_openers st' a) \<Longrightarrow>
       length (filter (\<lambda>d. d = DrawSlot) (steps_of a es)) + draws_left n (cp_openers st' a) =
         draws_left n (cp_openers st a)" by blast+
qed

section \<open>Properties\<close>

definition idle_pool :: "socket_addr \<Rightarrow> tunnel_params \<Rightarrow> nat \<Rightarrow> client_pool" where
  "idle_pool addr params n = client_pool_new (build_pool addr params n)"

lemma idle_pool_simps [simp]:
  "cp_size (idle_pool addr params n) = max n 1" "cp_openers (idle_pool addr params n) a = Idle"
  by (simp_all add: idle_pool_def client_pool_new_def build_pool_def cp_size_def pool_size_def Let_def)

lemma run_size: "pool_run es st = Some st' \<Longrightarrow> cp_size st' = cp_size st"
  by (induction es arbitrary: st) (auto split: option.splits dest: step_size)

section \<open>What the connections yield\<close>

text \<open>
  The results that the connection of tunnel \<open>g\<close> has had for open requests in an execution, the
  streams among results, and those in a tunnel's replies.
\<close>

definition yields :: "nat \<Rightarrow> pool_event list \<Rightarrow> (string + nat) list" where
  "yields g es = concat (map (\<lambda>e. case e of DriverWakes h os is \<Rightarrow> if h = g then ready_results os else [] | _ \<Rightarrow> []) es)"

definition granted :: "(string + nat) list \<Rightarrow> nat list" where
  "granted rs = List.map_filter (\<lambda>r. case r of Inr s \<Rightarrow> Some s | Inl e \<Rightarrow> None) rs"

definition streams_of :: "mux_task \<Rightarrow> nat list" where
  "streams_of t = granted (map snd (replies (fst t)))"

lemma granted_append: "granted (rs @ qs) = granted rs @ granted qs"
  by (simp add: granted_def map_filter_def)

lemma granted_simps [simp]: "granted [] = []" "granted (Inr s # rs) = s # granted rs" "granted (Inl e # rs) = granted rs"
  by (simp_all add: granted_def map_filter_simps)

lemma distinct_granted:
  "distinct (granted (map snd rs)) \<Longrightarrow> (q, Inr s) \<in> set rs \<Longrightarrow> (q', Inr s) \<in> set rs \<Longrightarrow> q = q'"
proof (induction rs)
  case (Cons r rs)
  have "s \<in> set (granted (map snd rs))" if "(p, Inr s) \<in> set rs" for p
    using that by (force simp: granted_def map_filter_def)
  then show ?case using Cons by (cases r; cases "snd r") auto
qed simp

lemma yields_snoc:
  "yields g (es @ [e]) = yields g es @ (case e of DriverWakes h os is \<Rightarrow> if h = g then ready_results os else [] | _ \<Rightarrow> [])"
  by (simp add: yields_def)

text \<open>Every tunnel has exactly the results that its own connection has yielded.\<close>

definition supplied :: "pool_event list \<Rightarrow> client_pool \<Rightarrow> bool" where
  "supplied es st \<longleftrightarrow> (\<forall>g. yields g es = (if g < length (cp_tunnels st) then results_in (cp_tunnels st ! g) else []))"

lemma supplied_step:
  assumes "supplied es st" "pool_step e st = Some st'"
  shows "supplied (es @ [e]) st'"
  using assms(2)
proof (cases rule: pool_step_cases)
  case (sup i d)
  from sup(3) have "cp_tunnels st' = cp_tunnels st \<or> cp_tunnels st' = cp_tunnels st @ [mux_client]"
    by (cases rule: step_supervisor_cases) (simp_all add: pool_simps)
  moreover have "results_in mux_client = []"
    by (simp add: results_in_def mux_client_def driver_new_def ready_results_def)
  ultimately show ?thesis
    using assms(1) by (auto simp: supplied_def yields_snoc sup(1) nth_append less_Suc_eq)
next
  case (wake g os "is")
  have "snd (cp_tunnels st ! g) = DriverPending" "g < length (cp_tunnels st)"
    using assms(2) by (auto simp: wake(1) tunnel_runs_def split: if_splits)
  with assms(1) show ?thesis
    by (auto simp: supplied_def yields_snoc wake set_tunnel_def results_in_step(1) nth_list_update)
next
  case (opener a d)
  from opener(2) have "cp_tunnels st' = cp_tunnels st \<or>
      (\<exists>g q. cp_tunnels st' = (cp_tunnels st)[g := mux_step (Request q) (cp_tunnels st ! g)])"
    by (cases rule: step_opener_cases) (auto simp: pool_simps draw_def)
  moreover have "results_in ((cp_tunnels st)[g := mux_step (Request q) (cp_tunnels st ! g)] ! h) =
      results_in (cp_tunnels st ! h)" if "h < length (cp_tunnels st)" for g q h
    using that by (cases "g = h") (simp_all add: results_in_step(2))
  ultimately show ?thesis
    using assms(1) by (auto simp: supplied_def yields_snoc opener(1))
qed

lemma supplied_run: "supplied fs st \<Longrightarrow> pool_run es st = Some st' \<Longrightarrow> supplied (fs @ es) st'"
proof (induction es arbitrary: fs st)
  case (Cons e es)
  then obtain st1 where s: "pool_step e st = Some st1" "pool_run es st1 = Some st'" by (auto split: option.splits)
  from Cons.IH[OF supplied_step[OF Cons.prems(1) s(1)] s(2)] show ?case by simp
qed simp

lemma streams_yielded:
  assumes "pool_run es (idle_pool addr params n) = Some st" "g < length (cp_tunnels st)"
  shows "prefix (streams_of (cp_tunnels st ! g)) (granted (yields g es))"
proof -
  have "supplied [] (idle_pool addr params n)"
    by (simp add: supplied_def yields_def idle_pool_def client_pool_new_def)
  from supplied_run[OF this assms(1)] assms(2) show ?thesis
    by (simp add: supplied_def streams_of_def results_in_def granted_append)
qed

text \<open>A pool of one slot whose tunnel serves two openers.\<close>

definition sample_params :: tunnel_params where
  "sample_params = \<lparr>tp_static_secret = SecretKey (replicate 32 1), tp_server_pubkey = PublicKey (replicate 32 2),
     tp_psk = Psk (replicate 32 3), tp_knock = None, tp_fwmark = None\<rparr>"

definition sample_pool :: "nat \<Rightarrow> client_pool" where
  "sample_pool n = idle_pool (SockV4 (Ipv4Addr 203 0 113 11) 8443) sample_params n"

definition sample_openings :: "pool_event list" where
  "sample_openings =
     [SupStep 0 DialOk, OpenerStep 0 OpenStart, OpenerStep 1 OpenStart, OpenerStep 1 DrawSlot, OpenerStep 0 DrawSlot,
      OpenerStep 0 SendRequest, OpenerStep 1 SendRequest, DriverWakes 0 [OutReady (Inr 7), OutReady (Inr 9)] [],
      OpenerStep 1 TakeReply, OpenerStep 0 TakeReply]"

lemma sample_openings_run:
  obtains st where "pool_run sample_openings (sample_pool 1) = Some st" "cp_openers st 0 = GotStream 0 0 7"
    "cp_openers st 1 = GotStream 0 1 9" "streams_of (cp_tunnels st ! 0) = [7, 9]"
    "slots (cp_pool st) = [Some 0]"
proof -
  define d where "d = \<lparr>out_script = [OutReady (Inr 7), OutReady (Inr 9)], in_script = [], open_queue = [0, Suc 0],
      senders_gone = False, open_rx = True, pending_open = None, replies = [], inbound_rx = False, delivered = [], dropped = []\<rparr>"
  have poll: "driver_poll d = (DriverPending, d\<lparr>out_script := [], open_queue := [], replies := [(0, Inr 7), (1, Inr 9)]\<rparr>)"
    by (simp add: d_def driver_poll.simps driver_turn_def turn_outbound_def turn_inbound_def turn_requests_def)
  have "\<exists>st. pool_run sample_openings (sample_pool 1) = Some st \<and> cp_openers st 0 = GotStream 0 0 7 \<and>
      cp_openers st 1 = GotStream 0 1 9 \<and> streams_of (cp_tunnels st ! 0) = [7, 9] \<and> slots (cp_pool st) = [Some 0]"
    using poll
    by (simp add: sample_openings_def sample_pool_def idle_pool_def client_pool_new_def build_pool_def Let_def pool_simps
        tunnel_runs_def mux_client_def driver_new_def d_def control_open_def streams_of_def)
  with that show thesis by blast
qed

text \<open>
  C27: No two openers ever share a stream. However supervisors, drivers and any number of openers
  interleave, and however tunnels come and go under them, the stream an opener gets was given for
  its own request, by the connection of the tunnel it asked; and as long as that connection does
  not yield one stream for two requests, two openers that got their streams from the same tunnel
  hold different ones.
\<close>

theorem openers_never_share:
  assumes "pool_run es (idle_pool addr params n) = Some st" "a \<noteq> b"
    and "cp_openers st a = GotStream g q s" "cp_openers st b = GotStream g q' s'"
    and "distinct (granted (yields g es))"
  shows "q \<noteq> q' \<and> s \<noteq> s' \<and> s \<in> set (granted (yields g es)) \<and> s' \<in> set (granted (yields g es)) \<and>
     (q, Inr s) \<in> set (replies (fst (cp_tunnels st ! g)))"
proof -
  have "openers_inv st"
    using pool_run_inv[OF pool_inv_new assms(1)[unfolded idle_pool_def]] by (simp add: pool_inv_def)
  then have i: "opener_inv (cp_size st) (cp_tunnels st) (cp_openers st a)" "opener_inv (cp_size st) (cp_tunnels st) (cp_openers st b)"
    "\<And>q. channel_of (cp_openers st a) = Some q \<Longrightarrow> channel_of (cp_openers st b) = Some q \<Longrightarrow> a = b"
    unfolding openers_inv_def by blast+
  then have "q \<noteq> q'" using assms(2-4) by (auto simp: channel_of_def)
  moreover have r: "g < length (cp_tunnels st)" "(q, Inr s) \<in> set (replies (fst (cp_tunnels st ! g)))"
    "(q', Inr s') \<in> set (replies (fst (cp_tunnels st ! g)))"
    using i(1,2) assms(3,4) by (simp_all add: opener_inv_def)
  have pre: "prefix (streams_of (cp_tunnels st ! g)) (granted (yields g es))" by (rule streams_yielded[OF assms(1) r(1)])
  then have "distinct (streams_of (cp_tunnels st ! g))" using assms(5) by (auto simp: prefix_def)
  with r(2,3) \<open>q \<noteq> q'\<close> have "s \<noteq> s'" unfolding streams_of_def by (blast dest: distinct_granted)
  moreover have "{s, s'} \<subseteq> set (streams_of (cp_tunnels st ! g))"
    using r(2,3) by (force simp: streams_of_def granted_def map_filter_def)
  ultimately show ?thesis using r(2) set_mono_prefix[OF pre] by blast
qed

theorem openers_never_share_witness:
  "\<exists>st q q' s s'. pool_run sample_openings (sample_pool 1) = Some st \<and> cp_openers st 0 = GotStream 0 q s \<and>
     cp_openers st 1 = GotStream 0 q' s' \<and> s \<noteq> s' \<and> s' \<in> {7, 9}"
proof -
  obtain st where st: "pool_run sample_openings (sample_pool 1) = Some st" "cp_openers st 0 = GotStream 0 0 7"
    "cp_openers st 1 = GotStream 0 1 9" by (rule sample_openings_run)
  have y: "granted (yields 0 sample_openings) = [7, 9]"
    by (simp add: yields_def sample_openings_def ready_results_def)
  have "distinct (granted (yields 0 sample_openings))" unfolding y by simp
  from openers_never_share[OF st(1)[unfolded sample_pool_def] zero_neq_one st(2,3) this] st(1-3) y show ?thesis
    by (intro exI[of _ st] exI[of _ 0] exI[of _ 1] exI[of _ 7] exI[of _ 9]) simp
qed



text \<open>
  C29: A slot shows a tunnel exactly while its own supervisor runs it: the pool keeps its size, which is
  at least one, every draw falls on a slot, no tunnel is in two slots, and the back-off of every
  supervisor stays between 250 ms and 15 s.
\<close>

theorem slots_show_running_tunnels:
  assumes "pool_run es (idle_pool addr params n) = Some st"
  shows "cp_size st = max n 1 \<and> slots (cp_pool st) = map slot_of (cp_sups st) \<and> next_index st < cp_size st \<and>
    (\<forall>s\<in>set (cp_sups st). backoff_ok s) \<and>
    (\<forall>i < cp_size st. \<forall>j < cp_size st. \<forall>g.
       slots (cp_pool st) ! i = Some g \<and> slots (cp_pool st) ! j = Some g \<longrightarrow> i = j \<and> g < length (cp_tunnels st))"
proof -
  have inv: "sups_inv st"
    using pool_run_inv[OF pool_inv_new assms[unfolded idle_pool_def]] by (simp add: pool_inv_def)
  have "slots (cp_pool st) ! i = Some g \<longleftrightarrow> cp_sups st ! i = Running g" if "i < cp_size st" for i g
    using that inv sups_inv_length[OF inv] by (auto simp: sups_inv_def slot_of_def split: sup_phase.splits)
  then have "i = j \<and> g < length (cp_tunnels st)"
    if "i < cp_size st" "j < cp_size st" "slots (cp_pool st) ! i = Some g" "slots (cp_pool st) ! j = Some g" for i j g
    using that inv sups_inv_length[OF inv] unfolding sups_inv_def by (metis nth_mem)
  moreover have "next_index st < cp_size st" using inv by (simp add: sups_inv_def next_index_def)
  moreover have "cp_size st = max n 1" using run_size[OF assms] by simp
  moreover have "slots (cp_pool st) = map slot_of (cp_sups st)" "\<forall>s\<in>set (cp_sups st). backoff_ok s"
    using inv unfolding sups_inv_def by blast+
  ultimately show ?thesis by blast
qed

theorem slots_show_running_tunnels_witness:
  "\<exists>st. pool_run sample_openings (sample_pool 1) = Some st \<and> slots (cp_pool st) = [Some 0] \<and>
     map slot_of (cp_sups st) = [Some 0]"
proof -
  obtain st where st: "pool_run sample_openings (sample_pool 1) = Some st" "slots (cp_pool st) = [Some 0]"
    by (rule sample_openings_run)
  from slots_show_running_tunnels[OF st(1)[unfolded sample_pool_def]] st show ?thesis by auto
qed

section \<open>What opening does not guarantee\<close>

text \<open>
  Slot 1 of two is live, the counter points to slot 0, and there are openers yet to start. An opener
  between whose draws others draw never gets to see slot 1.
\<close>

definition beside_live :: "client_pool \<Rightarrow> bool" where
  "beside_live st \<longleftrightarrow> slots (cp_pool st) = [None, Some 0] \<and> even (unat (next_slot (cp_pool st))) \<and>
     (\<exists>m. \<forall>b \<ge> m. cp_openers st b = Idle)"

definition only_openers :: "pool_event list \<Rightarrow> bool" where
  "only_openers es \<longleftrightarrow> (\<forall>e\<in>set es. \<exists>b d. e = OpenerStep b d)"

lemma pool_run_append: "pool_run es st = Some st1 \<Longrightarrow> pool_run fs st1 = Some st2 \<Longrightarrow> pool_run (es @ fs) st = Some st2"
  by (induction es arbitrary: st) (auto split: option.splits)

lemma even_Suc_word: "even (unat (n + 1 :: u64)) \<longleftrightarrow> odd (unat n)"
proof -
  have "unat (n + 1) mod 2 = (unat n + 1) mod 2"
    by (simp add: unat_word_ariths mod_mod_cancel)
  then show ?thesis by presburger
qed

lemma misses_a_draw:
  assumes "beside_live st" "cp_openers st 0 = Trying r (Suc k)"
  shows "\<exists>es st'. pool_run es st = Some st' \<and> only_openers es \<and> beside_live st' \<and> cp_openers st' 0 = Trying r k"
proof -
  from assms(1) obtain m where m: "\<forall>b \<ge> m. cp_openers st b = Idle" unfolding beside_live_def by blast
  define b where "b = max m 1"
  have b: "cp_openers st b = Idle" "b \<noteq> 0" using m by (simp_all add: b_def)
  have size: "cp_size st = 2" using assms(1) by (simp add: beside_live_def cp_size_def pool_size_def)
  have two: "Suc (Suc 0) = 2" by simp
  have turns: "unat (next_slot (cp_pool st)) mod Suc (Suc 0) = 0" "unat (next_slot (cp_pool st) + 1) mod Suc (Suc 0) = 1"
    using assms(1) even_Suc_word[of "next_slot (cp_pool st)"] unfolding beside_live_def two by presburger+
  obtain st' where st': "pool_run [OpenerStep 0 DrawSlot, OpenerStep b OpenStart, OpenerStep b DrawSlot] st = Some st'"
      "cp_openers st' = (cp_openers st)(0 := Trying r k, b := Holding 0 19 1)"
      "slots (cp_pool st') = slots (cp_pool st)" "next_slot (cp_pool st') = next_slot (cp_pool st) + 1 + 1"
    using assms b size by (simp add: turns beside_live_def Let_def pool_simps OPEN_GRACE_ATTEMPTS_def fun_upd_twist)
  have "\<forall>c \<ge> b + 1. cp_openers st' c = Idle" using m by (auto simp: st'(2) b_def)
  moreover have "even (unat (next_slot (cp_pool st) + 1 + 1))"
    using assms(1) unfolding beside_live_def even_Suc_word by simp
  ultimately have "beside_live st'" using assms(1) unfolding beside_live_def st'(3,4) by blast
  with st' b(2) show ?thesis
    by (intro exI[of _ "[OpenerStep 0 DrawSlot, OpenerStep b OpenStart, OpenerStep b DrawSlot]"] exI[of _ st'])
       (simp add: only_openers_def)
qed

lemma misses_a_round:
  "beside_live st \<Longrightarrow> cp_openers st 0 = Trying r k \<Longrightarrow>
     \<exists>es st'. pool_run es st = Some st' \<and> only_openers es \<and> beside_live st' \<and> cp_openers st' 0 = Trying r 0"
proof (induction k arbitrary: st)
  case 0
  then show ?case by (intro exI[of _ "[]"] exI[of _ st]) (simp add: only_openers_def)
next
  case (Suc k)
  from misses_a_draw[OF Suc.prems] obtain es st1 where 1: "pool_run es st = Some st1" "only_openers es"
    "beside_live st1" "cp_openers st1 0 = Trying r k" by blast
  from Suc.IH[OF 1(3,4)] obtain fs st2 where "pool_run fs st1 = Some st2" "only_openers fs" "beside_live st2"
    "cp_openers st2 0 = Trying r 0" by blast
  with 1 pool_run_append[OF 1(1)] show ?case by (metis only_openers_def Un_iff set_append)
qed

lemma beside_live_set:
  assumes "beside_live st"
  shows "beside_live (set_opener 0 x st)"
proof -
  from assms obtain m where "\<forall>b \<ge> m. cp_openers st b = Idle" unfolding beside_live_def by blast
  then have "\<forall>b \<ge> Suc m. cp_openers (set_opener 0 x st) b = Idle" by (simp add: set_opener_def)
  with assms show ?thesis unfolding beside_live_def by (auto simp: set_opener_def)
qed

lemma misses_all_rounds:
  "beside_live st \<Longrightarrow> cp_openers st 0 = Trying r 2 \<Longrightarrow>
     \<exists>es st'. pool_run es st = Some st' \<and> only_openers es \<and> beside_live st' \<and> cp_openers st' 0 = NoTunnel"
proof (induction r arbitrary: st)
  case 0
  from misses_a_round[OF 0] obtain es st1 where 1: "pool_run es st = Some st1" "only_openers es"
    "beside_live st1" "cp_openers st1 0 = Trying 0 0" by blast
  let ?st2 = "set_opener 0 NoTunnel (set_opener 0 (Napping 0) st1)"
  have 2: "pool_run [OpenerStep 0 RoundOver, OpenerStep 0 NapOver] st1 = Some ?st2"
    using 1(4) by (simp add: set_opener_def)
  have "beside_live ?st2" by (intro beside_live_set 1(3))
  moreover have "cp_openers ?st2 0 = NoTunnel" by (simp add: set_opener_def)
  ultimately show ?case using pool_run_append[OF 1(1) 2] 1(2)
    by (intro exI[of _ "es @ [OpenerStep 0 RoundOver, OpenerStep 0 NapOver]"] exI[of _ ?st2])
       (auto simp: only_openers_def)
next
  case (Suc r)
  from misses_a_round[OF Suc.prems] obtain es st1 where 1: "pool_run es st = Some st1" "only_openers es"
    "beside_live st1" "cp_openers st1 0 = Trying (Suc r) 0" by blast
  let ?st2 = "set_opener 0 (Trying r 2) (set_opener 0 (Napping (Suc r)) st1)"
  have 2: "pool_run [OpenerStep 0 RoundOver, OpenerStep 0 NapOver] st1 = Some ?st2"
    using 1(3,4) by (simp add: set_opener_def beside_live_def cp_size_def pool_size_def numeral_2_eq_2)
  have "beside_live ?st2" by (intro beside_live_set 1(3))
  moreover have "cp_openers ?st2 0 = Trying r 2" by (simp add: set_opener_def)
  ultimately obtain fs st3 where 3: "pool_run fs ?st2 = Some st3" "only_openers fs" "beside_live st3"
    "cp_openers st3 0 = NoTunnel" using Suc.IH by blast
  from pool_run_append[OF pool_run_append[OF 1(1) 2] 3(1)] 1(2) 3 show ?case
    by (intro exI[of _ "(es @ [OpenerStep 0 RoundOver, OpenerStep 0 NapOver]) @ fs"] exI[of _ st3])
       (auto simp: only_openers_def)
qed

text \<open>
  The counter is shared, so the guarantee of a live slot is one opener's alone: there is an execution
  in which slot 1 of two is live all the time and yet opener 0 gives up after its twenty rounds.
\<close>

theorem opener_may_starve:
  "\<exists>es st. pool_run (SupStep 1 DialOk # es) (sample_pool 2) = Some st \<and> only_openers es \<and>
     slots (cp_pool st) ! 1 = Some 0 \<and> cp_openers st 0 = NoTunnel"
proof -
  let ?p = "sample_pool 2"
  obtain st1 where 1: "pool_run [SupStep 1 DialOk, OpenerStep 0 OpenStart] ?p = Some st1"
      "slots (cp_pool st1) = [None, Some 0]" "next_slot (cp_pool st1) = 0" "cp_openers st1 = (\<lambda>a. Idle)(0 := Trying 19 2)"
    by (simp add: sample_pool_def idle_pool_def client_pool_new_def build_pool_def Let_def pool_simps OPEN_GRACE_ATTEMPTS_def
        upt_rec numeral_2_eq_2)
  have "beside_live st1" using 1 by (auto simp: beside_live_def intro!: exI[of _ 1])
  from misses_all_rounds[OF this, of 19] 1(4) obtain es st where es: "pool_run es st1 = Some st" "only_openers es"
    "beside_live st" "cp_openers st 0 = NoTunnel" by auto
  from pool_run_append[OF 1(1) es(1)] es(2-4) show ?thesis
    by (intro exI[of _ "OpenerStep 0 OpenStart # es"] exI[of _ st]) (auto simp: only_openers_def beside_live_def)
qed

end
