(* ===== verification/Pool_Supervision.thy ===== *)
theory Pool_Supervision
  imports Client_Pool
begin

text \<open>
  The supervisors of the pool against their loop: the step model of \<open>Client_Pool\<close>, in which dials,
  tunnels and pauses of many supervisors interleave with the drivers and the openers, refines the
  function \<open>supervise\<close> of \<open>Client_Tunnel\<close>, which is the loop of the code turn by turn.
\<close>

section \<open>A supervisor runs its loop\<close>

text \<open>
  What an execution shows of the supervisor of slot \<open>i\<close>: whether its dials succeeded, and what its
  steps write to its slot. \<open>supervise\<close>, the loop of the code on its own, has in addition the jitter of
  every pause, which no step depends on.
\<close>

definition sup_steps_of :: "nat \<Rightarrow> pool_event list \<Rightarrow> sup_step list" where
  "sup_steps_of i es = List.map_filter (\<lambda>e. case e of SupStep j d \<Rightarrow> if j = i then Some d else None | _ \<Rightarrow> None) es"

definition dials_of :: "sup_step list \<Rightarrow> bool list" where
  "dials_of ds = List.map_filter (\<lambda>d. case d of DialOk \<Rightarrow> Some True | DialFailed \<Rightarrow> Some False | _ \<Rightarrow> None) ds"

definition slot_writes :: "sup_step list \<Rightarrow> sup_event list" where
  "slot_writes ds = List.map_filter (\<lambda>d. case d of DialOk \<Rightarrow> Some SlotUp | TunnelEnded \<Rightarrow> Some SlotDown | _ \<Rightarrow> None) ds"

definition loop_writes :: "(bool \<times> byte \<times> byte) list \<Rightarrow> sup_event list" where
  "loop_writes turns = filter (\<lambda>e. \<forall>b. e \<noteq> Backoff b) (fst (supervise BACKOFF_INITIAL turns))"

text \<open>
  Where the loop is after \<open>turns\<close> full turns: about to dial, in a tunnel of the next turn, or
  asleep at its end.
\<close>

definition follows_loop :: "sup_step list \<Rightarrow> sup_phase \<Rightarrow> bool" where
  "follows_loop ds s \<longleftrightarrow> (\<forall>turns. map fst turns = dials_of ds \<longrightarrow>
     (case s of
        Dialling b \<Rightarrow> b = snd (supervise BACKOFF_INITIAL turns) \<and> slot_writes ds = loop_writes turns
      | Running g \<Rightarrow> turns \<noteq> [] \<and> fst (last turns) \<and> slot_writes ds = loop_writes (butlast turns) @ [SlotUp]
      | Pausing b \<Rightarrow> turns \<noteq> [] \<and> slot_writes ds = loop_writes turns \<and>
          b = (if fst (last turns) then BACKOFF_INITIAL else snd (supervise BACKOFF_INITIAL (butlast turns)))))"

lemma sup_steps_of_simps [simp]:
  "sup_steps_of i (es @ [SupStep i d]) = sup_steps_of i es @ [d]"
  "\<forall>d. e \<noteq> SupStep i d \<Longrightarrow> sup_steps_of i (es @ [e]) = sup_steps_of i es"
  by (auto simp: sup_steps_of_def map_filter_def split: pool_event.splits)

lemma supervise_snoc:
  "supervise b (turns @ [turn]) =
     (fst (supervise b turns) @ fst (supervise_turn (snd (supervise b turns)) turn),
      snd (supervise_turn (snd (supervise b turns)) turn))"
  by (simp add: supervise_append split: prod.splits)

lemma loop_writes_snoc:
  "loop_writes (turns @ [turn]) = loop_writes turns @ (if fst turn then [SlotUp, SlotDown] else [])"
  by (cases turn) (auto simp: loop_writes_def supervise_snoc supervise_turn_def Let_def)

lemma supervise_snoc_backoff:
  "snd (supervise BACKOFF_INITIAL (turns @ [turn])) =
     min ((if fst turn then BACKOFF_INITIAL else snd (supervise BACKOFF_INITIAL turns)) * 2) BACKOFF_MAX"
  by (cases turn) (simp add: supervise_snoc supervise_turn_def Let_def)

lemma map_fst_snoc: "map fst turns = xs @ [x] \<longleftrightarrow> (\<exists>us j. turns = us @ [(x, j)] \<and> map fst us = xs)"
  by (cases turns rule: rev_cases) auto

lemma follows_loop_steps:
  "follows_loop ds (Dialling b) \<Longrightarrow> follows_loop (ds @ [DialOk]) (Running g)"
  "follows_loop ds (Dialling b) \<Longrightarrow> follows_loop (ds @ [DialFailed]) (Pausing b)"
  "follows_loop ds (Running g) \<Longrightarrow> follows_loop (ds @ [TunnelEnded]) (Pausing BACKOFF_INITIAL)"
  "follows_loop ds (Pausing b) \<Longrightarrow> follows_loop (ds @ [PauseOver]) (Dialling (min (b * 2) BACKOFF_MAX))"
proof -
  have last: "turns = butlast turns @ [last turns]" if "turns \<noteq> []" for turns :: "(bool \<times> byte \<times> byte) list"
    using that by simp
  note simps = follows_loop_def dials_of_def slot_writes_def map_filter_def map_fst_snoc
  show "follows_loop ds (Dialling b) \<Longrightarrow> follows_loop (ds @ [DialOk]) (Running g)"
    "follows_loop ds (Dialling b) \<Longrightarrow> follows_loop (ds @ [DialFailed]) (Pausing b)"
    by (auto simp: simps loop_writes_snoc)
  show "follows_loop (ds @ [TunnelEnded]) (Pausing BACKOFF_INITIAL)" if run: "follows_loop ds (Running g)"
    unfolding follows_loop_def
  proof (intro allI impI, unfold sup_phase.case, intro conjI)
    fix turns :: "(bool \<times> byte \<times> byte) list"
    assume "map fst turns = dials_of (ds @ [TunnelEnded])"
    then have "map fst turns = dials_of ds" by (simp add: dials_of_def map_filter_def)
    with run have r: "turns \<noteq> []" "fst (last turns)" "slot_writes ds = loop_writes (butlast turns) @ [SlotUp]"
      by (simp_all add: follows_loop_def)
    then show "turns \<noteq> []" by simp
    have "loop_writes turns = slot_writes ds @ [SlotDown]"
      using r loop_writes_snoc[of "butlast turns" "last turns"] last[OF r(1)] by simp
    then show "slot_writes (ds @ [TunnelEnded]) = loop_writes turns" by (simp add: slot_writes_def map_filter_def)
    show "BACKOFF_INITIAL = (if fst (last turns) then BACKOFF_INITIAL else snd (supervise BACKOFF_INITIAL (butlast turns)))"
      using r by simp
  qed
  show "follows_loop (ds @ [PauseOver]) (Dialling (min (b * 2) BACKOFF_MAX))" if run: "follows_loop ds (Pausing b)"
    unfolding follows_loop_def
  proof (intro allI impI, unfold sup_phase.case, intro conjI)
    fix turns :: "(bool \<times> byte \<times> byte) list"
    assume "map fst turns = dials_of (ds @ [PauseOver])"
    then have "map fst turns = dials_of ds" by (simp add: dials_of_def map_filter_def)
    with run have r: "turns \<noteq> []" "slot_writes ds = loop_writes turns"
      "b = (if fst (last turns) then BACKOFF_INITIAL else snd (supervise BACKOFF_INITIAL (butlast turns)))"
      by (simp_all add: follows_loop_def)
    then show "slot_writes (ds @ [PauseOver]) = loop_writes turns" by (simp add: slot_writes_def map_filter_def)
    show "min (b * 2) BACKOFF_MAX = snd (supervise BACKOFF_INITIAL turns)"
      using supervise_snoc_backoff[of "butlast turns" "last turns"] last[OF r(1)] r(3) by simp
  qed
qed

lemma follows_loop_start: "follows_loop [] (Dialling BACKOFF_INITIAL)"
  by (simp add: follows_loop_def dials_of_def slot_writes_def loop_writes_def map_filter_simps)

lemma step_supervisor_follows:
  assumes "step_supervisor i e (cp_sups st ! i) st = Some st'" "i < length (cp_sups st)"
    and "follows_loop ds (cp_sups st ! i)"
  shows "follows_loop (ds @ [e]) (cp_sups st' ! i)"
  using assms
  by (cases e; cases "cp_sups st ! i")
     (auto simp: pool_simps Let_def intro: follows_loop_steps split: if_splits)

lemma step_other_supervisors:
  assumes "pool_step e st = Some st'" "\<forall>d. e \<noteq> SupStep i d"
  shows "cp_sups st' ! i = cp_sups st ! i"
  using assms(1)
proof (cases rule: pool_step_cases)
  case (sup j d)
  with assms(2) have "j \<noteq> i" by blast
  with sup(3) show ?thesis by (cases rule: step_supervisor_cases) (simp_all add: pool_simps)
next
  case (opener b d)
  from opener(2) show ?thesis by (cases rule: step_opener_cases) (simp_all add: pool_simps draw_def)
qed (simp add: pool_simps)

lemma step_follows:
  assumes "pool_step e st = Some st'" "i < length (cp_sups st)" "follows_loop (sup_steps_of i es) (cp_sups st ! i)"
  shows "follows_loop (sup_steps_of i (es @ [e])) (cp_sups st' ! i)"
proof (cases "\<exists>d. e = SupStep i d")
  case True
  then obtain d where d: "e = SupStep i d" by blast
  with assms(1) have "step_supervisor i d (cp_sups st ! i) st = Some st'" by (auto split: if_splits)
  from step_supervisor_follows[OF this assms(2,3)] show ?thesis by (simp add: d)
next
  case False
  with step_other_supervisors[OF assms(1), of i] assms(3) show ?thesis by simp
qed

lemma run_follows:
  assumes "pool_run fs st = Some st'" "i < length (cp_sups st)" "follows_loop (sup_steps_of i es) (cp_sups st ! i)"
  shows "follows_loop (sup_steps_of i (es @ fs)) (cp_sups st' ! i)"
  using assms
proof (induction fs arbitrary: es st)
  case (Cons f fs)
  then obtain st1 where s: "pool_step f st = Some st1" "pool_run fs st1 = Some st'"
    by (auto split: option.splits)
  from Cons.IH[OF s(2) _ step_follows[OF s(1) Cons.prems(2,3)]] step_sizes[OF s(1)] Cons.prems(2)
  show ?case by simp
qed simp

text \<open>What an execution does to slot \<open>i\<close>, seen in the slot itself: it is filled anew, or cleared.\<close>

definition slot_change :: "nat \<Rightarrow> client_pool \<Rightarrow> client_pool \<Rightarrow> sup_event list" where
  "slot_change i st st' =
     (let before = slots (cp_pool st) ! i; now = slots (cp_pool st') ! i in
      if now = before then [] else case now of Some g \<Rightarrow> [SlotUp] | None \<Rightarrow> [SlotDown])"

fun slot_history :: "nat \<Rightarrow> pool_event list \<Rightarrow> client_pool \<Rightarrow> sup_event list" where
  "slot_history i [] st = []"
| "slot_history i (e # es) st =
     (case pool_step e st of None \<Rightarrow> [] | Some st' \<Rightarrow> slot_change i st st' @ slot_history i es st')"

lemma sup_slot_change:
  assumes "sups_inv st" "step_supervisor j d (cp_sups st ! j) st = Some st'" "j < length (cp_sups st)" "i < length (cp_sups st)"
  shows "slot_change i st st' = (if j = i then slot_writes [d] else [])"
proof -
  have slots: "slots (cp_pool st) = map slot_of (cp_sups st)" using assms(1) by (simp add: sups_inv_def)
  from assms(2-4) show ?thesis
    by (cases d; cases "cp_sups st ! j")
       (auto simp: slot_change_def slot_writes_def map_filter_simps slots pool_simps slot_of_def Let_def split: if_splits)
qed

lemma step_slot_change:
  assumes "sups_inv st" "pool_step e st = Some st'" "i < length (cp_sups st)"
  shows "slot_change i st st' = slot_writes (sup_steps_of i [e])"
  using assms(2)
proof (cases rule: pool_step_cases)
  case (sup j d)
  with sup_slot_change[OF assms(1) sup(3,2) assms(3)] show ?thesis
    by (simp add: sup_steps_of_def map_filter_simps slot_writes_def)
next
  case (wake g os "is")
  then show ?thesis by (simp add: slot_change_def sup_steps_of_def map_filter_simps slot_writes_def pool_simps)
next
  case (opener a d)
  from opener(2) have "slots (cp_pool st') = slots (cp_pool st)"
    by (cases rule: step_opener_cases) (simp_all add: pool_simps draw_def)
  with opener(1) show ?thesis by (simp add: slot_change_def sup_steps_of_def map_filter_simps slot_writes_def)
qed

lemma slot_history_writes:
  "pool_inv st \<Longrightarrow> pool_run es st = Some st' \<Longrightarrow> i < length (cp_sups st) \<Longrightarrow>
     slot_history i es st = slot_writes (sup_steps_of i es)"
proof (induction es arbitrary: st)
  case Nil
  then show ?case by (simp add: sup_steps_of_def slot_writes_def map_filter_simps)
next
  case (Cons e es)
  then obtain st1 where s: "pool_step e st = Some st1" "pool_run es st1 = Some st'" by (auto split: option.splits)
  have "sups_inv st" using Cons.prems(1) by (simp add: pool_inv_def)
  from step_slot_change[OF this s(1) Cons.prems(3)] Cons.IH[OF pool_step_inv[OF Cons.prems(1) s(1)] s(2)]
    Cons.prems(3) step_sizes[OF s(1)]
  have "slot_history i (e # es) st = slot_writes (sup_steps_of i [e]) @ slot_writes (sup_steps_of i es)"
    by (simp add: s(1))
  also have "\<dots> = slot_writes (sup_steps_of i (e # es))"
    by (simp add: sup_steps_of_def slot_writes_def map_filter_def)
  finally show ?case .
qed

section \<open>Property\<close>

text \<open>
  C30: Each supervisor of the pool runs the loop \<open>supervise\<close>, however the other tasks interleave with
  it: after turns with the dial results of an execution, in whatever phase that leaves it, its slot
  has been filled and cleared exactly as the loop does it, which the changes of the slot itself
  show; it holds a tunnel while one runs and nothing otherwise; and the supervisor dials or sleeps
  with the back-off that the loop has then.
\<close>

theorem supervisor_runs_its_loop:
  assumes "pool_run es (idle_pool addr params n) = Some st" "i < cp_size st"
    and "map fst turns = dials_of (sup_steps_of i es)"
  shows "case cp_sups st ! i of
     Dialling b \<Rightarrow> b = snd (supervise BACKOFF_INITIAL turns) \<and> slot_history i es (idle_pool addr params n) = loop_writes turns \<and>
       slots (cp_pool st) ! i = None
   | Running g \<Rightarrow> turns \<noteq> [] \<and> fst (last turns) \<and>
       slot_history i es (idle_pool addr params n) = loop_writes (butlast turns) @ [SlotUp] \<and>
       slots (cp_pool st) ! i = Some g
   | Pausing b \<Rightarrow> turns \<noteq> [] \<and> slot_history i es (idle_pool addr params n) = loop_writes turns \<and> slots (cp_pool st) ! i = None \<and>
       b = (if fst (last turns) then BACKOFF_INITIAL else snd (supervise BACKOFF_INITIAL (butlast turns)))"
proof -
  have start: "length (cp_sups (idle_pool addr params n)) = max n 1"
    "i < max n 1 \<Longrightarrow> cp_sups (idle_pool addr params n) ! i = Dialling BACKOFF_INITIAL"
    by (simp_all add: idle_pool_def client_pool_new_def build_pool_def Let_def)
  moreover have i: "i < max n 1" using assms(2) run_size[OF assms(1)] by simp
  moreover have "sup_steps_of i [] = []" by (simp add: sup_steps_of_def map_filter_simps)
  ultimately have "follows_loop (sup_steps_of i es) (cp_sups st ! i)"
    using run_follows[OF assms(1), of i "[]"] follows_loop_start by simp
  moreover have inv: "pool_inv (idle_pool addr params n)" by (simp add: idle_pool_def pool_inv_new)
  have "slot_history i es (idle_pool addr params n) = slot_writes (sup_steps_of i es)"
    by (rule slot_history_writes[OF inv assms(1)]) (use start i in simp)
  moreover have "slots (cp_pool st) ! i = slot_of (cp_sups st ! i)"
    using pool_run_inv[OF inv assms(1)] assms(2) sups_inv_length[of st] by (simp add: pool_inv_def sups_inv_def)
  ultimately show ?thesis using assms(3)
    by (simp add: follows_loop_def slot_of_def split: sup_phase.splits)
qed

text \<open>Two dials fail, the third succeeds, and the tunnel drops: it sleeps 250 ms again.\<close>

definition sample_reconnect :: "pool_event list" where
  "sample_reconnect =
     [SupStep 0 DialFailed, SupStep 0 PauseOver, SupStep 0 DialFailed, SupStep 0 PauseOver, SupStep 0 DialOk,
      DriverWakes 0 [] [InClosed], SupStep 0 TunnelEnded]"

theorem supervisor_runs_its_loop_witness:
  "\<exists>st. pool_run sample_reconnect (sample_pool 1) = Some st \<and> cp_sups st ! 0 = Pausing 250 \<and>
     slot_history 0 sample_reconnect (sample_pool 1) = loop_writes [(False, 0, 0), (False, 1, 2), (True, 3, 4)]"
proof -
  define d where "d = \<lparr>out_script = [], in_script = [InClosed], open_queue = [],
      senders_gone = False, open_rx = True, pending_open = None, replies = [], inbound_rx = False, delivered = [], dropped = []\<rparr>"
  have poll: "driver_poll d = (DriverDone, d\<lparr>in_script := []\<rparr>)"
    by (simp add: d_def driver_poll.simps driver_turn_def turn_outbound_def turn_inbound_def)
  obtain st where st: "pool_run sample_reconnect (sample_pool 1) = Some st" "cp_sups st ! 0 = Pausing 250" "cp_size st = 1"
    using poll
    by (simp add: sample_reconnect_def sample_pool_def idle_pool_def client_pool_new_def build_pool_def Let_def pool_simps
        tunnel_runs_def mux_client_def driver_new_def d_def BACKOFF_INITIAL_def)
  have "map fst [(False, 0, 0), (False, 1, 2), (True, 3 :: byte, 4 :: byte)] = dials_of (sup_steps_of 0 sample_reconnect)"
    by (simp add: sample_reconnect_def sup_steps_of_def dials_of_def map_filter_simps)
  from supervisor_runs_its_loop[OF st(1)[unfolded sample_pool_def] _ this] st show ?thesis
    by (simp add: sample_pool_def)
qed

end
