(* ===== verification/Platform_Tools.thy ===== *)
theory Platform_Tools
  imports Daemon_Control
begin

text \<open>
  The parts of \<open>hyperion-vpn-cli-common/src/lib.rs\<close> that differ by platform and are not Linux: the
  directories on Windows, detaching a process, and asking for and killing a process through the
  tools \<open>tasklist\<close> and \<open>taskkill\<close> on Windows, \<open>kill\<close> and \<open>ps\<close> on other Unix systems; and the signal
  that ends the daemon. What a tool prints or exits with is a parameter, \<open>None\<close> when it cannot be
  run. A locale states what the three platforms' process questions promise.
\<close>

section \<open>Directories on Windows\<close>

text \<open>\<open>PathBuf::join\<close> on Windows with a relative path; a bare drive takes no separator.\<close>

definition path_join_windows :: "string \<Rightarrow> string \<Rightarrow> string" where
  "path_join_windows p q =
     (if p = [] \<or> last p = CHR ''/'' \<or> last p = CHR 0x5C \<or> (length p = 2 \<and> p ! 1 = CHR '':'') then p @ q
      else p @ [CHR 0x5C] @ q)"

definition config_dir_windows :: "host \<Rightarrow> string" where
  "config_dir_windows h =
     (case env_vars h ''HYPERION_HOME'' of
        Some dir \<Rightarrow> dir
      | None \<Rightarrow>
          (case env_vars h ''APPDATA'' of
             Some appdata \<Rightarrow> path_join_windows appdata ''hyperion''
           | None \<Rightarrow>
               (case env_vars h ''USERPROFILE'' of
                  Some profile \<Rightarrow>
                    path_join_windows (path_join_windows (path_join_windows profile ''AppData'') ''Roaming'') ''hyperion''
                | None \<Rightarrow> ''hyperion'')))"

definition home_dir_windows :: "host \<Rightarrow> string option" where
  "home_dir_windows h = env_vars h ''USERPROFILE''"

section \<open>Detaching\<close>

datatype detached = CreationFlags u32 | ProcessGroup int

definition detach_windows :: detached where
  "detach_windows = CreationFlags (or (or 0x00000008 0x00000200) 0x08000000)"

definition detach_unix :: detached where
  "detach_unix = ProcessGroup 0"

section \<open>Windows\<close>

text \<open>What \<open>tasklist /NH /FI "PID eq <pid>"\<close> prints.\<close>

type_synonym tool_output = "u32 \<Rightarrow> string option"

definition is_alive_windows :: "tool_output \<Rightarrow> u32 \<Rightarrow> bool" where
  "is_alive_windows tasklist pid =
     (case tasklist pid of
        Some listing \<Rightarrow> contains listing (nat_to_dec (unat pid))
      | None \<Rightarrow> True)"

definition lower :: "char \<Rightarrow> char" where
  "lower c = (let n = (of_char c :: nat) in if 65 \<le> n \<and> n \<le> 90 then char_of (n + 32) else c)"

definition to_ascii_lowercase :: "string \<Rightarrow> string" where
  "to_ascii_lowercase s = map lower s"

definition process_name_matches_windows :: "tool_output \<Rightarrow> u32 \<Rightarrow> string \<Rightarrow> bool" where
  "process_name_matches_windows tasklist pid needle =
     (case tasklist pid of
        Some listing \<Rightarrow> contains (to_ascii_lowercase listing) (to_ascii_lowercase needle)
      | None \<Rightarrow> True)"

text \<open>The exits of a tool that is run for its status.\<close>

type_synonym tool_status = "u32 \<Rightarrow> bool option"

definition kill_windows :: "tool_status \<Rightarrow> u32 \<Rightarrow> unit any" where
  "kill_windows taskkill pid =
     (case taskkill pid of
        None \<Rightarrow> Inl ''running taskkill''
      | Some success \<Rightarrow> if success then Inr () else Inl (''taskkill failed for pid '' @ nat_to_dec (unat pid)))"

section \<open>Other Unix systems\<close>

definition is_alive_other_unix :: "tool_status \<Rightarrow> u32 \<Rightarrow> bool" where
  "is_alive_other_unix kill0 pid = (case kill0 pid of Some success \<Rightarrow> success | None \<Rightarrow> True)"

definition process_name_matches_other_unix :: "tool_output \<Rightarrow> u32 \<Rightarrow> string \<Rightarrow> bool" where
  "process_name_matches_other_unix ps pid needle =
     (case ps pid of Some comm \<Rightarrow> contains comm needle | None \<Rightarrow> True)"

section \<open>The end of the daemon\<close>

datatype os_signal = CtrlC | Terminate | OtherSignal

text \<open>What \<open>shutdown_signal\<close> waits for, and what \<open>down\<close> sends on each family of systems.\<close>

definition shutdown_signal :: "bool \<Rightarrow> os_signal \<Rightarrow> bool" where
  "shutdown_signal unix sig \<longleftrightarrow> sig = CtrlC \<or> (unix \<and> sig = Terminate)"

definition kill_args :: "u32 \<Rightarrow> string list" where
  "kill_args pid = [''-TERM'', nat_to_dec (unat pid)]"

section \<open>What the questions promise\<close>

lemma contains_iff: "contains s needle \<longleftrightarrow> (\<exists>u v. s = u @ needle @ v)"
proof (induction s needle rule: contains.induct)
  case (1 needle)
  then show ?case by auto
next
  case (2 c cs needle)
  show ?case
  proof
    assume "contains (c # cs) needle"
    then consider "take (length needle) (c # cs) = needle" | "contains cs needle" by auto
    then show "\<exists>u v. c # cs = u @ needle @ v"
    proof cases
      case 1
      then have "c # cs = [] @ needle @ drop (length needle) (c # cs)" by (metis append_Nil append_take_drop_id)
      then show ?thesis by blast
    next
      case 2
      with "2.IH" obtain u v where "cs = u @ needle @ v" by blast
      then have "c # cs = (c # u) @ needle @ v" by simp
      then show ?thesis by blast
    qed
  next
    assume "\<exists>u v. c # cs = u @ needle @ v"
    then obtain u v where uv: "c # cs = u @ needle @ v" by blast
    show "contains (c # cs) needle"
    proof (cases u)
      case Nil
      with uv have "take (length needle) (c # cs) = needle" by simp
      then show ?thesis by simp
    next
      case (Cons a u')
      with uv have "cs = u' @ needle @ v" by simp
      with "2.IH" show ?thesis by auto
    qed
  qed
qed

lemma contains_append: "contains s needle \<Longrightarrow> contains (s @ t) needle" "contains t needle \<Longrightarrow> contains (s @ t) needle"
  unfolding contains_iff by (metis append.assoc)+

lemma contains_map: "contains s needle \<Longrightarrow> contains (map f s) (map f needle)"
  unfolding contains_iff by (metis map_append)

text \<open>
  The live processes and their names, as the operating system has them. A dead process is never
  taken for alive and a live one is never missed, and a process that has the program's name, when
  the name can be read, is recognised.
\<close>

locale process_queries =
  fixes alive :: "u32 \<Rightarrow> bool" and name_matches :: "u32 \<Rightarrow> string \<Rightarrow> bool" and table :: "u32 \<rightharpoonup> string option"
  assumes alive_exact: "alive pid \<longleftrightarrow> table pid \<noteq> None"
    and finds_own: "table pid = Some comm \<Longrightarrow> named needle comm \<Longrightarrow> name_matches pid needle"
begin

text \<open>The test that \<open>running_pid\<close> and \<open>stop_daemon\<close> make of a recorded pid.\<close>

lemma own_daemon_found:
  "table pid = Some comm \<Longrightarrow> named needle comm \<Longrightarrow> alive pid \<and> name_matches pid needle"
  using alive_exact finds_own by simp

lemma dead_daemon_not_found: "table pid = None \<Longrightarrow> \<not> (alive pid \<and> name_matches pid needle)"
  using alive_exact by simp

end

interpretation linux: process_queries "is_alive h" "process_name_matches h" "procs h" for h
  by unfold_locales (auto simp: is_alive_def process_name_matches_def named_def split: option.splits)

text \<open>The tools as documented, for a table of processes.\<close>

definition tasklist_of :: "(u32 \<rightharpoonup> string) \<Rightarrow> tool_output" where
  "tasklist_of table pid =
     Some (case table pid of
             Some exe \<Rightarrow> newline @ exe @ ''  '' @ nat_to_dec (unat pid) @ '' Console    1      9,000 K'' @ newline
           | None \<Rightarrow> ''INFO: No tasks are running which match the specified criteria.'' @ newline)"

definition kill0_of :: "(u32 \<rightharpoonup> string) \<Rightarrow> tool_status" where
  "kill0_of table pid = Some (table pid \<noteq> None)"

definition ps_of :: "(u32 \<rightharpoonup> string) \<Rightarrow> tool_output" where
  "ps_of table pid = Some (case table pid of Some comm \<Rightarrow> comm @ newline | None \<Rightarrow> '''')"

interpretation windows: process_queries "is_alive_windows (tasklist_of table)"
  "process_name_matches_windows (tasklist_of table)" "\<lambda>pid. map_option Some (table pid)" for table
proof
  fix pid :: u32
  have digit: "contains (''  '' @ nat_to_dec (unat pid) @ t) (nat_to_dec (unat pid))" for t
    unfolding contains_iff by blast
  have "\<not> contains (''INFO: No tasks are running which match the specified criteria.'' @ newline) (nat_to_dec (unat pid))"
  proof
    let ?info = "''INFO: No tasks are running which match the specified criteria.'' @ newline"
    assume "contains ?info (nat_to_dec (unat pid))"
    then have sub: "set (nat_to_dec (unat pid)) \<subseteq> set ?info" unfolding contains_iff by (metis Un_iff set_append subsetI)
    have "nat_to_dec (unat pid) \<noteq> []" by (rule nat_to_radix_nonempty)
    then obtain c where c: "c \<in> set (nat_to_dec (unat pid))" by (cases "nat_to_dec (unat pid)") auto
    then have "is_digit 10 c" using nat_to_radix_digits[of 10 "unat pid"] by simp
    moreover from c sub have "c \<in> set ?info" by blast
    ultimately show False by (auto simp: is_digit_def to_digit_def newline_def)
  qed
  then show "is_alive_windows (tasklist_of table) pid \<longleftrightarrow> map_option Some (table pid) \<noteq> None"
    using contains_append(2)[OF digit] contains_append(2)
    by (auto simp: is_alive_windows_def tasklist_of_def split: option.splits)
next
  fix pid :: u32 and comm needle
  assume "map_option Some (table pid) = Some comm" "named needle comm"
  then obtain exe where "table pid = Some exe" "contains exe needle" by (auto simp: named_def)
  then show "process_name_matches_windows (tasklist_of table) pid needle"
    using contains_append contains_map[of _ needle lower]
    by (simp add: process_name_matches_windows_def tasklist_of_def to_ascii_lowercase_def)
qed

interpretation other_unix: process_queries "is_alive_other_unix (kill0_of table)"
  "process_name_matches_other_unix (ps_of table)" "\<lambda>pid. map_option Some (table pid)" for table
  by unfold_locales
     (auto simp: is_alive_other_unix_def kill0_of_def process_name_matches_other_unix_def ps_of_def named_def
       contains_append(1) split: option.splits)

end
