(* ===== verification/Tun_Device.thy ===== *)
theory Tun_Device
  imports Noise_Channel
begin

text \<open>
  \<open>TunIo\<close> of \<open>tunmode.rs\<close>: the TUN device as a byte stream for the IP stack, one packet per read and
  per write. The device's \<open>poll_recv\<close> and \<open>poll_send\<close> are parameters: what they return for a buffer
  of a given size and for given bytes. A read buffer is the bytes filled so far and the room it has
  in all; advancing it past its initialised room panics.
\<close>

record read_buf =
  rb_filled :: bytes
  rb_capacity :: nat

definition rb_remaining :: "read_buf \<Rightarrow> nat" where
  "rb_remaining buf = rb_capacity buf - length (rb_filled buf)"

text \<open>\<open>advance\<close> after \<open>initialize_unfilled\<close>: the whole buffer is initialised, the device wrote \<open>bs\<close>.\<close>

definition rb_advance :: "read_buf \<Rightarrow> bytes \<Rightarrow> read_buf rust" where
  "rb_advance buf bs =
     (if length bs \<le> rb_remaining buf then Returns (buf\<lparr>rb_filled := rb_filled buf @ bs\<rparr>) else Panic)"

definition tun_poll_read :: "(nat \<Rightarrow> bytes poll) \<Rightarrow> read_buf \<Rightarrow> (unit poll \<times> read_buf) rust" where
  "tun_poll_read poll_recv buf =
     (let unfilled = rb_remaining buf in
      case poll_recv unfilled of
        Ready (Inr bs) \<Rightarrow> rbind (rb_advance buf bs) (\<lambda>buf1. Returns (Ready (Inr ()), buf1))
      | Ready (Inl e) \<Rightarrow> Returns (Ready (Inl e), buf)
      | Pending \<Rightarrow> Returns (Pending, buf))"

definition tun_poll_write :: "(bytes \<Rightarrow> nat poll) \<Rightarrow> bytes \<Rightarrow> nat poll" where
  "tun_poll_write poll_send buf = poll_send buf"

definition tun_poll_flush :: "unit poll" where
  "tun_poll_flush = Ready (Inr ())"

definition tun_poll_shutdown :: "unit poll" where
  "tun_poll_shutdown = Ready (Inr ())"

text \<open>A device that receives one packet at a time, cut to the buffer it is given.\<close>

definition device_recv :: "(io_error + bytes) option \<Rightarrow> nat \<Rightarrow> bytes poll" where
  "device_recv packet room =
     (case packet of None \<Rightarrow> Pending | Some (Inl e) \<Rightarrow> Ready (Inl e) | Some (Inr bs) \<Rightarrow> Ready (Inr (take room bs)))"

text \<open>
  Reading the device never panics and never touches what the buffer holds: a packet that fits is
  appended whole, and without one the buffer is as before.
\<close>

lemma tun_read_packet:
  assumes "\<And>room bs. poll_recv room = Ready (Inr bs) \<Longrightarrow> length bs \<le> room"
  shows "\<exists>bs. (tun_poll_read poll_recv buf =
      Returns (case poll_recv (rb_remaining buf) of Ready (Inr _) \<Rightarrow> Ready (Inr ()) | Ready (Inl e) \<Rightarrow> Ready (Inl e) | Pending \<Rightarrow> Pending,
               buf\<lparr>rb_filled := rb_filled buf @ bs\<rparr>)) \<and>
    (poll_recv (rb_remaining buf) = Ready (Inr bs) \<or> (bs = [] \<and> (\<forall>x. poll_recv (rb_remaining buf) \<noteq> Ready (Inr x))))"
proof (cases "poll_recv (rb_remaining buf)")
  case Pending
  then show ?thesis by (intro exI[of _ "[]"]) (simp add: tun_poll_read_def)
next
  case (Ready r)
  show ?thesis
  proof (cases r)
    case (Inl e)
    with Ready show ?thesis by (intro exI[of _ "[]"]) (simp add: tun_poll_read_def)
  next
    case (Inr bs)
    with Ready assms[of "rb_remaining buf" bs] show ?thesis
      by (intro exI[of _ bs]) (simp add: tun_poll_read_def rb_advance_def)
  qed
qed

lemma device_recv_fits: "device_recv packet room = Ready (Inr bs) \<Longrightarrow> length bs \<le> room"
  by (auto simp: device_recv_def split: option.splits sum.splits)

end
