(* ===== verification/Spec2Isabelle.thy ===== *)
theory Spec2Isabelle
  imports Client_Main Server_Main Sniffer_Run Pool_Supervision Platform_Tools Tun_Device
begin

text \<open>
  A verification development for hyperion-vpn: a VPN for administrators in which a client reaches
  the loopback services of its servers through one encrypted, multiplexed TCP connection per
  tunnel, and a server shows an open port only to clients that have knocked with an authenticated
  UDP packet. Paths below are relative to \<open>src/crates/hyperion-vpn-\<close>.

  The program. A client command loads the configuration (\<open>client/src/config.rs\<close>),
  builds a pool of tunnels per server (\<open>core/src/client.rs\<close>), each of which sends a
  knock (\<open>core/src/knock.rs\<close>), connects, runs a Noise handshake
  (\<open>core/src/noise.rs\<close>) and drives a multiplexer (\<open>core/src/mux.rs\<close>);
  local connections come from listeners or from a TUN device (\<open>client/src/main.rs\<close>,
  \<open>tunmode.rs\<close>) and name a remote port in a stream header
  (\<open>core/src/protocol.rs\<close>). The server (\<open>server/src/serve.rs\<close>) sniffs
  packets (\<open>core/src/packet.rs\<close>, \<open>server/src/sniffer.rs\<close>), opens the
  firewall for the source of a valid knock (\<open>server/src/firewall.rs\<close>), answers
  handshakes and relays streams to permitted loopback ports (\<open>core/src/server.rs\<close>).
  Both programs start and stop themselves as daemons (\<open>cli-common/src/lib.rs\<close>,
  \<open>daemon.rs\<close>).

  Theories, in dependency order.
  \<^item> \<open>Prelude\<close>: lemma collections, big-endian numbers, 64-bit saturating arithmetic, panics as the
    type \<open>rust\<close>, tables of recent entries and the locale of a replay filter.
  \<^item> \<open>Stream_IO\<close> (\<open>core/src/error.rs\<close>): the error type; byte streams that may end, fail or stall;
    the locales of message formats. \<open>Wire_Protocol\<close> (\<open>protocol.rs\<close>) interprets them.
  \<^item> \<open>Rust_Strings\<close>, \<open>Net_Addr\<close>: the standard library's parsing and printing that the source uses.
    \<open>Packet_Parser\<close> (\<open>packet.rs\<close>): slices that may panic, and the exact set of accepted frames.
  \<^item> \<open>Key_Material\<close> (\<open>keys.rs\<close>, \<open>psk.rs\<close>): keys over the cryptographic crates as parameters,
    and their overwriting on drop.
    \<open>Knock_Auth\<close> (\<open>knock.rs\<close>): sealing, opening, the replay guard.
  \<^item> \<open>Noise_Channel\<close> (\<open>noise.rs\<close>): both handshakes, and the polls of the encrypted stream over
    scripted transports, refined to the byte sequence they carry.
  \<^item> \<open>Mux_Driver\<close> (\<open>mux.rs\<close>): the driver task as a state machine over wake-ups and requests, and the
    locale of what openers rely on.
  \<^item> \<open>Server_Relay\<close> (\<open>server.rs\<close>), \<open>Client_Tunnel\<close> (\<open>client.rs\<close>): the two ends of a tunnel.
    \<open>Client_Pool\<close>: the client's supervisors, drivers and openers at work on one pool, interleaved.
    \<open>Pool_Supervision\<close>: those supervisors refine the loop of \<open>Client_Tunnel\<close>.
    \<open>Knock_Sniffer\<close> (\<open>firewall.rs\<close>, \<open>sniffer.rs\<close>): the filter program and one turn of the sniffing
    loop. \<open>Sniffer_Run\<close>: the socket, the attached filter and the whole loop over a wire of frames.
  \<^item> \<open>Cli_Common\<close> (\<open>cli-common\<close>): the machine as the record \<open>host\<close> (files, modes, processes,
    environment, what was done and printed); secrets, pid files, daemons. \<open>Daemon_Control\<close>: the
    abstract state machine of a daemon, its invariant, and the locale of programs that refine it.
    \<open>Platform_Tools\<close>: the variants of \<open>cli-common\<close> for Windows and for Unix systems without
    \<open>/proc\<close>, and the locale of what the three platforms' process questions promise.
    \<open>Cli_Args\<close>: command lines as declared to clap.
  \<^item> \<open>Client_Config\<close>, \<open>Client_Admin\<close> (\<open>client/src/config.rs\<close>), \<open>Server_Config\<close>
    (\<open>server/src/config.rs\<close>), \<open>Paired_Setup\<close>: the configuration files, fake IPs, and the setup of
    the README on two machines.
  \<^item> \<open>Route_Script\<close> (\<open>routes.rs\<close>), \<open>Client_Commands\<close> (\<open>client/src/main.rs\<close>, \<open>daemon.rs\<close>,
    \<open>tunmode.rs\<close>), \<open>Server_Commands\<close> (\<open>server/src/main.rs\<close>, \<open>daemon.rs\<close>, \<open>serve.rs\<close>): the operations
    of each command. \<open>Client_Main\<close>, \<open>Server_Main\<close> (both \<open>main.rs\<close>): the declared command line, the
    dispatch to those operations, and sessions of any commands one after another.
    \<open>Tun_Device\<close> (\<open>TunIo\<close> of \<open>tunmode.rs\<close>): the TUN device as a byte stream.
  \<^item> This theory: what holds across components.

  What is shown. A knock is accepted exactly when it was sealed with the shared key for this
  server, is within the window and is not in the replay cache; over a whole run of the sniffer the
  firewall opens only for such knocks' own sources, a captured knock opens it at most once (and
  once more after a restart), and the kernel filter spares work but decides nothing. The handshake completes for matching keys and
  for admins of the allow-list only; what is written into the stream is what is read, and
  tampering ends it. The server dials nothing but permitted loopback ports, and client and server
  agree about every stream. Open requests are served first come, first served, and a wake-up
  leaves no work behind; in every interleaving of a pool's tasks openers get streams of their own
  and end in time, and every supervisor keeps to its loop and its back-off. Fake IPs are distinct, lie in the subnet, are the least free ones, and lead to
  their servers. A configuration that loads is consistent; after the README's setup the client's
  knock opens the server's gate and the handshake succeeds. Through any sequence of commands there
  is at most one daemon, stopping signals no stranger, and the daemon started in the background
  does what the foreground command does. Some theorems state defects: they are marked as such
  where they stand.

  Parameters and their laws. The AEAD, key derivation, X25519, Argon2 and Base64 (record
  \<open>crypto\<close>; \<open>aead_lawful\<close>, \<open>aead_authentic\<close>,
  \<open>argon2_lawful\<close>, \<open>b64_lawful\<close>), memory wiping
  (\<open>wipe_lawful\<close>), the Noise library
  (\<open>handshake_lawful\<close>, \<open>ciphers_agree\<close>), the TOML codec
  (\<open>toml_lawful\<close>), the kernel's BPF machine (\<open>bpf_lawful\<close>), policy rules
  (\<open>inverts_selector\<close>) and clap (\<open>clap_lawful\<close>). Each law has an
  instance in the theories. Authenticity is stated as the ideal property that only sealed messages
  open.

  Effects. Asynchronous code is modelled per task (\<open>Client_Pool\<close> interleaves tasks):
  a poll consumes a script of what the transport or the connection answers, and an
  \<open>.await\<close> that may never complete is the result \<open>Stalled\<close>. Time, random
  bytes, the outcome of system calls and the iteration order of a \<open>HashMap\<close> are
  arguments. Loops over input consume a list of events, so no fuel is needed; the loops of the
  driver, of the BPF machine and of the address scan terminate by measures (the work left in the
  scripts, the instructions left, the host numbers left).

  Not modelled. Logging; waiting for a signal (which signals are awaited is modelled); the
  wiping of temporary buffers; clap's matching of arguments beyond \<open>clap_lawful\<close>; the build
  without the \<open>tun\<close> feature; the TUN device, the user-space IP stack and the copying
  of bytes inside an established relay; yamux's own frames; tests. Paths are compared as strings,
  so two names of one file are two files. Commands run one after another, except in
  \<open>concurrent_ups_start_two\<close>, which is about two at once.
\<close>

section \<open>One stream, both ends\<close>

text \<open>
  C12: The client and the server agree about every stream. When the client's \<open>forward_one\<close> and the
  server's \<open>handle_stream\<close> meet on one working stream, the server relays to the requested
  loopback port exactly when the client starts its relay, with every byte either application
  sent intact; a port that is not permitted is an \<open>EgressDenied\<close> error at the client and no
  connection at the server, and a port where nothing listens is a protocol error naming it.
\<close>

theorem forward_ends_match:
  assumes "sends_ok c" "sends_ok s"
    and "handle_stream e answers (s\<lparr>incoming := be16 p @ data\<rparr>) = (sr, s', evs)"
    and "incoming c = drop (length (sent s)) (sent s') @ rest"
  shows "sr = Done () \<and> incoming s' = data \<and>
     (\<exists>cr relays. forward_one (Inr c) False p =
          (cr, Some (c\<lparr>incoming := rest, sent := sent c @ be16 p\<rparr>), relays) \<and>
        (relays \<longleftrightarrow> Relay (loopback p) \<in> set evs) \<and> (relays \<longleftrightarrow> permits e p \<and> answers (loopback p)) \<and>
        (relays \<longleftrightarrow> cr = Done ()) \<and>
        (\<not> permits e p \<longrightarrow> cr = Failed (EgressDenied (''port '' @ nat_to_dec (unat p))) \<and> evs = []) \<and>
        (permits e p \<and> \<not> answers (loopback p) \<longrightarrow>
           cr = Failed (Protocol (''port '' @ nat_to_dec (unat p) @ '' unreachable'')) \<and> evs = [Dial (loopback p)]))"
proof -
  let ?r = "stream_response e answers p"
  have "handle_stream e answers (s\<lparr>incoming := be16 p @ data\<rparr>) =
      (Done (), s\<lparr>incoming := data, sent := sent s @ [code ?r]\<rparr>, stream_events e answers p)"
    using handle_stream_request[of "s\<lparr>incoming := be16 p @ data\<rparr>" p data e answers] assms(2) by simp
  with assms(3) have s: "sr = Done ()" "s' = s\<lparr>incoming := data, sent := sent s @ [code ?r]\<rparr>"
    "evs = stream_events e answers p" by simp_all
  then have "incoming c = [code ?r] @ rest" using assms(4) by simp
  then have "exchange p c = (Done ?r, c\<lparr>incoming := rest, sent := sent c @ be16 p\<rparr>)"
    using assms(1) by (simp add: exchange_def io_bind_Done[OF request.wr_ok] read_connect_response_at)
  then have "\<exists>cr relays. forward_one (Inr c) False p =
          (cr, Some (c\<lparr>incoming := rest, sent := sent c @ be16 p\<rparr>), relays) \<and>
        (relays \<longleftrightarrow> Relay (loopback p) \<in> set evs) \<and> (relays \<longleftrightarrow> permits e p \<and> answers (loopback p)) \<and>
        (relays \<longleftrightarrow> cr = Done ()) \<and>
        (\<not> permits e p \<longrightarrow> cr = Failed (EgressDenied (''port '' @ nat_to_dec (unat p))) \<and> evs = []) \<and>
        (permits e p \<and> \<not> answers (loopback p) \<longrightarrow>
           cr = Failed (Protocol (''port '' @ nat_to_dec (unat p) @ '' unreachable'')) \<and> evs = [Dial (loopback p)])"
    by (simp add: forward_one_def s(3) stream_events_def stream_response_def)
  with s show ?thesis by simp
qed

theorem forward_ends_match_witness:
  "\<exists>s' c'. handle_stream (egress_new [22]) (\<lambda>_. True) (idle_conn []\<lparr>incoming := be16 22 @ [1, 2]\<rparr>) =
        (Done (), s', [Dial (loopback 22), Relay (loopback 22)]) \<and> incoming s' = [1, 2] \<and>
     forward_one (Inr (idle_conn [0, 3])) False 22 = (Done (), Some c', True) \<and> incoming c' = [3]"
proof -
  have h: "handle_stream (egress_new [22]) (\<lambda>_. True) (idle_conn []\<lparr>incoming := be16 22 @ [1, 2]\<rparr>) =
      (Done (), idle_conn [1, 2]\<lparr>sent := [0]\<rparr>, [Dial (loopback 22), Relay (loopback 22)])" by code_simp
  have "sends_ok (idle_conn [0, 3])" "sends_ok (idle_conn [])"
    "incoming (idle_conn [0, 3]) = drop (length (sent (idle_conn []))) (sent (idle_conn [1, 2]\<lparr>sent := [0]\<rparr>)) @ [3]"
    by (simp_all add: idle_conn_def sends_ok_def)
  from forward_ends_match[OF this(1,2) h this(3)] h show ?thesis by auto
qed

section \<open>From setup to tunnel\<close>

lemma readme_setup_v4: "readme_setup C Tc Ts hc cpath hs spath saddr \<Longrightarrow> sock_new (sock_ip saddr) (sock_port saddr) = saddr"
  by (auto simp: readme_setup_def)

lemma knock_sent:
  assumes "env_bind env = None" "env_send env = None"
  shows "\<exists>evs. send_knock C env target p pub sport fwmark = (Inr (), evs) \<and>
     SendTo (seal C p pub sport (env_clock env) (env_nonce env)) target \<in> set evs"
  using assms by (simp add: send_knock_def Let_def)

text \<open>
  C4: After the README's setup, the client's knock opens the server's gate. The packet that the
  client sends with its loaded configuration, in any well-formed UDP frame that is no later fragment,
  from any address and after any traffic that is not for the knock port, reaches the sniffer of a
  server that runs with its own loaded configuration, through the filter in its kernel or without
  it, and makes it run one firewall command, for exactly that source address, as long as the two
  clocks are at most the window of 30 seconds apart.
\<close>

theorem setup_opens_the_gate:
  assumes "readme_setup C Tc Ts hc cpath hs spath saddr" "aead_lawful C" "bpf_lawful run" "0 \<le> fd"
    and "length (env_nonce env) = 12" "env_bind env = None" "env_send env = None"
    and "unat (abs_diff now (now_unix (env_clock env))) \<le> 30"
    and "ipv4_header hdr src" "of_be16 [hdr ! 6, hdr ! 7] AND 0x1fff = 0"
    and "length macs = 12" "length sport = 2" "length csum = 2" "length hdr + length pad \<le> 65000"
    and "\<forall>ev\<in>set noise. off_port (sock_port saddr) ev"
  shows "\<exists>cl name e packet evs job vs sn. client_load C Tc hc cpath = Inr cl \<and> lc_servers cl = [(name, e)] \<and>
     send_knock C env saddr (tp_psk (se_params e)) (tp_server_pubkey (se_params e)) (sock_port saddr)
       (tp_fwmark (se_params e)) = (Inr (), evs) \<and> SendTo packet saddr \<in> set evs \<and>
     run_spa (server_run C Ts hs spath (\<lambda>_. None) es) = Some job \<and>
     spa_thread C run fd rc err job
         (noise @ [(Frame (udp_frame macs hdr sport (sock_port saddr) csum packet pad), Some now, True)]) =
       Returns (Inr (vs, sn)) \<and>
     commands vs = [Opened src (''nft'' # add_element_args (job_firewall job) src)]"
proof -
  obtain cl sl name e k where c: "client_load C Tc hc cpath = Inr cl" "lc_servers cl = [(name, e)]"
    and l: "server_load C Ts hs spath = Inr sl" "ld_knock sl = Some k"
    and k: "kr_psk k = tp_psk (se_params e)" "kr_server_pub k = tp_server_pubkey (se_params e)"
      "kr_tunnel_port k = sock_port saddr" "kr_knock_port k = sock_port saddr" "kr_window_secs k = 30"
    by (rule readme_setup_configs[OF assms(1)])
  let ?packet = "seal C (tp_psk (se_params e)) (tp_server_pubkey (se_params e)) (sock_port saddr) (env_clock env) (env_nonce env)"
  let ?frame = "udp_frame macs hdr sport (sock_port saddr) csum ?packet pad"
  obtain job where spa: "start_spa (Some k) = Some job" by (simp add: start_spa_def Let_def)
  then have job: "job_knock_port job = sock_port saddr" "job_tunnel_port job = sock_port saddr"
    "job_psk job = tp_psk (se_params e)" "job_server_pub job = tp_server_pubkey (se_params e)" "job_window job = 30"
    by (auto simp: start_spa_Some k)
  have len: "length ?packet = 44" by (simp add: seal_def seal_at_parts(1)[OF assms(2,5)])
  have frame: "datagram_in ?frame = Some (src, sock_port saddr, seal_at C (tp_psk (se_params e))
      (tp_server_pubkey (se_params e)) (sock_port saddr) (now_unix (env_clock env)) (env_nonce env))"
    using datagram_in_udp_frame[OF assms(9,11-13), of ?packet "sock_port saddr" pad] len assms(9,11-14)
    by (simp add: seal_def udp_frame_def RECV_BUF_def)
  have whole: "\<not> later_fragment ?frame" by (rule udp_frame_whole[OF assms(9-11)])
  have "unat (abs_diff now (now_unix (env_clock env))) \<le> unat (30 :: u64)" using assms(8) by simp
  from knock_opens_gate[OF assms(2-5) frame whole this assms(15), of rc err "job_cooldown job" "job_firewall job"]
  obtain vs sn where "spa_thread C run fd rc err job (noise @ [(Frame ?frame, Some now, True)]) = Returns (Inr (vs, sn))"
    "commands vs = [Opened src (''nft'' # add_element_args (job_firewall job) src)]"
    by (auto simp: spa_thread_def job)
  moreover have "run_spa (server_run C Ts hs spath (\<lambda>_. None) es) = Some job"
    using spa by (simp add: server_run_def l split: prod.splits)
  moreover obtain evs where "send_knock C env saddr (tp_psk (se_params e)) (tp_server_pubkey (se_params e)) (sock_port saddr)
      (tp_fwmark (se_params e)) = (Inr (), evs)" "SendTo ?packet saddr \<in> set evs"
    using knock_sent[OF assms(6,7)] by blast
  ultimately show ?thesis using c by blast
qed

lemma setup_now: "abs_diff (1005 :: u64) (now_unix (Some 1000)) = 5"
  by (simp add: abs_diff_def now_unix_def)

theorem setup_opens_the_gate_witness:
  "\<exists>hs job vs sn frame. run_spa (server_run toy_crypto pair_server_toml hs (server_config_file pair_host) (\<lambda>_. None)
       ([] :: nat select_event list)) = Some job \<and>
     spa_thread toy_crypto bpf_machine 3 0 '''' job [(Frame [1, 2, 3], None, True), (Frame frame, Some 1005, True)] =
       Returns (Inr (vs, sn)) \<and>
     commands vs =
       [Opened (Ipv4Addr 203 0 113 7) (''nft'' # add_element_args (job_firewall job) (Ipv4Addr 203 0 113 7))]"
proof -
  obtain hc hs where s: "readme_setup toy_crypto pair_client_toml pair_server_toml hc (client_config_file pair_host) hs
     (server_config_file pair_host) (SockV4 (Ipv4Addr 203 0 113 11) 8443)"
    using pair_setup by blast
  let ?env = "\<lparr>env_clock = Some 1000, env_nonce = replicate 12 1, env_bind = None, env_send = None,
     env_connect = \<lambda>_. Inl WriteZero\<rparr>"
  let ?noise = "[(Frame [1, 2, 3], None, True)]"
  have "datagram_in [1, 2, 3] = None" by (simp add: datagram_in_def ethernet_ipv4_def RECV_BUF_def)
  then have noise: "\<forall>ev\<in>set ?noise. off_port 8443 ev" by (simp add: off_port_def)
  have "of_be16 [([0x45] @ replicate 8 0 @ [17, 0, 0, 203, 0, 113, 7] @ replicate 4 0) ! 6,
      ([0x45] @ replicate 8 0 @ [17, 0, 0, 203, 0, 113, 7] @ replicate 4 0) ! 7] AND 0x1fff = 0"
    by (simp add: of_be16_def nat_of_be_def nth_append)
  from setup_opens_the_gate[OF s toy_aead_lawful bpf_machine_lawful, of 3 ?env 1005, OF _ _ _ _ _ sample_header this,
      of "replicate 12 0" "[1, 2]" "[0, 0]" "[]" ?noise "[] :: nat select_event list" 0 "''''"] noise
  show ?thesis by (auto simp: setup_now) blast
qed

text \<open>The dial: the knock goes out, and the first attempt that connects is handed to the handshake.\<close>

lemma dial_connects:
  assumes "tp_knock params = Some \<lparr>knock_port = kp\<rparr>" "env_bind env = None" "env_send env = None"
    and "i < 6" "env_connect env i = Inr cc" "\<forall>j<i. isl (env_connect env j)"
    and "connect L \<lparr>ch_static_secret = tp_static_secret params, ch_server_pubkey = tp_server_pubkey params,
        ch_psk = tp_psk params\<rparr> cc = (r, cc')"
  shows "\<exists>evs. dial C L env addr params = Returns (r, evs) \<and>
     SendTo (seal C (tp_psk params) (tp_server_pubkey params) (sock_port addr) (env_clock env) (env_nonce env))
       (sock_new (sock_ip addr) kp) \<in> set evs"
proof -
  have "find (\<lambda>i. \<not> isl (env_connect env i)) [0..<6] = Some i"
    using assms(4-6) by (auto simp: find_Some_iff)
  then obtain evs1 where "connect_tcp env addr True (tp_fwmark params) = Returns (Inr cc, evs1)"
    using connect_tcp_result[of env addr True "tp_fwmark params"] assms(5) by auto
  then have d: "dial_connected L env addr params = Returns (r, evs1 @ [SetNodelay, SetKeepalive KEEPALIVE_IDLE])"
    using assms(1,7) by (simp add: dial_connected_def)
  obtain evs2 where k: "send_knock C env (sock_new (sock_ip addr) kp) (tp_psk params) (tp_server_pubkey params)
      (sock_port addr) (tp_fwmark params) = (Inr (), evs2)"
    "SendTo (seal C (tp_psk params) (tp_server_pubkey params) (sock_port addr) (env_clock env) (env_nonce env))
       (sock_new (sock_ip addr) kp) \<in> set evs2"
    using knock_sent[OF assms(2,3)] by blast
  then show ?thesis using d assms(1) by (auto simp: dial_def Let_def)
qed

text \<open>Parameters and server state that belong together complete the handshake.\<close>

lemma paired_handshake:
  assumes "handshake_lawful L (x25519_pubkey C) R" "tp_psk p = server_psk cfg"
    and "tp_server_pubkey p = secret_public_key C (static_secret cfg)"
    and "allowed_admins cfg = [secret_public_key C (tp_static_secret p)]"
    and "length (secret_bytes (tp_static_secret p)) = KEY_LEN" "length (secret_bytes (static_secret cfg)) = KEY_LEN"
    and "length (psk_bytes (server_psk cfg)) = PSK_LEN"
  obtains msg1 msg2 cs ss where "R (send cs) (recv ss)" "R (send ss) (recv cs)"
    "\<And>cc sc x y. sends_ok cc \<Longrightarrow> incoming cc = handshake_frame msg2 @ x \<Longrightarrow>
       sends_ok sc \<Longrightarrow> incoming sc = handshake_frame msg1 @ y \<Longrightarrow>
       connect L \<lparr>ch_static_secret = tp_static_secret p, ch_server_pubkey = tp_server_pubkey p, ch_psk = tp_psk p\<rparr> cc =
         (Done cs, cc\<lparr>incoming := x, sent := sent cc @ handshake_frame msg1\<rparr>) \<and>
       timeout_accept False L cfg sc = (Done (ss, secret_public_key C (tp_static_secret p)),
         sc\<lparr>incoming := y, sent := sent sc @ handshake_frame msg2\<rparr>)"
proof -
  let ?ch = "\<lparr>ch_static_secret = tp_static_secret p, ch_server_pubkey = tp_server_pubkey p, ch_psk = tp_psk p\<rparr>"
  let ?sh = "\<lparr>sh_static_secret = static_secret cfg, sh_psk = server_psk cfg, sh_allowed_admins = allowed_admins cfg\<rparr>"
  have "\<exists>msg1 msg2 cs ss. R (send cs) (recv ss) \<and> R (send ss) (recv cs) \<and>
    (\<forall>cc sc x y. sends_ok cc \<and> incoming cc = handshake_frame msg2 @ x \<and>
       sends_ok sc \<and> incoming sc = handshake_frame msg1 @ y \<longrightarrow>
       connect L ?ch cc = (Done cs, cc\<lparr>incoming := x, sent := sent cc @ handshake_frame msg1\<rparr>) \<and>
       accept L ?sh sc = (Done (ss, secret_public_key C (ch_static_secret ?ch)),
         sc\<lparr>incoming := y, sent := sent sc @ handshake_frame msg2\<rparr>))"
    by (rule handshake_completes[OF assms(1)]) (simp_all add: assms(2-))
  then show thesis using that by (fastforce simp: timeout_accept_def)
qed

text \<open>
  C3: After the README's setup, the client dials and the server lets it in. There are two
  handshake messages such that a client that knocks and gets a TCP connection within its six
  attempts, and a server that gets the client's message within its deadline, both complete the
  handshake with their loaded configurations: the server knows the client by the admin key of
  its allow-list, each side's sending state goes with the other's receiving state, and the bytes
  that follow are left on the stream.
\<close>

theorem setup_connects:
  assumes "readme_setup C Tc Ts hc cpath hs spath saddr" "handshake_lawful L (x25519_pubkey C) R"
    and "env_bind env = None" "env_send env = None" "i < 6" "\<forall>j<i. isl (env_connect env j)"
  shows "\<exists>cl name e sl msg1 msg2 cs ss. client_load C Tc hc cpath = Inr cl \<and> lc_servers cl = [(name, e)] \<and>
     server_load C Ts hs spath = Inr sl \<and> R (send cs) (recv ss) \<and> R (send ss) (recv cs) \<and>
     (\<forall>cc x sc y. sends_ok cc \<and> incoming cc = handshake_frame msg2 @ x \<and>
        sends_ok sc \<and> incoming sc = handshake_frame msg1 @ y \<longrightarrow>
        connect L \<lparr>ch_static_secret = tp_static_secret (se_params e),
            ch_server_pubkey = tp_server_pubkey (se_params e), ch_psk = tp_psk (se_params e)\<rparr> cc =
          (Done cs, cc\<lparr>incoming := x, sent := sent cc @ handshake_frame msg1\<rparr>) \<and>
        (\<exists>packet evs. dial C L (env\<lparr>env_connect := (env_connect env)(i := Inr cc)\<rparr>) (se_addr e) (se_params e) = Returns (Done cs, evs) \<and> SendTo packet saddr \<in> set evs) \<and>
        timeout_accept False L (ld_server sl) sc =
          (Done (ss, secret_public_key C (tp_static_secret (se_params e))),
           sc\<lparr>incoming := y, sent := sent sc @ handshake_frame msg2\<rparr>))"
proof -
  obtain cl sl name e where c: "client_load C Tc hc cpath = Inr cl" "server_load C Ts hs spath = Inr sl"
    "lc_servers cl = [(name, e)]" "se_addr e = saddr"
    and k: "tp_psk (se_params e) = server_psk (ld_server sl)"
    "tp_server_pubkey (se_params e) = secret_public_key C (static_secret (ld_server sl))"
    "allowed_admins (ld_server sl) = [secret_public_key C (tp_static_secret (se_params e))]"
    "tp_knock (se_params e) = Some \<lparr>knock_port = sock_port saddr\<rparr>"
    and len: "length (secret_bytes (tp_static_secret (se_params e))) = KEY_LEN"
    "length (secret_bytes (static_secret (ld_server sl))) = KEY_LEN"
    "length (psk_bytes (server_psk (ld_server sl))) = PSK_LEN"
    by (rule readme_setup_configs[OF assms(1)])
  let ?ch = "\<lparr>ch_static_secret = tp_static_secret (se_params e), ch_server_pubkey = tp_server_pubkey (se_params e),
      ch_psk = tp_psk (se_params e)\<rparr>"
  obtain msg1 msg2 cs ss where R: "R (send cs) (recv ss)" "R (send ss) (recv cs)"
    and hs: "\<And>cc sc x y. sends_ok cc \<Longrightarrow> incoming cc = handshake_frame msg2 @ x \<Longrightarrow>
       sends_ok sc \<Longrightarrow> incoming sc = handshake_frame msg1 @ y \<Longrightarrow>
       connect L ?ch cc = (Done cs, cc\<lparr>incoming := x, sent := sent cc @ handshake_frame msg1\<rparr>) \<and>
       timeout_accept False L (ld_server sl) sc = (Done (ss, secret_public_key C (tp_static_secret (se_params e))),
         sc\<lparr>incoming := y, sent := sent sc @ handshake_frame msg2\<rparr>)"
    by (rule paired_handshake[OF assms(2) k(1-3) len]) blast
  have "connect L ?ch cc = (Done cs, cc\<lparr>incoming := x, sent := sent cc @ handshake_frame msg1\<rparr>) \<and>
        (\<exists>packet evs. dial C L (env\<lparr>env_connect := (env_connect env)(i := Inr cc)\<rparr>) (se_addr e) (se_params e) = Returns (Done cs, evs) \<and> SendTo packet saddr \<in> set evs) \<and>
        timeout_accept False L (ld_server sl) sc =
          (Done (ss, secret_public_key C (tp_static_secret (se_params e))),
           sc\<lparr>incoming := y, sent := sent sc @ handshake_frame msg2\<rparr>)"
    if io: "sends_ok cc" "incoming cc = handshake_frame msg2 @ x"
      "sends_ok sc" "incoming sc = handshake_frame msg1 @ y" for cc x sc y
  proof -
    note h = hs[OF io]
    have "\<exists>packet evs. dial C L (env\<lparr>env_connect := (env_connect env)(i := Inr cc)\<rparr>) (se_addr e) (se_params e) = Returns (Done cs, evs) \<and> SendTo packet saddr \<in> set evs"
      using dial_connects[of "se_params e" "sock_port saddr" "env\<lparr>env_connect := (env_connect env)(i := Inr cc)\<rparr>" i cc L,
          OF k(4) _ _ assms(5) _ _ h[THEN conjunct1], of C "se_addr e"] readme_setup_v4[OF assms(1)] c(4) assms(3,4,6)
      by auto
    with h show ?thesis by simp
  qed
  with c(1-3) R show ?thesis by blast
qed

text \<open>The toy handshake with the toy public keys.\<close>

definition pair_noise :: "(toy_hs, nat) noise_lib" where
  "pair_noise = toy_noise\<lparr>hs_write := \<lambda>(i, s, r, k, n).
        if i \<and> n = 0 then Some ((i, s, r, k, 1), x25519_pubkey toy_crypto s @ k)
        else if \<not> i \<and> n = 1 then Some ((i, s, r, k, 2), [9]) else None\<rparr>"

lemma pair_handshake_lawful: "handshake_lawful pair_noise (x25519_pubkey toy_crypto) (=)"
  by (auto simp: handshake_lawful_def pair_noise_def toy_noise_def toy_crypto_def handshake_msg_ok_def
      KEY_LEN_def PSK_LEN_def)

theorem setup_connects_witness:
  "\<exists>hc cl name e hs sl cc cs evs sc ss sc'. client_load toy_crypto pair_client_toml hc (client_config_file pair_host) = Inr cl \<and>
     lc_servers cl = [(name, e)] \<and> server_load toy_crypto pair_server_toml hs (server_config_file pair_host) = Inr sl \<and>
     dial toy_crypto pair_noise \<lparr>env_clock = Some 1000, env_nonce = replicate 12 1, env_bind = None, env_send = None,
         env_connect = (\<lambda>_. Inl WriteZero)(2 := Inr cc)\<rparr> (se_addr e) (se_params e) = Returns (Done cs, evs) \<and>
     timeout_accept False pair_noise (ld_server sl) sc = (Done (ss, secret_public_key toy_crypto (tp_static_secret (se_params e))), sc') \<and>
     send cs = recv ss \<and> send ss = recv cs"
proof -
  obtain hc hs where s: "readme_setup toy_crypto pair_client_toml pair_server_toml hc (client_config_file pair_host) hs
     (server_config_file pair_host) (SockV4 (Ipv4Addr 203 0 113 11) 8443)"
    using pair_setup by blast
  let ?env = "\<lparr>env_clock = Some 1000, env_nonce = replicate 12 1, env_bind = None, env_send = None,
     env_connect = \<lambda>_. Inl WriteZero\<rparr>"
  from setup_connects[OF s pair_handshake_lawful, of ?env 2] obtain cl name e sl msg1 msg2 cs ss where
    c: "client_load toy_crypto pair_client_toml hc (client_config_file pair_host) = Inr cl" "lc_servers cl = [(name, e)]"
      "server_load toy_crypto pair_server_toml hs (server_config_file pair_host) = Inr sl"
      "send cs = recv ss" "send ss = recv cs" and
    go: "\<And>cc x sc y. sends_ok cc \<Longrightarrow> incoming cc = handshake_frame msg2 @ x \<Longrightarrow> sends_ok sc \<Longrightarrow>
        incoming sc = handshake_frame msg1 @ y \<Longrightarrow>
        (\<exists>packet evs. dial toy_crypto pair_noise (?env\<lparr>env_connect := (env_connect ?env)(2 := Inr cc)\<rparr>) (se_addr e) (se_params e) =
            Returns (Done cs, evs)) \<and>
        timeout_accept False pair_noise (ld_server sl) sc =
          (Done (ss, secret_public_key toy_crypto (tp_static_secret (se_params e))),
           sc\<lparr>incoming := y, sent := sent sc @ handshake_frame msg2\<rparr>)"
    by fastforce
  from go[of "idle_conn (handshake_frame msg2)" "[]" "idle_conn (handshake_frame msg1)" "[]"]
  have "\<exists>evs. dial toy_crypto pair_noise \<lparr>env_clock = Some 1000, env_nonce = replicate 12 1, env_bind = None, env_send = None,
         env_connect = (\<lambda>_. Inl WriteZero)(2 := Inr (idle_conn (handshake_frame msg2)))\<rparr> (se_addr e) (se_params e) = Returns (Done cs, evs)"
    "\<exists>sc'. timeout_accept False pair_noise (ld_server sl) (idle_conn (handshake_frame msg1)) =
      (Done (ss, secret_public_key toy_crypto (tp_static_secret (se_params e))), sc')"
    by (auto simp: idle_conn_def sends_ok_def)
  with c show ?thesis by blast
qed

end
